(* ===== verification/Edge_Prelude.thy ===== *)
theory Edge_Prelude
  imports Main "HOL-Library.List_Lexorder" "HOL-Library.Char_ord"
begin

text \<open>
  What every component of the Teslatlas Edge model shares: the machine integers
  of the Rust sources, byte strings and the string operations the sources call,
  the ordered map behind \<open>BTreeMap\<close> (an interface locale and its sorted
  association list implementation), the procedures with state and errors that
  stand for fallible Rust methods, a small Hoare calculus for them, and the
  interface of a step relation with an invariant.
\<close>

named_theorems hoare \<open>rules of the Hoare calculus for procedures\<close>
named_theorems bt_simps \<open>equations of the ordered map\<close>

section \<open>Machine integers\<close>

text \<open>
  An unsigned 64-bit integer (u64, and usize on the supported 64-bit targets) is a
  natural number below \<open>2^64\<close>, a signed one (i64) an integer; saturating and
  checked operations are written out with the type's bounds.
\<close>

definition u64_max :: nat where
  "u64_max = 18446744073709551615"

definition i64_max :: int where
  "i64_max = 9223372036854775807"

definition i64_min :: int where
  "i64_min = - 9223372036854775808"

definition sat_add_u64 :: "nat \<Rightarrow> nat \<Rightarrow> nat" where
  "sat_add_u64 a b = min u64_max (a + b)"

definition sat_sub_u64 :: "nat \<Rightarrow> nat \<Rightarrow> nat" where
  "sat_sub_u64 a b = a - b"

definition checked_add_u64 :: "nat \<Rightarrow> nat \<Rightarrow> nat option" where
  "checked_add_u64 a b = (if a + b \<le> u64_max then Some (a + b) else None)"

definition checked_mul_u64 :: "nat \<Rightarrow> nat \<Rightarrow> nat option" where
  "checked_mul_u64 a b = (if a * b \<le> u64_max then Some (a * b) else None)"

definition sat_add_i64 :: "int \<Rightarrow> int \<Rightarrow> int" where
  "sat_add_i64 a b = max i64_min (min i64_max (a + b))"

definition sat_sub_i64 :: "int \<Rightarrow> int \<Rightarrow> int" where
  "sat_sub_i64 a b = max i64_min (min i64_max (a - b))"

text \<open>\<open>u64::try_from(usize)\<close>: lengths of HOL lists are unbounded, so the bound is checked.\<close>

definition u64_try_from :: "nat \<Rightarrow> nat option" where
  "u64_try_from n = (if n \<le> u64_max then Some n else None)"

definition i64_try_from_u64 :: "nat \<Rightarrow> int option" where
  "i64_try_from_u64 n = (if int n \<le> i64_max then Some (int n) else None)"

lemma sat_add_u64_le_iff: "b < u64_max \<Longrightarrow> sat_add_u64 x y \<le> b \<longleftrightarrow> x + y \<le> b"
  by (auto simp: sat_add_u64_def)

lemma sat_add_u64_exact: "sat_add_u64 x y \<le> b \<Longrightarrow> b < u64_max \<Longrightarrow> sat_add_u64 x y = x + y"
  by (auto simp: sat_add_u64_def)

lemma checked_add_u64_Some:
  "checked_add_u64 a b = Some c \<longleftrightarrow> c = a + b \<and> a + b \<le> u64_max"
  by (auto simp: checked_add_u64_def)

lemma u64_try_from_Some: "u64_try_from n = Some m \<longleftrightarrow> m = n \<and> n \<le> u64_max"
  by (auto simp: u64_try_from_def)

lemma sat_add_i64_mono: "a \<le> b \<Longrightarrow> sat_add_i64 a c \<le> sat_add_i64 b c"
  by (auto simp: sat_add_i64_def)

lemma sat_add_i64_ge: "i64_min \<le> a \<Longrightarrow> a \<le> i64_max \<Longrightarrow> 0 \<le> c \<Longrightarrow> a \<le> sat_add_i64 a c"
  by (auto simp: sat_add_i64_def)

section \<open>Bytes and strings\<close>

text \<open>
  A byte is a HOL \<open>char\<close> (eight bits). A Rust \<open>String\<close> is the list of its
  UTF-8 bytes, so that its \<open>len()\<close> is the length of the list and its order is the
  lexicographic order of the bytes.
\<close>

type_synonym bytes = "char list"

definition byte_val :: "char \<Rightarrow> nat" where
  "byte_val c = of_char c"

definition byte_of :: "nat \<Rightarrow> char" where
  "byte_of n = char_of n"

definition is_ascii_digit :: "char \<Rightarrow> bool" where
  "is_ascii_digit c \<longleftrightarrow> 48 \<le> byte_val c \<and> byte_val c \<le> 57"

definition is_ascii_uppercase :: "char \<Rightarrow> bool" where
  "is_ascii_uppercase c \<longleftrightarrow> 65 \<le> byte_val c \<and> byte_val c \<le> 90"

definition is_ascii_lowercase :: "char \<Rightarrow> bool" where
  "is_ascii_lowercase c \<longleftrightarrow> 97 \<le> byte_val c \<and> byte_val c \<le> 122"

definition is_ascii_alphanumeric :: "char \<Rightarrow> bool" where
  "is_ascii_alphanumeric c \<longleftrightarrow> is_ascii_digit c \<or> is_ascii_uppercase c \<or> is_ascii_lowercase c"

definition to_ascii_lowercase :: "char \<Rightarrow> char" where
  "to_ascii_lowercase c = (if is_ascii_uppercase c then byte_of (byte_val c + 32) else c)"

definition is_visible_ascii :: "char \<Rightarrow> bool" where
  "is_visible_ascii c \<longleftrightarrow> 33 \<le> byte_val c \<and> byte_val c \<le> 126"

definition is_lower_hex :: "char \<Rightarrow> bool" where
  "is_lower_hex c \<longleftrightarrow> is_ascii_digit c \<or> (97 \<le> byte_val c \<and> byte_val c \<le> 102)"

lemma byte_val_less [simp]: "byte_val c < 256"
  by (simp add: byte_val_def)

lemma byte_val_byte_of: "n < 256 \<Longrightarrow> byte_val (byte_of n) = n"
  by (simp add: byte_val_def byte_of_def of_char_mod_256)

lemma byte_of_byte_val [simp]: "byte_of (byte_val c) = c"
  by (simp add: byte_val_def byte_of_def)

fun strip_prefix :: "string \<Rightarrow> string \<Rightarrow> string option" where
  "strip_prefix [] s = Some s"
| "strip_prefix (p # ps) [] = None"
| "strip_prefix (p # ps) (c # s) = (if p = c then strip_prefix ps s else None)"

definition strip_suffix :: "string \<Rightarrow> string \<Rightarrow> string option" where
  "strip_suffix p s = map_option rev (strip_prefix (rev p) (rev s))"

definition ends_with :: "string \<Rightarrow> string \<Rightarrow> bool" where
  "ends_with p s \<longleftrightarrow> strip_suffix p s \<noteq> None"

text \<open>\<open>str::split_once(char)\<close>: the parts before and after the first occurrence.\<close>

fun split_once :: "char \<Rightarrow> string \<Rightarrow> (string \<times> string) option" where
  "split_once c [] = None"
| "split_once c (x # xs) =
     (if x = c then Some ([], xs)
      else map_option (\<lambda>(a, b). (x # a, b)) (split_once c xs))"

text \<open>\<open>str::split(char)\<close> as the list of all parts; it always has one part at least.\<close>

fun split_on :: "char \<Rightarrow> string \<Rightarrow> string list" where
  "split_on c [] = [[]]"
| "split_on c (x # xs) =
     (if x = c then [] # split_on c xs
      else (case split_on c xs of [] \<Rightarrow> [[x]] | p # ps \<Rightarrow> (x # p) # ps))"

lemma strip_prefix_Some: "strip_prefix p s = Some r \<longleftrightarrow> s = p @ r"
  by (induction p s rule: strip_prefix.induct) auto

lemma strip_suffix_Some: "strip_suffix p s = Some r \<longleftrightarrow> s = r @ p"
proof
  assume "strip_suffix p s = Some r"
  then obtain q where "strip_prefix (rev p) (rev s) = Some q" "r = rev q"
    by (auto simp: strip_suffix_def)
  then have "rev s = rev p @ q" "r = rev q" by (auto simp: strip_prefix_Some)
  then show "s = r @ p" by (metis rev_append rev_rev_ident)
next
  assume "s = r @ p"
  then have "strip_prefix (rev p) (rev s) = Some (rev r)" by (simp add: strip_prefix_Some)
  then show "strip_suffix p s = Some r" by (simp add: strip_suffix_def)
qed

lemma ends_with_iff: "ends_with p s \<longleftrightarrow> (\<exists>r. s = r @ p)"
  using strip_suffix_Some by (auto simp: ends_with_def)

lemma split_once_append: "c \<notin> set a \<Longrightarrow> split_once c (a @ c # b) = Some (a, b)"
  by (induction a) auto

lemma split_on_not_Nil [simp]: "split_on c s \<noteq> []"
  by (induction s) (auto split: list.splits)

lemma split_on_no_sep: "c \<notin> set s \<Longrightarrow> split_on c s = [s]"
  by (induction s) auto

lemma split_on_append: "c \<notin> set a \<Longrightarrow> split_on c (a @ c # b) = a # split_on c b"
  by (induction a) auto

subsection \<open>Decimal numbers\<close>

text \<open>\<open>{n}\<close> and \<open>{n:020}\<close> of the formatter, and \<open>str::parse::<u64>()\<close>.\<close>

definition digit_char :: "nat \<Rightarrow> char" where
  "digit_char d = byte_of (48 + d)"

fun dec_digits :: "nat \<Rightarrow> string" where
  "dec_digits n = (if n < 10 then [digit_char n] else dec_digits (n div 10) @ [digit_char (n mod 10)])"

declare dec_digits.simps [simp del]

definition pad0 :: "nat \<Rightarrow> string \<Rightarrow> string" where
  "pad0 w s = replicate (w - length s) (CHR ''0'') @ s"

definition dec020 :: "nat \<Rightarrow> string" where
  "dec020 n = pad0 20 (dec_digits n)"

definition dec_step :: "nat option \<Rightarrow> char \<Rightarrow> nat option" where
  "dec_step acc c = (case acc of None \<Rightarrow> None
     | Some n \<Rightarrow> if is_ascii_digit c then Some (n * 10 + (byte_val c - 48)) else None)"

text \<open>Rust's integer parser accepts one leading plus sign, needs a digit and reports overflow.\<close>

definition parse_u64 :: "string \<Rightarrow> nat option" where
  "parse_u64 s =
     (let t = (case strip_prefix ''+'' s of Some r \<Rightarrow> r | None \<Rightarrow> s)
      in if t = [] then None
         else (case foldl dec_step (Some 0) t of None \<Rightarrow> None
               | Some n \<Rightarrow> if n \<le> u64_max then Some n else None))"

lemma byte_val_digit_char: "d < 10 \<Longrightarrow> byte_val (digit_char d) = 48 + d"
  by (simp add: digit_char_def byte_val_byte_of)

lemma is_ascii_digit_digit_char: "d < 10 \<Longrightarrow> is_ascii_digit (digit_char d)"
  by (simp add: is_ascii_digit_def byte_val_digit_char)

lemma dec_digits_digits: "\<forall>c \<in> set (dec_digits n). is_ascii_digit c"
proof (induction n rule: dec_digits.induct)
  case (1 n)
  then show ?case
    by (subst dec_digits.simps) (auto simp: is_ascii_digit_digit_char)
qed

lemma dec_digits_not_Nil [simp]: "dec_digits n \<noteq> []"
  by (subst dec_digits.simps) simp

lemma dec_digits_length: "n < 10 ^ k \<Longrightarrow> 0 < k \<Longrightarrow> length (dec_digits n) \<le> k"
proof (induction n arbitrary: k rule: dec_digits.induct)
  case (1 n)
  show ?case
  proof (cases "n < 10")
    case True
    with 1 show ?thesis by (subst dec_digits.simps) simp
  next
    case False
    with "1.prems" have "k \<noteq> 1" by auto
    with "1.prems" have "1 < k" by simp
    then obtain j where j: "k = Suc j" "0 < j" by (cases k) auto
    with "1.prems" have "n div 10 < 10 ^ j" by (simp add: less_mult_imp_div_less mult.commute)
    with False j "1.IH" have "length (dec_digits (n div 10)) \<le> j" by simp
    with False j show ?thesis by (subst dec_digits.simps) simp
  qed
qed

lemma dec_step_digits:
  "foldl dec_step (Some a) (dec_digits n) = Some (a * 10 ^ length (dec_digits n) + n)"
proof (induction n arbitrary: a rule: dec_digits.induct)
  case (1 n)
  show ?case
  proof (cases "n < 10")
    case True
    then have "dec_digits n = [digit_char n]" by (subst dec_digits.simps) simp
    with True show ?thesis
      by (simp add: dec_step_def is_ascii_digit_digit_char byte_val_digit_char)
  next
    case False
    then have "dec_digits n = dec_digits (n div 10) @ [digit_char (n mod 10)]"
      by (subst dec_digits.simps) simp
    with False "1.IH" [of a] show ?thesis
      by (simp add: dec_step_def is_ascii_digit_digit_char byte_val_digit_char algebra_simps)
  qed
qed

lemma dec_step_zeros: "foldl dec_step (Some 0) (replicate k (CHR ''0'')) = Some 0"
  by (induction k) (simp_all add: dec_step_def is_ascii_digit_def byte_val_def)

lemma not_plus_if_digit: "is_ascii_digit c \<Longrightarrow> CHR ''+'' \<noteq> c"
  by (auto simp: is_ascii_digit_def byte_val_def)

lemma not_dash_if_digit: "is_ascii_digit c \<Longrightarrow> CHR ''-'' \<noteq> c"
  by (auto simp: is_ascii_digit_def byte_val_def)

lemma dec020_digits: "\<forall>c \<in> set (dec020 n). is_ascii_digit c"
  using dec_digits_digits [of n] by (auto simp: dec020_def pad0_def is_ascii_digit_def byte_val_def)

lemma dec020_length: "n \<le> u64_max \<Longrightarrow> length (dec020 n) = 20"
proof -
  assume "n \<le> u64_max"
  then have "n < 10 ^ 20" by (simp add: u64_max_def)
  then have "length (dec_digits n) \<le> 20" by (rule dec_digits_length) simp
  then show ?thesis by (simp add: dec020_def pad0_def)
qed

lemma parse_u64_digits:
  assumes "\<forall>c \<in> set s. is_ascii_digit c" "s \<noteq> []"
    and "foldl dec_step (Some 0) s = Some n" "n \<le> u64_max"
  shows "parse_u64 s = Some n"
proof -
  from assms obtain c t where s: "s = c # t" by (cases s) auto
  with assms have "CHR ''+'' \<noteq> c" by (simp add: not_plus_if_digit)
  with s have "strip_prefix ''+'' s = None" by simp
  with assms show ?thesis by (simp add: parse_u64_def)
qed

lemma parse_u64_dec020: "n \<le> u64_max \<Longrightarrow> parse_u64 (dec020 n) = Some n"
proof (rule parse_u64_digits)
  assume n: "n \<le> u64_max"
  show "\<forall>c \<in> set (dec020 n). is_ascii_digit c" by (rule dec020_digits)
  show "dec020 n \<noteq> []" by (simp add: dec020_def pad0_def)
  show "foldl dec_step (Some 0) (dec020 n) = Some n"
    by (simp add: dec020_def pad0_def dec_step_zeros dec_step_digits)
qed assumption

subsection \<open>Big-endian bytes\<close>

text \<open>\<open>u64::to_be_bytes\<close>.\<close>

fun be_bytes :: "nat \<Rightarrow> nat \<Rightarrow> bytes" where
  "be_bytes 0 n = []"
| "be_bytes (Suc k) n = be_bytes k (n div 256) @ [byte_of (n mod 256)]"

definition u64_be :: "nat \<Rightarrow> bytes" where
  "u64_be n = be_bytes 8 n"

fun be_value :: "bytes \<Rightarrow> nat" where
  "be_value bs = foldl (\<lambda>a c. a * 256 + byte_val c) 0 bs"

lemma length_be_bytes [simp]: "length (be_bytes k n) = k"
  by (induction k arbitrary: n) auto

lemma length_u64_be [simp]: "length (u64_be n) = 8"
  by (simp add: u64_be_def)

lemma be_value_be_bytes: "n < 256 ^ k \<Longrightarrow> be_value (be_bytes k n) = n"
proof (induction k arbitrary: n)
  case 0
  then show ?case by simp
next
  case (Suc k)
  then have "n div 256 < 256 ^ k" by (simp add: less_mult_imp_div_less mult.commute)
  with Suc.IH show ?case by (simp add: byte_val_byte_of)
qed

lemma u64_be_inject: "m \<le> u64_max \<Longrightarrow> n \<le> u64_max \<Longrightarrow> u64_be m = u64_be n \<longleftrightarrow> m = n"
proof
  assume "m \<le> u64_max" "n \<le> u64_max" "u64_be m = u64_be n"
  moreover have "be_value (u64_be m) = m" if "m \<le> u64_max" for m
    using that unfolding u64_be_def by (intro be_value_be_bytes) (simp add: u64_max_def)
  ultimately show "m = n" by metis
qed simp

end
