(* ===== verification/Edge_Maps.thy ===== *)
theory Edge_Maps
  imports Edge_Prelude
begin

text \<open>
  The ordered map of the Rust sources (\<open>BTreeMap\<close>). The interface is the locale
  \<open>ordered_map\<close>: insertion, removal, lookup and the items in key order, with the
  laws the clients rely on. The clients' lemmas (lookup after an update, number of
  items, sums over the values) are proved once inside it. The model's maps are sorted
  association lists, and the locale is interpreted on them.
\<close>

section \<open>The interface\<close>

locale ordered_map =
  fixes ins :: "'k::linorder \<Rightarrow> 'v \<Rightarrow> 'm \<Rightarrow> 'm"
    and del :: "'k \<Rightarrow> 'm \<Rightarrow> 'm"
    and look :: "'m \<Rightarrow> 'k \<Rightarrow> 'v option"
    and items :: "'m \<Rightarrow> ('k \<times> 'v) list"
    and wf :: "'m \<Rightarrow> bool"
  assumes ok_ins: "wf m \<Longrightarrow> wf (ins k v m)"
    and ok_del: "wf m \<Longrightarrow> wf (del k m)"
    and sorted_items: "wf m \<Longrightarrow> sorted_wrt (<) (map fst (items m))"
    and look_items: "wf m \<Longrightarrow> look m k = Some v \<longleftrightarrow> (k, v) \<in> set (items m)"
    and items_ins: "wf m \<Longrightarrow>
      set (items (ins k v m)) = insert (k, v) {p \<in> set (items m). fst p \<noteq> k}"
    and items_del: "wf m \<Longrightarrow> set (items (del k m)) = {p \<in> set (items m). fst p \<noteq> k}"
begin

lemma distinct_keys: "wf m \<Longrightarrow> distinct (map fst (items m))"
  using sorted_items strict_sorted_iff by blast

lemma distinct_items: "wf m \<Longrightarrow> distinct (items m)"
  using distinct_keys distinct_map by blast

lemma look_None: "wf m \<Longrightarrow> look m k = None \<longleftrightarrow> k \<notin> fst ` set (items m)"
  using look_items [of m k] by (cases "look m k") force+

lemma look_of_ins: "wf m \<Longrightarrow> look (ins k v m) j = (if j = k then Some v else look m j)"
proof (cases "look (ins k v m) j")
  case None
  moreover assume "wf m"
  ultimately show ?thesis
    using look_None [OF ok_ins, of m k v j] look_None [of m j] by (auto simp: items_ins image_iff)
next
  case (Some w)
  moreover assume "wf m"
  ultimately show ?thesis
    using look_items [OF ok_ins, of m k v j w] look_items [of m j w] by (auto simp: items_ins)
qed

lemma look_of_del: "wf m \<Longrightarrow> look (del k m) j = (if j = k then None else look m j)"
proof (cases "look (del k m) j")
  case None
  moreover assume "wf m"
  ultimately show ?thesis
    using look_None [OF ok_del, of m k j] look_None [of m j] by (auto simp: items_del image_iff)
next
  case (Some w)
  moreover assume "wf m"
  ultimately show ?thesis
    using look_items [OF ok_del, of m k j w] look_items [of m j w] by (auto simp: items_del)
qed

lemma sum_items: "wf m \<Longrightarrow> sum_list (map g (items m)) = (sum g (set (items m)) :: nat)"
  by (rule sum_list_distinct_conv_sum_set [OF distinct_items])

lemma sum_ins_fresh:
  assumes "wf m" "look m k = None"
  shows "sum_list (map g (items (ins k v m))) = (g (k, v) + sum_list (map g (items m)) :: nat)"
proof -
  from assms have k: "k \<notin> fst ` set (items m)" by (simp add: look_None)
  then have "{p \<in> set (items m). fst p \<noteq> k} = set (items m)" by auto
  moreover from k have "(k, v) \<notin> set (items m)" by force
  ultimately show ?thesis using assms by (simp add: sum_items ok_ins items_ins)
qed

lemma sum_del_present:
  assumes "wf m" "look m k = Some v"
  shows "sum_list (map g (items m)) = (g (k, v) + sum_list (map g (items (del k m))) :: nat)"
proof -
  from assms have kv: "(k, v) \<in> set (items m)" by (simp add: look_items)
  have "fst p = k \<longleftrightarrow> p = (k, v)" if "p \<in> set (items m)" for p
    using that assms look_items [OF assms(1), of k "snd p"] by (auto simp: prod_eq_iff)
  then have "{p \<in> set (items m). fst p \<noteq> k} = set (items m) - {(k, v)}" by blast
  with assms kv show ?thesis
    by (simp add: sum_items ok_del items_del sum.remove)
qed

lemma length_ins_fresh:
  "wf m \<Longrightarrow> look m k = None \<Longrightarrow> length (items (ins k v m)) = Suc (length (items m))"
  using sum_ins_fresh [of m k "\<lambda>_. 1" v] by (simp add: sum_list_triv)

lemma length_del_present:
  "wf m \<Longrightarrow> look m k = Some v \<Longrightarrow> length (items m) = Suc (length (items (del k m)))"
  using sum_del_present [of m k v "\<lambda>_. 1"] by (simp add: sum_list_triv)

end

section \<open>Sorted association lists\<close>

type_synonym ('k, 'v) btree = "('k \<times> 'v) list"

fun bt_insert :: "'k::linorder \<Rightarrow> 'v \<Rightarrow> ('k, 'v) btree \<Rightarrow> ('k, 'v) btree" where
  "bt_insert k v [] = [(k, v)]"
| "bt_insert k v (p # m) =
     (if fst p < k then p # bt_insert k v m
      else if fst p = k then (k, v) # m
      else (k, v) # p # m)"

definition bt_remove :: "'k \<Rightarrow> ('k, 'v) btree \<Rightarrow> ('k, 'v) btree" where
  "bt_remove k m = filter (\<lambda>p. fst p \<noteq> k) m"

definition bt_get :: "('k, 'v) btree \<Rightarrow> 'k \<Rightarrow> 'v option" where
  "bt_get m k = map_of m k"

definition bt_values :: "('k, 'v) btree \<Rightarrow> 'v list" where
  "bt_values m = map snd m"

definition bt_keys :: "('k, 'v) btree \<Rightarrow> 'k list" where
  "bt_keys m = map fst m"

definition bt_contains :: "('k, 'v) btree \<Rightarrow> 'k \<Rightarrow> bool" where
  "bt_contains m k \<longleftrightarrow> bt_get m k \<noteq> None"

definition bt_ok :: "('k::linorder, 'v) btree \<Rightarrow> bool" where
  "bt_ok m \<longleftrightarrow> sorted_wrt (<) (map fst m)"

definition bt_of_list :: "('k::linorder \<times> 'v) list \<Rightarrow> ('k, 'v) btree" where
  "bt_of_list ps = foldl (\<lambda>m (k, v). bt_insert k v m) [] ps"

lemma bt_ok_Cons: "bt_ok (p # m) \<longleftrightarrow> bt_ok m \<and> (\<forall>q \<in> set m. fst p < fst q)"
  by (auto simp: bt_ok_def)

lemma set_bt_insert:
  "bt_ok m \<Longrightarrow> set (bt_insert k v m) = insert (k, v) {p \<in> set m. fst p \<noteq> k}"
proof (induction m)
  case Nil
  then show ?case by simp
next
  case (Cons p m)
  consider "fst p < k" | "fst p = k" | "k < fst p" by (rule linorder_cases)
  then show ?case
  proof cases
    case 1
    with Cons show ?thesis by (auto simp: bt_ok_Cons)
  next
    case 2
    with Cons.prems have "\<forall>q \<in> set m. fst q \<noteq> k" by (auto simp: bt_ok_Cons)
    with 2 show ?thesis by auto
  next
    case 3
    with Cons.prems have "\<forall>q \<in> set m. fst q \<noteq> k" by (auto simp: bt_ok_Cons)
    with 3 show ?thesis by auto
  qed
qed

lemma bt_ok_insert [simp]: "bt_ok m \<Longrightarrow> bt_ok (bt_insert k v m)"
proof (induction m)
  case Nil
  then show ?case by (simp add: bt_ok_def)
next
  case (Cons p m)
  then show ?case by (auto simp: bt_ok_Cons set_bt_insert dest: order.strict_trans)
qed

lemma bt_ok_remove [simp]: "bt_ok m \<Longrightarrow> bt_ok (bt_remove k m)"
  by (auto simp: bt_ok_def bt_remove_def sorted_wrt_map intro: sorted_wrt_filter)

lemma bt_ok_Nil [simp]: "bt_ok []"
  by (simp add: bt_ok_def)

lemma bt_get_Nil [simp]: "bt_get [] k = None"
  by (simp add: bt_get_def)

lemma bt_values_Nil [simp]: "bt_values [] = []"
  by (simp add: bt_values_def)

lemma bt_ok_distinct: "bt_ok m \<Longrightarrow> distinct (map fst m)"
  by (simp add: bt_ok_def strict_sorted_iff)

interpretation bt: ordered_map bt_insert bt_remove bt_get "\<lambda>m. m" bt_ok
proof unfold_locales
  fix m :: "('k::linorder \<times> 'v) list" and k v
  assume m: "bt_ok m"
  show "bt_ok (bt_insert k v m)" "bt_ok (bt_remove k m)" using m by simp_all
  show "sorted_wrt (<) (map fst m)" using m by (simp add: bt_ok_def)
  show "bt_get m k = Some v \<longleftrightarrow> (k, v) \<in> set m"
    using bt_ok_distinct [OF m] by (simp add: bt_get_def)
  show "set (bt_insert k v m) = insert (k, v) {p \<in> set m. fst p \<noteq> k}"
    using m by (rule set_bt_insert)
  show "set (bt_remove k m) = {p \<in> set m. fst p \<noteq> k}"
    by (auto simp: bt_remove_def)
qed

lemma bt_get_insert [bt_simps]:
  "bt_ok m \<Longrightarrow> bt_get (bt_insert k v m) j = (if j = k then Some v else bt_get m j)"
  by (rule bt.look_of_ins)

lemma bt_get_remove [simp]:
  "bt_get (bt_remove k m) j = (if j = k then None else bt_get m j)"
  by (induction m) (auto simp: bt_get_def bt_remove_def)

lemma bt_values_iff: "bt_ok m \<Longrightarrow> v \<in> set (bt_values m) \<longleftrightarrow> (\<exists>k. bt_get m k = Some v)"
  by (force simp: bt_values_def bt.look_items)

lemma bt_remove_absent: "bt_get m k = None \<Longrightarrow> bt_remove k m = m"
  by (force simp: bt_get_def bt_remove_def map_of_eq_None_iff intro: filter_True)

lemma bt_length_remove_le: "length (bt_remove k m) \<le> length m"
  by (simp add: bt_remove_def)

lemma bt_ok_of_list: "bt_ok (bt_of_list ps)"
proof -
  have "bt_ok m \<Longrightarrow> bt_ok (foldl (\<lambda>m (k, v). bt_insert k v m) m ps)" for m :: "('a, 'b) btree"
    by (induction ps arbitrary: m) auto
  then show ?thesis by (simp add: bt_of_list_def)
qed

lemma bt_insert_sorted_last:
  "\<forall>p \<in> set m. fst p < k \<Longrightarrow> bt_insert k v m = m @ [(k, v)]"
  by (induction m) auto

lemma bt_of_list_id: "bt_ok m \<Longrightarrow> bt_of_list m = m"
proof (induction m rule: rev_induct)
  case Nil
  then show ?case by (simp add: bt_of_list_def)
next
  case (snoc p m)
  then have "bt_ok m" "\<forall>q \<in> set m. fst q < fst p" by (auto simp: bt_ok_def sorted_wrt_append)
  with snoc.IH show ?case by (cases p) (simp add: bt_of_list_def bt_insert_sorted_last)
qed

section \<open>Totals over the values\<close>

text \<open>The byte accounting of the spool: the sum of a measure over the values of a map.\<close>

definition bt_total :: "('v \<Rightarrow> nat) \<Rightarrow> ('k, 'v) btree \<Rightarrow> nat" where
  "bt_total f m = sum_list (map (\<lambda>p. f (snd p)) m)"

lemma bt_total_Nil [simp]: "bt_total f [] = 0"
  by (simp add: bt_total_def)

lemma bt_total_insert [bt_simps]:
  "bt_ok m \<Longrightarrow> bt_get m k = None \<Longrightarrow> bt_total f (bt_insert k v m) = f v + bt_total f m"
  using bt.sum_ins_fresh [of m k "\<lambda>p. f (snd p)" v] by (simp add: bt_total_def)

lemma bt_total_remove:
  "bt_ok m \<Longrightarrow> bt_get m k = Some v \<Longrightarrow> bt_total f m = f v + bt_total f (bt_remove k m)"
  using bt.sum_del_present [of m k v "\<lambda>p. f (snd p)"] by (simp add: bt_total_def)

end
