(* ===== verification/Edge_Json.thy ===== *)
theory Edge_Json
  imports Edge_Maps "HOL-Library.Monad_Syntax"
begin

text \<open>
  JSON as the sources see it through serde: values (\<open>serde_json::Value\<close>), what a
  JSON reader hands to a visitor (\<open>jsrc\<close>, with a node for the place where the
  text stops being JSON), the visitor \<open>UniqueValueVisitor\<close> of protocol.rs that
  refuses duplicate keys, and the derived (de)serializers' treatment of struct
  fields: unknown and repeated fields refused, defaults, optional fields, and the
  positional form that derived struct visitors also accept.
\<close>

section \<open>Values\<close>

text \<open>A double is kept as its IEEE 754 bit pattern.\<close>

datatype json_number = PosInt nat | NegInt int | Float nat

datatype json =
    JNull
  | JBool bool
  | JNum json_number
  | JStr string
  | JArr "json list"
  | JObj "(string \<times> json) list"

definition f64_is_finite :: "nat \<Rightarrow> bool" where
  "f64_is_finite bits \<longleftrightarrow> (bits div 2 ^ 52) mod 2048 \<noteq> 2047"

definition number_from_i64 :: "int \<Rightarrow> json_number" where
  "number_from_i64 i = (if i < 0 then NegInt i else PosInt (nat i))"

definition number_from_f64 :: "nat \<Rightarrow> json_number option" where
  "number_from_f64 bits = (if f64_is_finite bits then Some (Float bits) else None)"

definition is_object :: "json \<Rightarrow> bool" where
  "is_object v = (case v of JObj _ \<Rightarrow> True | _ \<Rightarrow> False)"

section \<open>What a reader hands to a visitor\<close>

text \<open>
  \<open>SErr\<close> stands where the reader reports malformed JSON; an object entry whose
  key is \<open>None\<close> is a malformed key.
\<close>

datatype jsrc =
    SNull
  | SBool bool
  | SI64 int
  | SU64 nat
  | SF64 nat
  | SStr string
  | SSeq "jsrc list"
  | SMap "(string option \<times> jsrc) list"
  | SErr

datatype read_error = DuplicateKey | BadJson

text \<open>
  \<open>UniqueValueVisitor\<close>: \<open>visit_seq\<close> reads the elements in turn,
  \<open>visit_map\<close> keeps the set of keys seen so far and stops with the duplicate-key
  marker before it reads the value of a repeated key.
\<close>

fun unique_value :: "jsrc \<Rightarrow> read_error + json"
  and unique_seq :: "jsrc list \<Rightarrow> json list \<Rightarrow> read_error + json list"
  and unique_map ::
    "(string option \<times> jsrc) list \<Rightarrow> string list \<Rightarrow> (string, json) btree \<Rightarrow>
       read_error + (string, json) btree" where
  "unique_value SNull = Inr JNull"
| "unique_value (SBool b) = Inr (JBool b)"
| "unique_value (SI64 i) = Inr (JNum (number_from_i64 i))"
| "unique_value (SU64 n) = Inr (JNum (PosInt n))"
| "unique_value (SF64 x) =
     (case number_from_f64 x of None \<Rightarrow> Inl BadJson | Some n \<Rightarrow> Inr (JNum n))"
| "unique_value (SStr s) = Inr (JStr s)"
| "unique_value (SSeq xs) =
     (case unique_seq xs [] of Inl e \<Rightarrow> Inl e | Inr vs \<Rightarrow> Inr (JArr vs))"
| "unique_value (SMap kvs) =
     (case unique_map kvs [] [] of Inl e \<Rightarrow> Inl e | Inr m \<Rightarrow> Inr (JObj m))"
| "unique_value SErr = Inl BadJson"
| "unique_seq [] values = Inr values"
| "unique_seq (x # xs) values =
     (case unique_value x of Inl e \<Rightarrow> Inl e | Inr v \<Rightarrow> unique_seq xs (values @ [v]))"
| "unique_map [] seen values = Inr values"
| "unique_map ((None, x) # kvs) seen values = Inl BadJson"
| "unique_map ((Some k, x) # kvs) seen values =
     (if k \<in> set seen then Inl DuplicateKey
      else (case unique_value x of Inl e \<Rightarrow> Inl e
            | Inr v \<Rightarrow> unique_map kvs (k # seen) (bt_insert k v values)))"

text \<open>The tree a typed \<open>from_slice\<close> works on: keys in text order, repetitions kept.\<close>

fun raw_value :: "jsrc \<Rightarrow> json option"
  and raw_seq :: "jsrc list \<Rightarrow> json list option"
  and raw_map :: "(string option \<times> jsrc) list \<Rightarrow> (string \<times> json) list option" where
  "raw_value SNull = Some JNull"
| "raw_value (SBool b) = Some (JBool b)"
| "raw_value (SI64 i) = Some (JNum (number_from_i64 i))"
| "raw_value (SU64 n) = Some (JNum (PosInt n))"
| "raw_value (SF64 x) = map_option JNum (number_from_f64 x)"
| "raw_value (SStr s) = Some (JStr s)"
| "raw_value (SSeq xs) = map_option JArr (raw_seq xs)"
| "raw_value (SMap kvs) = map_option JObj (raw_map kvs)"
| "raw_value SErr = None"
| "raw_seq [] = Some []"
| "raw_seq (x # xs) =
     (case raw_value x of None \<Rightarrow> None | Some v \<Rightarrow> map_option (\<lambda>vs. v # vs) (raw_seq xs))"
| "raw_map [] = Some []"
| "raw_map ((None, x) # kvs) = None"
| "raw_map ((Some k, x) # kvs) =
     (case raw_value x of None \<Rightarrow> None | Some v \<Rightarrow> map_option (\<lambda>m. (k, v) # m) (raw_map kvs))"

text \<open>
  Reading a tree as a \<open>Value\<close>: objects become ordered maps, and the last of
  several entries with one key wins.
\<close>

fun to_value :: "json \<Rightarrow> json" where
  "to_value (JArr vs) = JArr (map to_value vs)"
| "to_value (JObj kvs) = JObj (bt_of_list (map (\<lambda>(k, v). (k, to_value v)) kvs))"
| "to_value v = v"

text \<open>The events of a printed value.\<close>

fun src_of :: "json \<Rightarrow> jsrc" where
  "src_of JNull = SNull"
| "src_of (JBool b) = SBool b"
| "src_of (JNum (PosInt n)) = SU64 n"
| "src_of (JNum (NegInt i)) = SI64 i"
| "src_of (JNum (Float x)) = SF64 x"
| "src_of (JStr s) = SStr s"
| "src_of (JArr vs) = SSeq (map src_of vs)"
| "src_of (JObj kvs) = SMap (map (\<lambda>(k, v). (Some k, src_of v)) kvs)"

text \<open>
  Values that JSON text keeps exactly: the integers are in the range of their
  constructor and there is no double (the text form of a double is not read back
  bit by bit by every reader).
\<close>

fun json_exact :: "json \<Rightarrow> bool" where
  "json_exact (JNum (PosInt n)) \<longleftrightarrow> n \<le> u64_max"
| "json_exact (JNum (NegInt i)) \<longleftrightarrow> i64_min \<le> i \<and> i < 0"
| "json_exact (JNum (Float x)) \<longleftrightarrow> False"
| "json_exact (JArr vs) \<longleftrightarrow> (\<forall>v \<in> set vs. json_exact v)"
| "json_exact (JObj kvs) \<longleftrightarrow> (\<forall>p \<in> set kvs. json_exact (snd p))"
| "json_exact _ \<longleftrightarrow> True"

text \<open>No object of the tree, at any depth, repeats a key.\<close>

fun no_dup_keys :: "json \<Rightarrow> bool" where
  "no_dup_keys (JArr vs) \<longleftrightarrow> (\<forall>v \<in> set vs. no_dup_keys v)"
| "no_dup_keys (JObj kvs) \<longleftrightarrow> distinct (map fst kvs) \<and> (\<forall>p \<in> set kvs. no_dup_keys (snd p))"
| "no_dup_keys _ \<longleftrightarrow> True"

text \<open>A \<open>Value\<close> proper: every object is an ordered map.\<close>

fun is_value :: "json \<Rightarrow> bool" where
  "is_value (JArr vs) \<longleftrightarrow> (\<forall>v \<in> set vs. is_value v)"
| "is_value (JObj kvs) \<longleftrightarrow> bt_ok kvs \<and> (\<forall>p \<in> set kvs. is_value (snd p))"
| "is_value _ \<longleftrightarrow> True"

section \<open>Derived struct deserializers\<close>

text \<open>
  The fields of a struct with \<open>deny_unknown_fields\<close>: from an object (unknown or
  repeated names refused), or by position from an array that is not longer than the
  field list. The flag tells the two forms apart.
\<close>

definition struct_fields :: "string list \<Rightarrow> json \<Rightarrow> (bool \<times> (string \<Rightarrow> json option)) option" where
  "struct_fields names v =
     (case v of
        JObj kvs \<Rightarrow>
          if distinct (map fst kvs) \<and> list_all (\<lambda>p. fst p \<in> set names) kvs
          then Some (True, map_of kvs) else None
      | JArr vs \<Rightarrow>
          if length vs \<le> length names then Some (False, map_of (zip names vs)) else None
      | _ \<Rightarrow> None)"

definition field :: "bool \<times> (string \<Rightarrow> json option) \<Rightarrow> string \<Rightarrow> (json \<Rightarrow> 'a option) \<Rightarrow> 'a option" where
  "field fs name dec = (case snd fs name of None \<Rightarrow> None | Some v \<Rightarrow> dec v)"

text \<open>\<open>serde(default)\<close>.\<close>

definition field_default ::
  "bool \<times> (string \<Rightarrow> json option) \<Rightarrow> string \<Rightarrow> (json \<Rightarrow> 'a option) \<Rightarrow> 'a \<Rightarrow> 'a option" where
  "field_default fs name dec d = (case snd fs name of None \<Rightarrow> Some d | Some v \<Rightarrow> dec v)"

text \<open>An \<open>Option\<close> field without a default may be missing from an object only.\<close>

definition field_opt ::
  "bool \<times> (string \<Rightarrow> json option) \<Rightarrow> string \<Rightarrow> (json \<Rightarrow> 'a option) \<Rightarrow> 'a option option" where
  "field_opt fs name dec =
     (case snd fs name of
        None \<Rightarrow> if fst fs then Some None else None
      | Some JNull \<Rightarrow> Some None
      | Some v \<Rightarrow> map_option Some (dec v))"

fun dec_bool :: "json \<Rightarrow> bool option" where
  "dec_bool (JBool b) = Some b"
| "dec_bool _ = None"

fun dec_string :: "json \<Rightarrow> string option" where
  "dec_string (JStr s) = Some s"
| "dec_string _ = None"

fun dec_u64 :: "json \<Rightarrow> nat option" where
  "dec_u64 (JNum (PosInt n)) = (if n \<le> u64_max then Some n else None)"
| "dec_u64 _ = None"

fun dec_u16 :: "json \<Rightarrow> nat option" where
  "dec_u16 (JNum (PosInt n)) = (if n \<le> 65535 then Some n else None)"
| "dec_u16 _ = None"

fun dec_i64 :: "json \<Rightarrow> int option" where
  "dec_i64 (JNum (PosInt n)) = (if int n \<le> i64_max then Some (int n) else None)"
| "dec_i64 (JNum (NegInt i)) = (if i64_min \<le> i \<and> i \<le> i64_max then Some i else None)"
| "dec_i64 _ = None"

fun dec_list :: "(json \<Rightarrow> 'a option) \<Rightarrow> json \<Rightarrow> 'a list option" where
  "dec_list dec (JArr vs) = those (map dec vs)"
| "dec_list dec _ = None"

fun dec_option :: "(json \<Rightarrow> 'a option) \<Rightarrow> json \<Rightarrow> 'a option option" where
  "dec_option dec JNull = Some None"
| "dec_option dec v = map_option Some (dec v)"

definition enc_u64 :: "nat \<Rightarrow> json" where
  "enc_u64 n = JNum (PosInt n)"

definition enc_i64 :: "int \<Rightarrow> json" where
  "enc_i64 i = JNum (number_from_i64 i)"

definition enc_option :: "('a \<Rightarrow> json) \<Rightarrow> 'a option \<Rightarrow> json" where
  "enc_option enc x = (case x of None \<Rightarrow> JNull | Some v \<Rightarrow> enc v)"

text \<open>\<open>skip_serializing_if\<close>: the field is written only when it is present.\<close>

definition skip_none :: "string \<Rightarrow> ('a \<Rightarrow> json) \<Rightarrow> 'a option \<Rightarrow> (string \<times> json) list" where
  "skip_none name enc x = (case x of None \<Rightarrow> [] | Some v \<Rightarrow> [(name, enc v)])"

definition skip_empty :: "string \<Rightarrow> ('a list \<Rightarrow> json) \<Rightarrow> 'a list \<Rightarrow> (string \<times> json) list" where
  "skip_empty name enc xs = (if xs = [] then [] else [(name, enc xs)])"

section \<open>Facts\<close>

lemma unique_seq_iff:
  "unique_seq xs acc = Inr vs \<longleftrightarrow>
     (\<exists>ws. vs = acc @ ws \<and> list_all2 (\<lambda>x w. unique_value x = Inr w) xs ws)"
proof (induction xs arbitrary: acc)
  case Nil
  then show ?case by auto
next
  case (Cons x xs)
  show ?case
    by (cases "unique_value x") (auto simp: Cons.IH list_all2_Cons1)
qed

lemma foldl_bt_insert_Cons:
  "foldl (\<lambda>m (k, v). bt_insert k v m) a ((k, v) # kvs) =
     foldl (\<lambda>m (k, v). bt_insert k v m) (bt_insert k v a) kvs"
  by simp

text \<open>
  The visitor accepts exactly the trees without a repeated key, and returns the
  value they denote.
\<close>

lemma unique_value_iff:
  "unique_value x = Inr v \<longleftrightarrow> (\<exists>r. raw_value x = Some r \<and> no_dup_keys r \<and> v = to_value r)"
  "unique_seq xs acc = Inr vs \<longleftrightarrow>
     (\<exists>rs. raw_seq xs = Some rs \<and> (\<forall>r \<in> set rs. no_dup_keys r) \<and> vs = acc @ map to_value rs)"
  "unique_map kvs seen m = Inr m' \<longleftrightarrow>
     (\<exists>rs. raw_map kvs = Some rs \<and> distinct (map fst rs) \<and> set (map fst rs) \<inter> set seen = {} \<and>
        (\<forall>p \<in> set rs. no_dup_keys (snd p)) \<and>
        m' = foldl (\<lambda>m (k, v). bt_insert k v m) m (map (\<lambda>(k, v). (k, to_value v)) rs))"
proof (induction x and xs acc and kvs seen m arbitrary: v and vs and m'
    rule: unique_value_unique_seq_unique_map.induct)
  case (5 x)
  then show ?case by (auto simp: number_from_f64_def)
next
  case (7 xs)
  show ?case
  proof (cases "unique_seq xs []")
    case (Inl e)
    then have "\<not> (\<exists>rs. raw_seq xs = Some rs \<and> (\<forall>r \<in> set rs. no_dup_keys r))"
      using 7 by fastforce
    with Inl show ?thesis by auto
  next
    case (Inr ws)
    with 7 [of ws] obtain rs where
      "raw_seq xs = Some rs" "\<forall>r \<in> set rs. no_dup_keys r" "ws = map to_value rs" by auto
    with Inr show ?thesis by auto
  qed
next
  case (8 kvs)
  let ?good = "\<lambda>rs. raw_map kvs = Some rs \<and> distinct (map fst rs) \<and> (\<forall>p \<in> set rs. no_dup_keys (snd p))"
  let ?map = "\<lambda>rs. bt_of_list (map (\<lambda>(k, v). (k, to_value v)) rs)"
  have IH: "unique_map kvs [] [] = Inr m \<longleftrightarrow> (\<exists>rs. ?good rs \<and> m = ?map rs)" for m
    using 8 [of m] by (simp add: bt_of_list_def conj_assoc)
  show ?case
  proof (cases "unique_map kvs [] []")
    case (Inl e)
    then have "\<not> (\<exists>rs. ?good rs)" using IH by (metis sum.distinct(1))
    with Inl show ?thesis by auto
  next
    case (Inr ws)
    with IH [of ws] obtain rs where "?good rs" "ws = ?map rs" by auto
    with Inr show ?thesis by auto
  qed
next
  case (11 x xs acc)
  show ?case
  proof (cases "unique_value x")
    case (Inl e)
    then have "\<not> (\<exists>r. raw_value x = Some r \<and> no_dup_keys r)" using 11(1) by fastforce
    with Inl show ?thesis by (auto split: option.splits)
  next
    case (Inr w)
    with 11(1) obtain r where r: "raw_value x = Some r" "no_dup_keys r" "w = to_value r" by blast
    with Inr 11(2) [OF Inr] show ?thesis by auto
  qed
next
  case (14 k x kvs seen m)
  show ?case
  proof (cases "k \<in> set seen")
    case True
    then show ?thesis by (auto split: option.splits)
  next
    case False
    show ?thesis
    proof (cases "unique_value x")
      case (Inl e)
      then have "\<not> (\<exists>r. raw_value x = Some r \<and> no_dup_keys r)" using 14(1) False by fastforce
      with Inl False show ?thesis by (auto split: option.splits)
    next
      case (Inr w)
      with 14(1) False obtain r where r: "raw_value x = Some r" "no_dup_keys r" "w = to_value r"
        by blast
      with Inr False 14(2) [OF False Inr] show ?thesis by auto
    qed
  qed
qed auto

text \<open>
  A tree that reads without error but repeats a key somewhere is refused as a
  duplicate, never as malformed JSON.
\<close>

lemma unique_value_dup:
  "raw_value x = Some r \<Longrightarrow> unique_value x \<noteq> Inl BadJson"
  "raw_seq xs = Some rs \<Longrightarrow> unique_seq xs acc \<noteq> Inl BadJson"
  "raw_map kvs = Some ps \<Longrightarrow> unique_map kvs seen m \<noteq> Inl BadJson"
proof (induction x and xs acc and kvs seen m arbitrary: r and rs and ps
    rule: unique_value_unique_seq_unique_map.induct)
qed (auto split: sum.splits option.splits)

lemma foldl_bt_insert_values:
  assumes "bt_ok a" "\<forall>q \<in> set a. P (snd q)" "\<forall>q \<in> set ps. P (snd q)"
  shows "\<forall>q \<in> set (foldl (\<lambda>m (k, v). bt_insert k v m) a ps). P (snd q)"
  using assms
proof (induction ps arbitrary: a)
  case Nil
  then show ?case by simp
next
  case (Cons p ps)
  obtain k v where p: "p = (k, v)" by (cases p)
  have ok: "bt_ok a" and a: "\<forall>q \<in> set a. P (snd q)" and v: "P v"
    and ps: "\<forall>q \<in> set ps. P (snd q)"
    using Cons.prems p by auto
  from a v have "\<forall>q \<in> set (bt_insert k v a). P (snd q)"
    unfolding set_bt_insert [OF ok] by auto
  from Cons.IH [OF bt_ok_insert [OF ok] this ps] show ?case by (simp only: p foldl_Cons prod.case)
qed

lemma to_value_is_value: "is_value (to_value v)"
proof (induction v rule: to_value.induct)
  case (2 kvs)
  have "\<forall>q \<in> set (bt_of_list (map (\<lambda>(k, v). (k, to_value v)) kvs)). is_value (snd q)"
    unfolding bt_of_list_def by (rule foldl_bt_insert_values) (use 2 in auto)
  then show ?case by (simp add: bt_ok_of_list)
qed auto

lemma to_value_id: "is_value v \<Longrightarrow> to_value v = v"
proof (induction v rule: to_value.induct)
  case (1 vs)
  then show ?case by (simp add: map_idI)
next
  case (2 kvs)
  then have "\<forall>(k, v) \<in> set kvs. to_value v = v" by fastforce
  then have "map (\<lambda>(k, v). (k, to_value v)) kvs = kvs" by (induction kvs) auto
  with 2 show ?case by (simp add: bt_of_list_id)
qed auto

lemma is_value_no_dup: "is_value v \<Longrightarrow> no_dup_keys v"
  by (induction v rule: is_value.induct) (auto simp: bt_ok_distinct)

lemma raw_src_of: "json_exact v \<Longrightarrow> raw_value (src_of v) = Some v"
proof (induction v rule: json_exact.induct)
  case (4 vs)
  then have "raw_seq (map src_of vs) = Some vs" by (induction vs) auto
  then show ?case by simp
next
  case (5 kvs)
  then have "\<forall>(k, v) \<in> set kvs. raw_value (src_of v) = Some v" by fastforce
  then have "raw_map (map (\<lambda>(k, v). (Some k, src_of v)) kvs) = Some kvs"
    by (induction kvs) auto
  then show ?case by simp
qed (auto simp: number_from_i64_def)

lemma those_map_Some: "(\<And>x. x \<in> set xs \<Longrightarrow> f (g x) = Some x) \<Longrightarrow> those (map f (map g xs)) = Some xs"
  by (induction xs) auto

lemma dec_enc_u64 [simp]: "n \<le> u64_max \<Longrightarrow> dec_u64 (enc_u64 n) = Some n"
  by (simp add: enc_u64_def)

lemma dec_enc_u16 [simp]: "n \<le> 65535 \<Longrightarrow> dec_u16 (enc_u64 n) = Some n"
  by (simp add: enc_u64_def)

lemma dec_enc_i64 [simp]: "i64_min \<le> i \<Longrightarrow> i \<le> i64_max \<Longrightarrow> dec_i64 (enc_i64 i) = Some i"
  by (simp add: enc_i64_def number_from_i64_def)

lemma dec_u64_le: "dec_u64 v = Some n \<Longrightarrow> n \<le> u64_max"
  by (cases v rule: dec_u64.cases) (auto split: if_splits)

lemma dec_i64_range: "dec_i64 v = Some t \<Longrightarrow> i64_min \<le> t \<and> t \<le> i64_max"
  by (cases v rule: dec_i64.cases) (auto simp: i64_min_def i64_max_def split: if_splits)

lemma field_Some: "field fs n dec = Some x \<Longrightarrow> \<exists>v. dec v = Some x"
  by (auto simp: field_def split: option.splits)

lemma json_exact_enc [simp]:
  "json_exact (enc_u64 n) \<longleftrightarrow> n \<le> u64_max"
  "i64_min \<le> i \<Longrightarrow> i \<le> i64_max \<Longrightarrow> json_exact (enc_i64 i)"
  by (auto simp: enc_u64_def enc_i64_def number_from_i64_def i64_max_def u64_max_def)

end
