(* ===== verification/Edge_Crates.thy ===== *)
theory Edge_Crates
  imports Edge_Json
begin

text \<open>
  The third-party code the sources call, as one parameter of the model: SHA-256,
  hexadecimal text, canonical JSON, JSON text, XChaCha20-Poly1305, base64 and UUID
  text. Every definition that uses such code takes the record as an argument. What the
  sources rely on is stated as named predicates over the record; they are documented
  properties of the libraries and appear as hypotheses of the theorems that need them.
\<close>

record crates =
  sha256 :: "bytes \<Rightarrow> bytes"
  hex_encode :: "bytes \<Rightarrow> string"
  jcs_to_vec :: "json \<Rightarrow> bytes"
  json_to_vec :: "json \<Rightarrow> bytes option"
  json_to_vec_pretty :: "json \<Rightarrow> bytes option"
  json_read :: "bytes \<Rightarrow> jsrc \<times> bool"
  json_key_of_u64 :: "nat \<Rightarrow> string"
  json_key_to_u64 :: "string \<Rightarrow> nat option"
  aead_encrypt :: "bytes \<Rightarrow> bytes \<Rightarrow> bytes \<Rightarrow> bytes \<Rightarrow> bytes option"
  aead_decrypt :: "bytes \<Rightarrow> bytes \<Rightarrow> bytes \<Rightarrow> bytes \<Rightarrow> bytes option"
  b64_encode :: "bytes \<Rightarrow> string"
  b64_decode :: "string \<Rightarrow> bytes option"
  uuid_text :: "bytes \<Rightarrow> string"
  uuid_parse :: "string \<Rightarrow> bytes option"

text \<open>\<open>serde_json::from_slice\<close> for a derived type: the whole input is one value.\<close>

definition json_from_slice :: "crates \<Rightarrow> (json \<Rightarrow> 'a option) \<Rightarrow> bytes \<Rightarrow> 'a option" where
  "json_from_slice C dec input =
     (if snd (json_read C input)
      then Option.bind (raw_value (fst (json_read C input))) dec else None)"

text \<open>\<open>serde_json::from_slice::<UniqueValue>\<close> of protocol.rs.\<close>

definition unique_from_slice :: "crates \<Rightarrow> bytes \<Rightarrow> read_error + json" where
  "unique_from_slice C input =
     (case unique_value (fst (json_read C input)) of
        Inl e \<Rightarrow> Inl e
      | Inr v \<Rightarrow> if snd (json_read C input) then Inr v else Inl BadJson)"

section \<open>Documented laws\<close>

text \<open>A SHA-256 digest has 32 bytes, and its hexadecimal text two lower-case digits per byte.\<close>

definition digest_laws :: "crates \<Rightarrow> bool" where
  "digest_laws C \<longleftrightarrow> (\<forall>b. length (sha256 C b) = 32) \<and>
     (\<forall>b. length (hex_encode C b) = 2 * length b \<and> (\<forall>c \<in> set (hex_encode C b). is_lower_hex c))"

text \<open>Authenticated decryption returns what was encrypted; the tag has 16 bytes.\<close>

definition aead_laws :: "crates \<Rightarrow> bool" where
  "aead_laws C \<longleftrightarrow> (\<forall>k n m a c. aead_encrypt C k n m a = Some c \<longrightarrow>
     aead_decrypt C k n c a = Some m \<and> length c = length m + 16)"

text \<open>JSON text of a value without doubles reads back as that value.\<close>

definition json_laws :: "crates \<Rightarrow> bool" where
  "json_laws C \<longleftrightarrow>
     (\<forall>v b. json_exact v \<longrightarrow> json_to_vec C v = Some b \<longrightarrow> json_read C b = (src_of v, True)) \<and>
     (\<forall>v b. json_exact v \<longrightarrow> json_to_vec_pretty C v = Some b \<longrightarrow> json_read C b = (src_of v, True)) \<and>
     (\<forall>n. n \<le> u64_max \<longrightarrow> json_key_to_u64 C (json_key_of_u64 C n) = Some n)"

text \<open>Base64 and UUID text decode to what was encoded, and hold no dot; a UUID has 16 bytes.\<close>

definition token_laws :: "crates \<Rightarrow> bool" where
  "token_laws C \<longleftrightarrow>
     (\<forall>b. b64_decode C (b64_encode C b) = Some b \<and> CHR ''.'' \<notin> set (b64_encode C b)) \<and>
     (\<forall>u. length u = 16 \<longrightarrow> uuid_parse C (uuid_text C u) = Some u \<and> CHR ''.'' \<notin> set (uuid_text C u)) \<and>
     (\<forall>s u. uuid_parse C s = Some u \<longrightarrow> length u = 16)"

lemma json_from_slice_to_vec:
  "json_laws C \<Longrightarrow> json_exact v \<Longrightarrow> json_to_vec C v = Some b \<Longrightarrow> json_from_slice C dec b = dec v"
  by (simp add: json_laws_def json_from_slice_def raw_src_of)

lemma json_from_slice_to_vec_pretty:
  "json_laws C \<Longrightarrow> json_exact v \<Longrightarrow> json_to_vec_pretty C v = Some b \<Longrightarrow> json_from_slice C dec b = dec v"
  by (simp add: json_laws_def json_from_slice_def raw_src_of)

lemma unique_from_slice_Inr:
  "unique_from_slice C input = Inr v \<longleftrightarrow>
     snd (json_read C input) \<and>
     (\<exists>r. raw_value (fst (json_read C input)) = Some r \<and> no_dup_keys r \<and> v = to_value r)"
proof (cases "unique_value (fst (json_read C input))")
  case (Inl e)
  moreover from Inl have "\<not> (\<exists>r. raw_value (fst (json_read C input)) = Some r \<and> no_dup_keys r)"
    using unique_value_iff(1) [of "fst (json_read C input)"] by fastforce
  ultimately show ?thesis by (auto simp: unique_from_slice_def)
next
  case (Inr w)
  then obtain r where "raw_value (fst (json_read C input)) = Some r" "no_dup_keys r" "w = to_value r"
    using unique_value_iff(1) [of "fst (json_read C input)" w] by blast
  with Inr show ?thesis by (auto simp: unique_from_slice_def)
qed

lemma unique_from_slice_to_vec:
  "json_laws C \<Longrightarrow> json_exact v \<Longrightarrow> no_dup_keys v \<Longrightarrow> json_to_vec C v = Some b \<Longrightarrow>
     unique_from_slice C b = Inr (to_value v)"
  by (simp add: json_laws_def unique_from_slice_Inr raw_src_of)

lemma hex_digest_length: "digest_laws C \<Longrightarrow> length (hex_encode C (sha256 C b)) = 64"
  by (simp add: digest_laws_def)

lemma hex_digest_lower: "digest_laws C \<Longrightarrow> \<forall>c \<in> set (hex_encode C b). is_lower_hex c"
  by (simp add: digest_laws_def)

end
