(* ===== verification/Edge_Protocol.thy ===== *)
theory Edge_Protocol
  imports Edge_Crates
begin

text \<open>
  protocol.rs: the receiver envelope with its strict parser, validation and the two
  record identities, the Hub batches, acknowledgements and results of both wire
  versions with their JSON forms, and the parsers of the two acknowledgements. The
  visitor that refuses duplicate keys is in \<open>Edge_Json\<close>.
\<close>

section \<open>Constants, errors and data\<close>

definition MAX_RECEIVER_BODY_BYTES :: nat where
  "MAX_RECEIVER_BODY_BYTES = 256 * 1024"

definition MAX_HUB_ACK_BODY_BYTES :: nat where
  "MAX_HUB_ACK_BODY_BYTES = 128 * 1024"

definition MIN_TIMESTAMP_MS :: int where
  "MIN_TIMESTAMP_MS = 946684800000"

definition MAX_EVENT_CLOCK_LEAD_MS :: int where
  "MAX_EVENT_CLOCK_LEAD_MS = 5 * 60 * 1000"

definition MAX_RECEIVER_CLOCK_LEAD_MS :: int where
  "MAX_RECEIVER_CLOCK_LEAD_MS = 5 * 60 * 1000"

datatype protocol_error =
    InputTooLarge
  | DuplicateJsonKey
  | InvalidJson
  | UnsupportedVersion
  | InvalidVin
  | InvalidTransactionId
  | InvalidTransactionType
  | InvalidTimestamp
  | InvalidPayload
  | InvalidVersionLabel
  | InvalidAcknowledgementBody

text \<open>A record identity is the newtype \<open>RecordId(String)\<close>.\<close>

type_synonym rid = string

record receiver_envelope =
  env_version :: nat
  vin :: string
  txid :: string
  tx_type :: string
  received_at_ms :: int
  timestamp_ms :: int
  payload :: json
  device_client_version :: "string option"
  firmware_version :: "string option"

record hub_batch_record_v1 =
  b1_record_id :: rid
  b1_received_at_ms :: int
  b1_envelope :: receiver_envelope

record hub_batch_v1 =
  bv1_version :: nat
  bv1_batch_id :: string
  bv1_records :: "hub_batch_record_v1 list"

record hub_ack_v1 =
  a1_version :: nat
  a1_batch_id :: string
  a1_accepted_record_ids :: "rid list"

record hub_ack_result_v1 =
  ar1_version :: nat
  ar1_acknowledged_record_ids :: "rid list"
  ar1_unknown_record_ids :: "rid list"

record hub_batch_record_v2 =
  b2_record_id :: rid
  b2_legacy_record_id :: rid
  b2_spool_seq :: nat
  b2_received_at_ms :: int
  b2_envelope :: receiver_envelope

datatype gap_reason_v2 = RetentionExpired | IntegrityQuarantine

record gap_notice_v2 =
  gap_notice_id :: rid
  gap_spool_seq :: nat
  gap_occurred_at_ms :: int
  gap_reason :: gap_reason_v2
  gap_evidence_sha256 :: string

record hub_batch_v2 =
  bv2_version :: nat
  bv2_batch_id :: string
  bv2_records :: "hub_batch_record_v2 list"
  bv2_gaps :: "gap_notice_v2 list"

record hub_ack_v2 =
  a2_version :: nat
  a2_batch_id :: string
  a2_accepted_record_ids :: "rid list"
  a2_accepted_gap_notice_ids :: "rid list"

record hub_ack_result_v2 =
  ar2_version :: nat
  ar2_acknowledged_record_ids :: "rid list"
  ar2_acknowledged_gap_notice_ids :: "rid list"
  ar2_unknown_record_ids :: "rid list"
  ar2_unknown_gap_notice_ids :: "rid list"

section \<open>Validation\<close>

definition valid_vin :: "string \<Rightarrow> bool" where
  "valid_vin v \<longleftrightarrow> length v = 17 \<and>
     list_all (\<lambda>c. is_ascii_digit c \<or> (is_ascii_uppercase c \<and> c \<notin> set ''IOQ'')) v"

definition bounded_visible_ascii :: "string \<Rightarrow> nat \<Rightarrow> nat \<Rightarrow> bool" where
  "bounded_visible_ascii value minimum maximum \<longleftrightarrow>
     minimum \<le> length value \<and> length value \<le> maximum \<and> list_all is_visible_ascii value"

definition normalized_type :: "string \<Rightarrow> string" where
  "normalized_type t = map to_ascii_lowercase (filter is_ascii_alphanumeric t)"

definition ACCEPTED_TYPES :: "string list" where
  "ACCEPTED_TYPES = [''v'', ''data'', ''vehicledata'', ''connectivity'', ''alerts'', ''errors'']"

text \<open>The loop over the two optional labels stops at the first invalid one.\<close>

fun check_labels :: "string option list \<Rightarrow> protocol_error + unit" where
  "check_labels [] = Inr ()"
| "check_labels (None # ls) = check_labels ls"
| "check_labels (Some l # ls) =
     (if \<not> bounded_visible_ascii l 1 64 then Inl InvalidVersionLabel else check_labels ls)"

definition validate :: "receiver_envelope \<Rightarrow> protocol_error + unit" where
  "validate e =
     (if env_version e \<noteq> 1 then Inl UnsupportedVersion
      else if \<not> valid_vin (vin e) then Inl InvalidVin
      else if \<not> bounded_visible_ascii (txid e) 1 128 then Inl InvalidTransactionId
      else if \<not> bounded_visible_ascii (tx_type e) 1 64 then Inl InvalidTransactionType
      else if normalized_type (tx_type e) \<notin> set ACCEPTED_TYPES then Inl InvalidTransactionType
      else if received_at_ms e < MIN_TIMESTAMP_MS \<or> timestamp_ms e < MIN_TIMESTAMP_MS
           \<or> timestamp_ms e > sat_add_i64 (received_at_ms e) MAX_EVENT_CLOCK_LEAD_MS
           then Inl InvalidTimestamp
      else if \<not> is_object (payload e) then Inl InvalidPayload
      else check_labels [device_client_version e, firmware_version e])"

section \<open>JSON forms\<close>

definition envelope_names :: "string list" where
  "envelope_names = [''version'', ''vin'', ''txid'', ''tx_type'', ''received_at_ms'',
     ''timestamp_ms'', ''payload'', ''device_client_version'', ''firmware_version'']"

definition enc_envelope :: "receiver_envelope \<Rightarrow> json" where
  "enc_envelope e = JObj
     ([(''version'', enc_u64 (env_version e)), (''vin'', JStr (vin e)), (''txid'', JStr (txid e)),
       (''tx_type'', JStr (tx_type e)), (''received_at_ms'', enc_i64 (received_at_ms e)),
       (''timestamp_ms'', enc_i64 (timestamp_ms e)), (''payload'', payload e)]
      @ skip_none ''device_client_version'' JStr (device_client_version e)
      @ skip_none ''firmware_version'' JStr (firmware_version e))"

definition dec_envelope :: "json \<Rightarrow> receiver_envelope option" where
  "dec_envelope v = do {
     fs \<leftarrow> struct_fields envelope_names v;
     v_version \<leftarrow> field fs ''version'' dec_u16;
     v_vin \<leftarrow> field fs ''vin'' dec_string;
     v_txid \<leftarrow> field fs ''txid'' dec_string;
     v_tx_type \<leftarrow> field fs ''tx_type'' dec_string;
     v_received \<leftarrow> field fs ''received_at_ms'' dec_i64;
     v_timestamp \<leftarrow> field fs ''timestamp_ms'' dec_i64;
     v_payload \<leftarrow> field fs ''payload'' (\<lambda>p. Some (to_value p));
     v_device \<leftarrow> field_default fs ''device_client_version'' (dec_option dec_string) None;
     v_firmware \<leftarrow> field_default fs ''firmware_version'' (dec_option dec_string) None;
     Some \<lparr>env_version = v_version, vin = v_vin, txid = v_txid, tx_type = v_tx_type,
       received_at_ms = v_received, timestamp_ms = v_timestamp, payload = v_payload,
       device_client_version = v_device, firmware_version = v_firmware\<rparr> }"

definition valid_lower_hex_digest :: "string \<Rightarrow> bool" where
  "valid_lower_hex_digest value \<longleftrightarrow> length value = 64 \<and> list_all is_lower_hex value"

definition parse_record_id :: "string \<Rightarrow> protocol_error + rid" where
  "parse_record_id value =
     (if length value = 64 \<and> list_all is_lower_hex value then Inr value else Inl InvalidTransactionId)"

definition dec_record_id :: "json \<Rightarrow> rid option" where
  "dec_record_id v =
     (case dec_string v of None \<Rightarrow> None
      | Some s \<Rightarrow> (case parse_record_id s of Inl e \<Rightarrow> None | Inr r \<Rightarrow> Some r))"

definition enc_record_ids :: "rid list \<Rightarrow> json" where
  "enc_record_ids rs = JArr (map JStr rs)"

definition enc_batch_record_v1 :: "hub_batch_record_v1 \<Rightarrow> json" where
  "enc_batch_record_v1 r = JObj
     [(''record_id'', JStr (b1_record_id r)), (''received_at_ms'', enc_i64 (b1_received_at_ms r)),
      (''envelope'', enc_envelope (b1_envelope r))]"

definition enc_batch_record_v2 :: "hub_batch_record_v2 \<Rightarrow> json" where
  "enc_batch_record_v2 r = JObj
     [(''record_id'', JStr (b2_record_id r)), (''legacy_record_id'', JStr (b2_legacy_record_id r)),
      (''spool_seq'', enc_u64 (b2_spool_seq r)), (''received_at_ms'', enc_i64 (b2_received_at_ms r)),
      (''envelope'', enc_envelope (b2_envelope r))]"

fun reason_name :: "gap_reason_v2 \<Rightarrow> string" where
  "reason_name RetentionExpired = ''retention_expired''"
| "reason_name IntegrityQuarantine = ''integrity_quarantine''"

definition enc_gap_notice :: "gap_notice_v2 \<Rightarrow> json" where
  "enc_gap_notice g = JObj
     [(''notice_id'', JStr (gap_notice_id g)), (''spool_seq'', enc_u64 (gap_spool_seq g)),
      (''occurred_at_ms'', enc_i64 (gap_occurred_at_ms g)),
      (''reason'', JStr (reason_name (gap_reason g))),
      (''evidence_sha256'', JStr (gap_evidence_sha256 g))]"

definition reason_of_name :: "string \<Rightarrow> gap_reason_v2 option" where
  "reason_of_name s =
     (if s = ''retention_expired'' then Some RetentionExpired
      else if s = ''integrity_quarantine'' then Some IntegrityQuarantine else None)"

text \<open>A unit variant is its name, or an object with the name as only key and null.\<close>

fun dec_reason :: "json \<Rightarrow> gap_reason_v2 option" where
  "dec_reason (JStr s) = reason_of_name s"
| "dec_reason (JObj [(s, JNull)]) = reason_of_name s"
| "dec_reason _ = None"

definition dec_gap_notice :: "json \<Rightarrow> gap_notice_v2 option" where
  "dec_gap_notice v = do {
     fs \<leftarrow> struct_fields [''notice_id'', ''spool_seq'', ''occurred_at_ms'', ''reason'',
                           ''evidence_sha256''] v;
     v_id \<leftarrow> field fs ''notice_id'' dec_record_id;
     v_seq \<leftarrow> field fs ''spool_seq'' dec_u64;
     v_at \<leftarrow> field fs ''occurred_at_ms'' dec_i64;
     v_reason \<leftarrow> field fs ''reason'' dec_reason;
     v_evidence \<leftarrow> field fs ''evidence_sha256'' dec_string;
     Some \<lparr>gap_notice_id = v_id, gap_spool_seq = v_seq, gap_occurred_at_ms = v_at,
       gap_reason = v_reason, gap_evidence_sha256 = v_evidence\<rparr> }"

definition dec_ack_v1 :: "json \<Rightarrow> hub_ack_v1 option" where
  "dec_ack_v1 v = do {
     fs \<leftarrow> struct_fields [''version'', ''batch_id'', ''accepted_record_ids''] v;
     v_version \<leftarrow> field fs ''version'' dec_u16;
     v_batch \<leftarrow> field fs ''batch_id'' dec_string;
     v_ids \<leftarrow> field fs ''accepted_record_ids'' (dec_list dec_record_id);
     Some \<lparr>a1_version = v_version, a1_batch_id = v_batch, a1_accepted_record_ids = v_ids\<rparr> }"

definition dec_ack_v2 :: "json \<Rightarrow> hub_ack_v2 option" where
  "dec_ack_v2 v = do {
     fs \<leftarrow> struct_fields [''version'', ''batch_id'', ''accepted_record_ids'',
                           ''accepted_gap_notice_ids''] v;
     v_version \<leftarrow> field fs ''version'' dec_u16;
     v_batch \<leftarrow> field fs ''batch_id'' dec_string;
     v_ids \<leftarrow> field fs ''accepted_record_ids'' (dec_list dec_record_id);
     v_gaps \<leftarrow> field fs ''accepted_gap_notice_ids'' (dec_list dec_record_id);
     Some \<lparr>a2_version = v_version, a2_batch_id = v_batch, a2_accepted_record_ids = v_ids,
       a2_accepted_gap_notice_ids = v_gaps\<rparr> }"

section \<open>Parsers\<close>

definition read_protocol_error :: "read_error \<Rightarrow> protocol_error" where
  "read_protocol_error e = (case e of DuplicateKey \<Rightarrow> DuplicateJsonKey | BadJson \<Rightarrow> InvalidJson)"

definition parse_envelope :: "crates \<Rightarrow> bytes \<Rightarrow> protocol_error + receiver_envelope" where
  "parse_envelope C input =
     (if length input > MAX_RECEIVER_BODY_BYTES then Inl InputTooLarge
      else case unique_from_slice C input of
        Inl e \<Rightarrow> Inl (read_protocol_error e)
      | Inr unique \<Rightarrow>
          (case dec_envelope unique of
             None \<Rightarrow> Inl InvalidJson
           | Some envelope \<Rightarrow>
               (case validate envelope of Inl e \<Rightarrow> Inl e | Inr _ \<Rightarrow> Inr envelope)))"

definition parse_at :: "crates \<Rightarrow> bytes \<Rightarrow> int \<Rightarrow> protocol_error + receiver_envelope" where
  "parse_at C input now_ms =
     (case parse_envelope C input of
        Inl e \<Rightarrow> Inl e
      | Inr envelope \<Rightarrow>
          if received_at_ms envelope > sat_add_i64 now_ms MAX_RECEIVER_CLOCK_LEAD_MS
          then Inl InvalidTimestamp else Inr envelope)"

text \<open>The size of a \<open>HashSet\<close> collected from a list.\<close>

definition hash_set_len :: "'a list \<Rightarrow> nat" where
  "hash_set_len xs = length (remdups xs)"

definition parse_ack_v1 :: "crates \<Rightarrow> bytes \<Rightarrow> protocol_error + hub_ack_v1" where
  "parse_ack_v1 C input =
     (if length input > MAX_HUB_ACK_BODY_BYTES then Inl InputTooLarge
      else case unique_from_slice C input of
        Inl e \<Rightarrow> Inl (read_protocol_error e)
      | Inr unique \<Rightarrow>
          (case dec_ack_v1 unique of
             None \<Rightarrow> Inl InvalidAcknowledgementBody
           | Some a \<Rightarrow>
               if a1_version a \<noteq> 1 \<or> \<not> valid_lower_hex_digest (a1_batch_id a)
                  \<or> length (a1_accepted_record_ids a) > 256
                  \<or> hash_set_len (a1_accepted_record_ids a) \<noteq> length (a1_accepted_record_ids a)
               then Inl InvalidAcknowledgementBody else Inr a))"

definition parse_ack_v2 :: "crates \<Rightarrow> bytes \<Rightarrow> protocol_error + hub_ack_v2" where
  "parse_ack_v2 C input =
     (if length input > MAX_HUB_ACK_BODY_BYTES then Inl InputTooLarge
      else case unique_from_slice C input of
        Inl e \<Rightarrow> Inl (read_protocol_error e)
      | Inr unique \<Rightarrow>
          (case dec_ack_v2 unique of
             None \<Rightarrow> Inl InvalidAcknowledgementBody
           | Some a \<Rightarrow>
               if a2_version a \<noteq> 2 \<or> \<not> valid_lower_hex_digest (a2_batch_id a)
                  \<or> length (a2_accepted_record_ids a) > 256
                  \<or> length (a2_accepted_gap_notice_ids a) > 256
                  \<or> hash_set_len (a2_accepted_record_ids a) \<noteq> length (a2_accepted_record_ids a)
                  \<or> hash_set_len (a2_accepted_gap_notice_ids a) \<noteq> length (a2_accepted_gap_notice_ids a)
               then Inl InvalidAcknowledgementBody else Inr a))"

section \<open>Identities\<close>

definition domain :: "string \<Rightarrow> bytes" where
  "domain label = label @ [CHR 0x00]"

definition record_id :: "crates \<Rightarrow> receiver_envelope \<Rightarrow> rid" where
  "record_id C e =
     (let canonical = jcs_to_vec C (to_value (enc_envelope e))
      in hex_encode C (sha256 C (domain ''teslatlas-edge-record-v1'' @ canonical)))"

definition stable_identity :: "receiver_envelope \<Rightarrow> json" where
  "stable_identity e = JObj
     ([(''version'', enc_u64 2), (''vin'', JStr (vin e)), (''txid'', JStr (txid e)),
       (''tx_type'', JStr (tx_type e)), (''timestamp_ms'', enc_i64 (timestamp_ms e)),
       (''payload'', payload e)]
      @ skip_none ''device_client_version'' JStr (device_client_version e)
      @ skip_none ''firmware_version'' JStr (firmware_version e))"

definition stable_record_id :: "crates \<Rightarrow> receiver_envelope \<Rightarrow> rid" where
  "stable_record_id C e =
     (let canonical = jcs_to_vec C (stable_identity e)
      in hex_encode C (sha256 C (domain ''teslatlas-edge-record-v2'' @ canonical)))"

definition record_id_from_sha256 :: "crates \<Rightarrow> bytes \<Rightarrow> rid" where
  "record_id_from_sha256 C digest = hex_encode C digest"

section \<open>Facts\<close>

lemma hash_set_len_eq: "hash_set_len xs = length xs \<longleftrightarrow> distinct xs"
  using card_distinct distinct_card by (auto simp: hash_set_len_def length_remdups_card_conv)

text \<open>What a receiver envelope must satisfy, as one predicate.\<close>

definition label_ok :: "string option \<Rightarrow> bool" where
  "label_ok l \<longleftrightarrow> (case l of None \<Rightarrow> True | Some s \<Rightarrow> bounded_visible_ascii s 1 64)"

definition envelope_ok :: "receiver_envelope \<Rightarrow> bool" where
  "envelope_ok e \<longleftrightarrow>
     env_version e = 1 \<and> valid_vin (vin e) \<and> bounded_visible_ascii (txid e) 1 128 \<and>
     bounded_visible_ascii (tx_type e) 1 64 \<and> normalized_type (tx_type e) \<in> set ACCEPTED_TYPES \<and>
     MIN_TIMESTAMP_MS \<le> received_at_ms e \<and> MIN_TIMESTAMP_MS \<le> timestamp_ms e \<and>
     timestamp_ms e \<le> sat_add_i64 (received_at_ms e) MAX_EVENT_CLOCK_LEAD_MS \<and>
     is_object (payload e) \<and> label_ok (device_client_version e) \<and> label_ok (firmware_version e)"

lemma check_labels_iff: "check_labels [a, b] = Inr () \<longleftrightarrow> label_ok a \<and> label_ok b"
  by (auto simp: label_ok_def split: option.splits)

lemma validate_iff: "validate e = Inr u \<longleftrightarrow> envelope_ok e"
  using check_labels_iff by (auto simp: validate_def envelope_ok_def simp del: check_labels.simps)

text \<open>The bounds that the Rust types of the fields give.\<close>

definition envelope_typed :: "receiver_envelope \<Rightarrow> bool" where
  "envelope_typed e \<longleftrightarrow>
     env_version e \<le> 65535 \<and> i64_min \<le> received_at_ms e \<and> received_at_ms e \<le> i64_max \<and>
     i64_min \<le> timestamp_ms e \<and> timestamp_ms e \<le> i64_max \<and> is_value (payload e)"

lemma map_of_bt_of_list:
  "distinct (map fst kvs) \<Longrightarrow> map_of (bt_of_list kvs) = map_of kvs"
proof (induction kvs rule: rev_induct)
  case Nil
  then show ?case by (simp add: bt_of_list_def)
next
  case (snoc p kvs)
  obtain k v where p: "p = (k, v)" by (cases p)
  from snoc.prems p have "k \<notin> fst ` set kvs" "distinct (map fst kvs)" by auto
  moreover have "bt_of_list (kvs @ [p]) = bt_insert k v (bt_of_list kvs)"
    by (simp add: bt_of_list_def p)
  moreover from calculation have "map_of kvs k = None" by (simp add: map_of_eq_None_iff)
  ultimately show ?case
    using bt_get_insert [OF bt_ok_of_list [of kvs], of k v] snoc.IH p
    by (auto simp: fun_eq_iff bt_get_def map_add_def split: option.splits)
qed

lemma set_bt_of_list:
  assumes "distinct (map fst kvs)"
  shows "set (bt_of_list kvs) = set kvs"
proof -
  have "p \<in> set (bt_of_list kvs) \<longleftrightarrow> p \<in> set kvs" for p
    using bt.look_items [OF bt_ok_of_list, of kvs "fst p" "snd p"] map_of_bt_of_list [OF assms]
      map_of_eq_Some_iff [OF assms, of "fst p" "snd p"] by (simp add: bt_get_def)
  then show ?thesis by blast
qed

lemma map_of_to_value: "map_of (map (\<lambda>(k, v). (k, to_value v)) kvs) k = map_option to_value (map_of kvs k)"
  by (induction kvs) auto

lemma fst_map_to_value: "map fst (map (\<lambda>(k, v). (k, to_value v)) kvs) = map fst kvs"
  by (induction kvs) auto

text \<open>
  A struct reads the same fields from an object and from the \<open>Value\<close> of that
  object.
\<close>

lemma struct_fields_to_value:
  assumes "distinct (map fst kvs)" "set (map fst kvs) \<subseteq> set names"
  shows "struct_fields names (to_value (JObj kvs)) =
    Some (True, \<lambda>k. map_option to_value (map_of kvs k))"
proof -
  let ?m = "map (\<lambda>(k, v). (k, to_value v)) kvs"
  have d: "distinct (map fst ?m)" using assms(1) by (simp only: fst_map_to_value)
  have "fst ` set (bt_of_list ?m) = fst ` set ?m" by (simp only: set_bt_of_list [OF d])
  also have "\<dots> = set (map fst ?m)" by (rule set_map [symmetric])
  also have "\<dots> \<subseteq> set names" using assms(2) by (simp only: fst_map_to_value)
  finally have "list_all (\<lambda>p. fst p \<in> set names) (bt_of_list ?m)"
    by (auto simp: list_all_iff)
  moreover have "map_of (bt_of_list ?m) = (\<lambda>k. map_option to_value (map_of kvs k))"
    by (simp add: map_of_bt_of_list [OF d] map_of_to_value fun_eq_iff)
  ultimately show ?thesis
    by (simp add: struct_fields_def bt_ok_distinct [OF bt_ok_of_list])
qed

lemma to_value_enc [simp]:
  "to_value (enc_u64 n) = enc_u64 n" "to_value (enc_i64 i) = enc_i64 i"
  by (simp_all add: enc_u64_def enc_i64_def)

lemma dec_enc_envelope_value:
  assumes "envelope_typed e"
  shows "dec_envelope (to_value (enc_envelope e)) = Some e"
proof -
  have "to_value (payload e) = payload e"
    using assms by (simp add: envelope_typed_def to_value_id)
  then show ?thesis
    using assms unfolding dec_envelope_def enc_envelope_def
    by (subst struct_fields_to_value)
      (auto simp: envelope_names_def skip_none_def field_def field_default_def envelope_typed_def
        to_value_id split: option.splits)
qed

lemma dec_enc_envelope:
  assumes "envelope_typed e"
  shows "dec_envelope (enc_envelope e) = Some e"
proof -
  have "to_value (payload e) = payload e"
    using assms by (simp add: envelope_typed_def to_value_id)
  then show ?thesis
    using assms unfolding dec_envelope_def enc_envelope_def struct_fields_def
    by (auto simp: envelope_names_def skip_none_def field_def field_default_def envelope_typed_def
        split: option.splits)
qed

lemma enc_envelope_no_dup: "is_value (payload e) \<Longrightarrow> no_dup_keys (enc_envelope e)"
  by (auto simp: enc_envelope_def skip_none_def enc_u64_def enc_i64_def is_value_no_dup
      split: option.splits)

lemma enc_envelope_exact:
  "envelope_typed e \<Longrightarrow> json_exact (payload e) \<Longrightarrow> json_exact (enc_envelope e)"
  by (auto simp: enc_envelope_def skip_none_def envelope_typed_def u64_max_def split: option.splits)

lemma parse_envelope_Inr:
  "parse_envelope C input = Inr e \<longleftrightarrow>
     length input \<le> MAX_RECEIVER_BODY_BYTES \<and>
     (\<exists>v. unique_from_slice C input = Inr v \<and> dec_envelope v = Some e) \<and> envelope_ok e"
  using validate_iff [of e "()"]
  by (auto simp: parse_envelope_def split: sum.splits option.splits)

section \<open>Properties\<close>

text \<open>
  C27: what the receiver parser accepts. An envelope is accepted exactly when the body has
  at most 256 KiB, is one JSON value whose objects repeat no key at any depth, the value
  read as the envelope struct (no unknown field) is that envelope, and the envelope meets
  every field rule. Conversely a body that is well-formed JSON but repeats a key at any
  depth, inside the free-form payload too, is refused, and as a duplicate key.
\<close>

theorem parse_envelope_accepts:
  "(parse_envelope C input = Inr e \<longleftrightarrow>
      length input \<le> MAX_RECEIVER_BODY_BYTES \<and> snd (json_read C input) \<and>
      (\<exists>r. raw_value (fst (json_read C input)) = Some r \<and> no_dup_keys r \<and> dec_envelope (to_value r) = Some e) \<and>
      envelope_ok e) \<and>
   (length input \<le> MAX_RECEIVER_BODY_BYTES \<longrightarrow> raw_value (fst (json_read C input)) = Some r \<longrightarrow>
      \<not> no_dup_keys r \<longrightarrow> parse_envelope C input = Inl DuplicateJsonKey)"
proof (intro conjI impI)
  show "parse_envelope C input = Inr e \<longleftrightarrow>
      length input \<le> MAX_RECEIVER_BODY_BYTES \<and> snd (json_read C input) \<and>
      (\<exists>r. raw_value (fst (json_read C input)) = Some r \<and> no_dup_keys r \<and> dec_envelope (to_value r) = Some e) \<and>
      envelope_ok e"
    by (auto simp: parse_envelope_Inr unique_from_slice_Inr)
  assume len: "length input \<le> MAX_RECEIVER_BODY_BYTES" and r: "raw_value (fst (json_read C input)) = Some r"
    and dup: "\<not> no_dup_keys r"
  from r dup have "unique_value (fst (json_read C input)) = Inr v \<Longrightarrow> False" for v
    by (auto simp: unique_value_iff)
  with unique_value_dup(1) [OF r] have "unique_value (fst (json_read C input)) = Inl DuplicateKey"
    by (metis (full_types) read_error.exhaust sum.exhaust)
  then have "unique_from_slice C input = Inl DuplicateKey" by (simp add: unique_from_slice_def)
  with len show "parse_envelope C input = Inl DuplicateJsonKey"
    by (simp add: parse_envelope_def read_protocol_error_def)
qed

lemma printed_envelope_parses:
  assumes "json_laws C" "envelope_typed e" "json_exact (payload e)" "envelope_ok e"
    and "json_to_vec C (enc_envelope e) = Some b" "length b \<le> MAX_RECEIVER_BODY_BYTES"
  shows "parse_envelope C b = Inr e"
  unfolding parse_envelope_Inr
proof (intro conjI exI)
  have "is_value (payload e)" using assms(2) by (simp add: envelope_typed_def)
  then show "unique_from_slice C b = Inr (to_value (enc_envelope e))"
    by (intro unique_from_slice_to_vec [OF assms(1) enc_envelope_exact [OF assms(2,3)] enc_envelope_no_dup assms(5)])
qed (use assms dec_enc_envelope_value in auto)


text \<open>The batch identifier and the lists of a version 2 acknowledgement.\<close>

lemma dec_record_id_valid: "dec_record_id v = Some r \<Longrightarrow> valid_lower_hex_digest r"
  by (auto simp: dec_record_id_def parse_record_id_def valid_lower_hex_digest_def
      split: option.splits sum.splits if_splits)

lemma dec_list_valid:
  assumes "dec_list dec_record_id v = Some rs"
  shows "list_all valid_lower_hex_digest rs"
proof (cases v)
  case (JArr vs)
  with assms have "those (map dec_record_id vs) = Some rs" by simp
  then show ?thesis
  proof (induction vs arbitrary: rs)
    case (Cons w vs)
    then show ?case by (auto split: option.splits dest: dec_record_id_valid)
  qed simp
qed (use assms in auto)

lemma dec_ack_v2_ids:
  assumes "dec_ack_v2 v = Some a"
  shows "list_all valid_lower_hex_digest (a2_accepted_record_ids a)"
    "list_all valid_lower_hex_digest (a2_accepted_gap_notice_ids a)"
  using assms dec_list_valid
  by (auto simp: dec_ack_v2_def field_def split: Option.bind_splits option.splits)

text \<open>
  C29: a parsed version 2 acknowledgement is bounded. Whatever body the Hub sends, an
  acknowledgement that the parser lets through has version 2, a 64-digit lower-case batch
  identifier, and in each of its two lists at most 256 pairwise different identifiers of
  64 lower-case digits.
\<close>

theorem parsed_ack_v2_bounded:
  assumes "parse_ack_v2 C input = Inr a"
  shows "a2_version a = 2 \<and> valid_lower_hex_digest (a2_batch_id a) \<and>
    list_all (\<lambda>ids. length ids \<le> 256 \<and> distinct ids \<and> list_all valid_lower_hex_digest ids)
      [a2_accepted_record_ids a, a2_accepted_gap_notice_ids a]"
proof -
  from assms obtain v where "dec_ack_v2 v = Some a" and "a2_version a = 2" "valid_lower_hex_digest (a2_batch_id a)"
    "length (a2_accepted_record_ids a) \<le> 256" "length (a2_accepted_gap_notice_ids a) \<le> 256"
    "distinct (a2_accepted_record_ids a)" "distinct (a2_accepted_gap_notice_ids a)"
    by (auto simp: parse_ack_v2_def hash_set_len_eq split: if_splits sum.splits option.splits)
  with dec_ack_v2_ids show ?thesis by simp
qed

end
