(* ===== verification/Edge_Crypto.thy ===== *)
theory Edge_Crypto
  imports Edge_Crates
begin

text \<open>
  crypto.rs: the envelope of every spool file. A file is the magic, the first eight bytes
  of the key's digest, the nonce and the XChaCha20-Poly1305 ciphertext with the magic as
  associated data. Zeroization of key material has no functional effect and is left out.
\<close>

datatype crypto_error = KeyMismatch | InvalidCiphertext

definition MAGIC :: bytes where
  "MAGIC = ''TLEDGE01''"

definition KEY_ID_BYTES :: nat where
  "KEY_ID_BYTES = 8"

definition NONCE_BYTES :: nat where
  "NONCE_BYTES = 24"

definition HEADER_BYTES :: nat where
  "HEADER_BYTES = length MAGIC + KEY_ID_BYTES + NONCE_BYTES"

definition key_id :: "crates \<Rightarrow> bytes \<Rightarrow> bytes" where
  "key_id C key = take KEY_ID_BYTES (sha256 C key)"

definition encrypt :: "crates \<Rightarrow> bytes \<Rightarrow> bytes \<Rightarrow> bytes \<Rightarrow> crypto_error + bytes" where
  "encrypt C key nonce plaintext =
     (case aead_encrypt C key nonce plaintext MAGIC of
        None \<Rightarrow> Inl InvalidCiphertext
      | Some ciphertext \<Rightarrow> Inr (MAGIC @ key_id C key @ nonce @ ciphertext))"

definition decrypt :: "crates \<Rightarrow> bytes \<Rightarrow> bytes \<Rightarrow> crypto_error + bytes" where
  "decrypt C key input =
     (if length input \<le> HEADER_BYTES \<or> take (length MAGIC) input \<noteq> MAGIC
      then Inl InvalidCiphertext
      else
        let key_id_start = length MAGIC;
            nonce_start = key_id_start + KEY_ID_BYTES;
            ciphertext_start = nonce_start + NONCE_BYTES
        in if take KEY_ID_BYTES (drop key_id_start input) \<noteq> key_id C key
           then Inl KeyMismatch
           else (case aead_decrypt C key (take NONCE_BYTES (drop nonce_start input))
                        (drop ciphertext_start input) MAGIC of
                   None \<Rightarrow> Inl InvalidCiphertext
                 | Some plaintext \<Rightarrow> Inr plaintext))"

lemmas crypto_consts = MAGIC_def KEY_ID_BYTES_def NONCE_BYTES_def HEADER_BYTES_def

lemma length_key_id: "digest_laws C \<Longrightarrow> length (key_id C key) = 8"
  by (simp add: key_id_def digest_laws_def KEY_ID_BYTES_def)

lemma encrypt_Inr:
  "encrypt C key nonce p = Inr out \<longleftrightarrow>
     (\<exists>c. aead_encrypt C key nonce p MAGIC = Some c \<and> out = MAGIC @ key_id C key @ nonce @ c)"
  by (auto simp: encrypt_def split: option.splits)

lemma encrypt_length:
  assumes "digest_laws C" "aead_laws C" "length nonce = NONCE_BYTES"
    and "encrypt C key nonce p = Inr out"
  shows "length out = length p + 56"
proof -
  from assms(4) obtain c where "aead_encrypt C key nonce p MAGIC = Some c"
    and out: "out = MAGIC @ key_id C key @ nonce @ c" by (auto simp: encrypt_Inr)
  with assms(2) have "length c = length p + 16" by (simp add: aead_laws_def)
  with out assms(1,3) show ?thesis by (simp add: length_key_id crypto_consts)
qed

lemma decrypt_back:
  assumes "digest_laws C" "aead_laws C" "length nonce = NONCE_BYTES"
    and "encrypt C key nonce p = Inr out"
  shows "decrypt C key out = Inr p"
    and "key_id C other \<noteq> key_id C key \<Longrightarrow> decrypt C other out = Inl KeyMismatch"
proof -
  from assms(4) obtain c where c: "aead_encrypt C key nonce p MAGIC = Some c"
    and out: "out = MAGIC @ key_id C key @ nonce @ c" by (auto simp: encrypt_Inr)
  from assms(2) c have dec: "aead_decrypt C key nonce c MAGIC = Some p"
    and len: "length c = length p + 16" by (auto simp: aead_laws_def)
  have mag: "length MAGIC = 8" by (simp add: MAGIC_def)
  note id = length_key_id [OF assms(1), of key]
  have slices: "take (length MAGIC) out = MAGIC"
    "take KEY_ID_BYTES (drop (length MAGIC) out) = key_id C key"
    "take NONCE_BYTES (drop (length MAGIC + KEY_ID_BYTES) out) = nonce"
    "drop (length MAGIC + KEY_ID_BYTES + NONCE_BYTES) out = c"
    using out assms(3) id by (simp_all add: KEY_ID_BYTES_def NONCE_BYTES_def mag)
  have "\<not> length out \<le> HEADER_BYTES"
    using out assms(3) id len by (simp add: crypto_consts)
  then show "decrypt C key out = Inr p"
    "key_id C other \<noteq> key_id C key \<Longrightarrow> decrypt C other out = Inl KeyMismatch"
    using slices dec by (auto simp: decrypt_def Let_def)
qed

text \<open>
  C26: decryption inverts encryption under the same key. For every plaintext and every
  nonce of 24 bytes, what encrypt writes is accepted by decrypt under the same key and
  returns the plaintext, and the file is exactly 56 bytes longer than the plaintext
  (so the 64 bytes that admission reserves beforehand are enough). Under a key with
  another identifier the file is refused as a key mismatch, not as corrupt.
\<close>

theorem decrypt_encrypt:
  assumes "digest_laws C" "aead_laws C" "length nonce = NONCE_BYTES"
    and "encrypt C key nonce p = Inr out"
  shows "decrypt C key out = Inr p \<and> length out = length p + 56 \<and>
    (key_id C other \<noteq> key_id C key \<longrightarrow> decrypt C other out = Inl KeyMismatch)"
  using decrypt_back [OF assms] encrypt_length [OF assms] by blast

end
