(* ===== verification/Edge_Proc.thy ===== *)
theory Edge_Proc
  imports Edge_Prelude
begin

text \<open>
  Fallible methods with side effects. A procedure takes a state and returns an error or
  a value, and the state it leaves behind: as in the sources, what was changed before an
  early return stays changed. A Hoare calculus with one postcondition for a normal return
  and one for an error return carries the invariant proofs; the locale
  \<open>invariant_system\<close> is the interface from single steps to reachable states.
\<close>

section \<open>Procedures\<close>

type_synonym ('s, 'e, 'a) proc = "'s \<Rightarrow> ('e + 'a) \<times> 's"

definition ok :: "'a \<Rightarrow> ('s, 'e, 'a) proc" where
  "ok x = (\<lambda>s. (Inr x, s))"

definition fail :: "'e \<Rightarrow> ('s, 'e, 'a) proc" where
  "fail e = (\<lambda>s. (Inl e, s))"

definition bindR :: "('s, 'e, 'a) proc \<Rightarrow> ('a \<Rightarrow> ('s, 'e, 'b) proc) \<Rightarrow> ('s, 'e, 'b) proc" where
  "bindR m f = (\<lambda>s. case m s of (Inl e, s') \<Rightarrow> (Inl e, s') | (Inr x, s') \<Rightarrow> f x s')"

definition gets :: "('s \<Rightarrow> 'a) \<Rightarrow> ('s, 'e, 'a) proc" where
  "gets f = (\<lambda>s. (Inr (f s), s))"

definition modify :: "('s \<Rightarrow> 's) \<Rightarrow> ('s, 'e, unit) proc" where
  "modify f = (\<lambda>s. (Inr (), f s))"

text \<open>\<open>if cond { return Err(e) }\<close>, \<open>ok_or(e)?\<close> and \<open>map_err(f)?\<close>.\<close>

definition failIf :: "bool \<Rightarrow> 'e \<Rightarrow> ('s, 'e, unit) proc" where
  "failIf b e = (if b then fail e else ok ())"

definition ok_or :: "'a option \<Rightarrow> 'e \<Rightarrow> ('s, 'e, 'a) proc" where
  "ok_or x e = (case x of None \<Rightarrow> fail e | Some v \<Rightarrow> ok v)"

definition map_err :: "('e \<Rightarrow> 'f) \<Rightarrow> ('s, 'e, 'a) proc \<Rightarrow> ('s, 'f, 'a) proc" where
  "map_err g m = (\<lambda>s. case m s of (Inl e, s') \<Rightarrow> (Inl (g e), s') | (Inr x, s') \<Rightarrow> (Inr x, s'))"

text \<open>\<open>match m { Ok(x) => .., Err(e) => .. }\<close>: both outcomes are handled.\<close>

definition matchR ::
  "('s, 'e, 'a) proc \<Rightarrow> ('a \<Rightarrow> ('s, 'f, 'b) proc) \<Rightarrow> ('e \<Rightarrow> ('s, 'f, 'b) proc) \<Rightarrow> ('s, 'f, 'b) proc" where
  "matchR m f h = (\<lambda>s. case m s of (Inl e, s') \<Rightarrow> h e s' | (Inr x, s') \<Rightarrow> f x s')"

definition lift_result :: "'e + 'a \<Rightarrow> ('s, 'e, 'a) proc" where
  "lift_result r = (\<lambda>s. (r, s))"

text \<open>\<open>for x in xs { body }\<close> with \<open>?\<close> inside the body.\<close>

fun for_each :: "'a list \<Rightarrow> ('a \<Rightarrow> ('s, 'e, unit) proc) \<Rightarrow> ('s, 'e, unit) proc" where
  "for_each [] body = ok ()"
| "for_each (x # xs) body = bindR (body x) (\<lambda>_. for_each xs body)"

text \<open>The same loop with one accumulator of the enclosing function.\<close>

fun for_fold :: "'a list \<Rightarrow> 'b \<Rightarrow> ('b \<Rightarrow> 'a \<Rightarrow> ('s, 'e, 'b) proc) \<Rightarrow> ('s, 'e, 'b) proc" where
  "for_fold [] acc body = ok acc"
| "for_fold (x # xs) acc body = bindR (body acc x) (\<lambda>acc'. for_fold xs acc' body)"

fun mapM :: "('a \<Rightarrow> 'e + 'b) \<Rightarrow> 'a list \<Rightarrow> 'e + 'b list" where
  "mapM f [] = Inr []"
| "mapM f (x # xs) = (case f x of Inl e \<Rightarrow> Inl e
     | Inr y \<Rightarrow> (case mapM f xs of Inl e \<Rightarrow> Inl e | Inr ys \<Rightarrow> Inr (y # ys)))"

lemmas proc_defs = ok_def fail_def bindR_def gets_def modify_def failIf_def ok_or_def
  map_err_def matchR_def lift_result_def

lemma bindR_ok [simp]: "bindR (ok x) f = f x"
  by (simp add: bindR_def ok_def)

lemma bindR_fail [simp]: "bindR (fail e) f = fail e"
  by (simp add: bindR_def fail_def)

lemma bindR_Inl: "m s = (Inl e, s') \<Longrightarrow> bindR m f s = (Inl e, s')"
  by (simp add: bindR_def)

lemma bindR_Inr: "m s = (Inr x, s') \<Longrightarrow> bindR m f s = f x s'"
  by (simp add: bindR_def)

lemma bindR_eq_Inr:
  "bindR m f s = (Inr y, t) \<longleftrightarrow> (\<exists>x s'. m s = (Inr x, s') \<and> f x s' = (Inr y, t))"
  by (auto simp: bindR_def split: prod.splits sum.splits)

lemma bindR_eq_Inl:
  "bindR m f s = (Inl e, t) \<longleftrightarrow>
     m s = (Inl e, t) \<or> (\<exists>x s'. m s = (Inr x, s') \<and> f x s' = (Inl e, t))"
  by (auto simp: bindR_def split: prod.splits sum.splits)

lemma mapM_Inr_iff:
  "mapM f xs = Inr ys \<longleftrightarrow> list_all2 (\<lambda>x y. f x = Inr y) xs ys"
proof (induction xs arbitrary: ys)
  case Nil
  then show ?case by auto
next
  case (Cons x xs)
  show ?case
    by (cases "f x"; cases "mapM f xs"; cases ys) (simp_all add: Cons.IH [symmetric])
qed

lemma mapM_Inr_set: "mapM f xs = Inr ys \<Longrightarrow> y \<in> set ys \<Longrightarrow> \<exists>x \<in> set xs. f x = Inr y"
proof (induction xs arbitrary: ys)
  case (Cons x xs)
  then obtain y' ys' where "f x = Inr y'" "mapM f xs = Inr ys'" "ys = y' # ys'"
    by (auto split: sum.splits)
  with Cons show ?case by auto
qed simp

section \<open>Hoare triples\<close>

definition triple ::
  "('s \<Rightarrow> bool) \<Rightarrow> ('s, 'e, 'a) proc \<Rightarrow> ('a \<Rightarrow> 's \<Rightarrow> bool) \<Rightarrow> ('e \<Rightarrow> 's \<Rightarrow> bool) \<Rightarrow> bool" where
  "triple P m Q E \<longleftrightarrow>
     (\<forall>s. P s \<longrightarrow> (case m s of (Inr x, s') \<Rightarrow> Q x s' | (Inl e, s') \<Rightarrow> E e s'))"

text \<open>A procedure keeps a predicate on every path, error returns included.\<close>

abbreviation keeps :: "('s \<Rightarrow> bool) \<Rightarrow> ('s, 'e, 'a) proc \<Rightarrow> bool" where
  "keeps I m \<equiv> triple I m (\<lambda>_. I) (\<lambda>_. I)"

lemma tripleI:
  assumes "\<And>s x t. P s \<Longrightarrow> m s = (Inr x, t) \<Longrightarrow> Q x t"
    and "\<And>s e t. P s \<Longrightarrow> m s = (Inl e, t) \<Longrightarrow> E e t"
  shows "triple P m Q E"
  using assms by (auto simp: triple_def split: prod.splits sum.splits)

lemma triple_Inr: "triple P m Q E \<Longrightarrow> P s \<Longrightarrow> m s = (Inr x, t) \<Longrightarrow> Q x t"
  by (auto simp: triple_def split: prod.splits sum.splits)

lemma triple_Inl: "triple P m Q E \<Longrightarrow> P s \<Longrightarrow> m s = (Inl e, t) \<Longrightarrow> E e t"
  by (auto simp: triple_def split: prod.splits sum.splits)

lemma keepsD: "keeps I m \<Longrightarrow> I s \<Longrightarrow> I (snd (m s))"
  by (cases "m s") (auto simp: triple_def split: prod.splits sum.splits)

lemma keepsI: "(\<And>s. I s \<Longrightarrow> I (snd (m s))) \<Longrightarrow> keeps I m"
  unfolding triple_def by (metis (mono_tags, lifting) case_prod_beta old.sum.exhaust sum.case snd_conv)

lemma triple_conseq:
  assumes "triple P' m Q' E'" "\<And>s. P s \<Longrightarrow> P' s"
    and "\<And>x s. Q' x s \<Longrightarrow> Q x s" "\<And>e s. E' e s \<Longrightarrow> E e s"
  shows "triple P m Q E"
  using assms by (fastforce simp: triple_def split: prod.splits sum.splits)

lemma triple_conj:
  assumes "triple P m Q E" "triple P' m Q' E'"
  shows "triple (\<lambda>s. P s \<and> P' s) m (\<lambda>x s. Q x s \<and> Q' x s) (\<lambda>e s. E e s \<and> E' e s)"
  using assms by (fastforce simp: triple_def split: prod.splits sum.splits)

lemma triple_pre: "(\<And>s. P s \<Longrightarrow> triple (\<lambda>t. t = s) m Q E) \<Longrightarrow> triple P m Q E"
  by (auto simp: triple_def)

lemma triple_const: "(b \<Longrightarrow> triple P m Q E) \<Longrightarrow> triple (\<lambda>s. b \<and> P s) m Q E"
  by (auto simp: triple_def)

lemma triple_ok [hoare]: "(\<And>s. P s \<Longrightarrow> Q x s) \<Longrightarrow> triple P (ok x) Q E"
  by (simp add: triple_def ok_def)

lemma triple_fail [hoare]: "(\<And>s. P s \<Longrightarrow> E e s) \<Longrightarrow> triple P (fail e) Q E"
  by (simp add: triple_def fail_def)

lemma triple_gets [hoare]: "(\<And>s. P s \<Longrightarrow> Q (f s) s) \<Longrightarrow> triple P (gets f) Q E"
  by (simp add: triple_def gets_def)

lemma triple_modify [hoare]: "(\<And>s. P s \<Longrightarrow> Q () (f s)) \<Longrightarrow> triple P (modify f) Q E"
  by (simp add: triple_def modify_def)

lemma triple_bind:
  "triple P m R E \<Longrightarrow> (\<And>x. triple (R x) (f x) Q E) \<Longrightarrow> triple P (bindR m f) Q E"
  by (fastforce simp: triple_def bindR_def split: prod.splits sum.splits)

lemma triple_gets_bind:
  "(\<And>v. triple (\<lambda>s. P s \<and> v = f s) (g v) Q E) \<Longrightarrow> triple P (bindR (gets f) g) Q E"
  by (auto simp: triple_def bindR_def gets_def)

lemma triple_match:
  "triple P m R H \<Longrightarrow> (\<And>x. triple (R x) (f x) Q E) \<Longrightarrow> (\<And>e. triple (H e) (h e) Q E) \<Longrightarrow>
     triple P (matchR m f h) Q E"
  by (fastforce simp: triple_def matchR_def split: prod.splits sum.splits)

lemma triple_failIf [hoare]:
  "(\<And>s. P s \<Longrightarrow> b \<Longrightarrow> E e s) \<Longrightarrow> (\<And>s. P s \<Longrightarrow> \<not> b \<Longrightarrow> Q () s) \<Longrightarrow> triple P (failIf b e) Q E"
  by (simp add: triple_def failIf_def ok_def fail_def)

lemma triple_ok_or [hoare]:
  "(\<And>s. P s \<Longrightarrow> x = None \<Longrightarrow> E e s) \<Longrightarrow> (\<And>s v. P s \<Longrightarrow> x = Some v \<Longrightarrow> Q v s) \<Longrightarrow>
     triple P (ok_or x e) Q E"
  by (cases x) (simp_all add: triple_def ok_or_def ok_def fail_def)

lemma triple_lift [hoare]:
  "(\<And>s v. P s \<Longrightarrow> r = Inr v \<Longrightarrow> Q v s) \<Longrightarrow> (\<And>s e. P s \<Longrightarrow> r = Inl e \<Longrightarrow> E e s) \<Longrightarrow>
     triple P (lift_result r) Q E"
  by (cases r) (simp_all add: triple_def lift_result_def)

lemma triple_map_err: "triple P m Q (\<lambda>e. E (g e)) \<Longrightarrow> triple P (map_err g m) Q E"
  by (fastforce simp: triple_def map_err_def split: prod.splits sum.splits)

lemma triple_if:
  "(b \<Longrightarrow> triple P m Q E) \<Longrightarrow> (\<not> b \<Longrightarrow> triple P n Q E) \<Longrightarrow> triple P (if b then m else n) Q E"
  by simp

lemma triple_for_each:
  "(\<And>x. x \<in> set xs \<Longrightarrow> triple I (body x) (\<lambda>_. I) E) \<Longrightarrow> triple I (for_each xs body) (\<lambda>_. I) E"
proof (induction xs)
  case Nil
  then show ?case by (auto intro: hoare)
next
  case (Cons x xs)
  then show ?case by (auto intro!: triple_bind)
qed

lemma triple_for_fold:
  "(\<And>x acc. x \<in> set xs \<Longrightarrow> triple (I acc) (body acc x) I E) \<Longrightarrow> triple (I a) (for_fold xs a body) I E"
proof (induction xs arbitrary: a)
  case Nil
  then show ?case by (auto intro: hoare)
next
  case (Cons x xs)
  then show ?case by (auto intro!: triple_bind)
qed

text \<open>The same with the set of the elements seen so far.\<close>

lemma triple_for_each_seen:
  "(\<And>x D. x \<in> set xs \<Longrightarrow> triple (I D) (body x) (\<lambda>_. I (insert x D)) E) \<Longrightarrow>
     triple (I D) (for_each xs body) (\<lambda>_. I (D \<union> set xs)) E"
proof (induction xs arbitrary: D)
  case Nil
  then show ?case by (auto intro: hoare)
next
  case (Cons x xs)
  have "triple (I (insert x D)) (for_each xs body) (\<lambda>_. I (insert x D \<union> set xs)) E"
    by (rule Cons.IH) (use Cons.prems in auto)
  then show ?case using Cons.prems [of x D] by (auto intro: triple_bind)
qed

lemma triple_for_fold_seen:
  "(\<And>x acc D. x \<in> set xs \<Longrightarrow> triple (I D acc) (body acc x) (I (insert x D)) E) \<Longrightarrow>
     triple (I D a) (for_fold xs a body) (I (D \<union> set xs)) E"
proof (induction xs arbitrary: D a)
  case Nil
  then show ?case by (auto intro: hoare)
next
  case (Cons x xs)
  have "triple (I (insert x D) a') (for_fold xs a' body) (I (insert x D \<union> set xs)) E" for a'
    by (rule Cons.IH) (use Cons.prems in auto)
  then show ?case using Cons.prems [of x D a] by (auto intro: triple_bind)
qed

lemma keeps_bind:
  "keeps I m \<Longrightarrow> (\<And>x. keeps I (f x)) \<Longrightarrow> keeps I (bindR m f)"
  by (rule triple_bind)

lemma keeps_match:
  "keeps I m \<Longrightarrow> (\<And>x. keeps I (f x)) \<Longrightarrow> (\<And>e. keeps I (h e)) \<Longrightarrow> keeps I (matchR m f h)"
  by (rule triple_match)

lemma keeps_pure [simp, intro]:
  "keeps I (ok x)" "keeps I (fail e)" "keeps I (gets f)" "keeps I (failIf b e')"
  "keeps I (ok_or y e')" "keeps I (lift_result r)"
  by (auto intro: hoare)

section \<open>Loops\<close>

text \<open>
  \<open>loop { body }\<close>: the body returns \<open>Some\<close> to leave the loop and
  \<open>None\<close> to go on. Running out of fuel is the value \<open>None\<close> of
  \<open>loop_fuel\<close>.
\<close>

fun loop_fuel :: "nat \<Rightarrow> ('s, 'e, 'a option) proc \<Rightarrow> 's \<Rightarrow> (('e + 'a) \<times> 's) option" where
  "loop_fuel 0 body s = None"
| "loop_fuel (Suc n) body s = (case body s of
     (Inl e, t) \<Rightarrow> Some (Inl e, t)
   | (Inr (Some x), t) \<Rightarrow> Some (Inr x, t)
   | (Inr None, t) \<Rightarrow> loop_fuel n body t)"

text \<open>The loop with its fuel read from the state; \<open>stuck\<close> is what running out would return.\<close>

definition loopR :: "('s \<Rightarrow> nat) \<Rightarrow> 'e \<Rightarrow> ('s, 'e, 'a option) proc \<Rightarrow> ('s, 'e, 'a) proc" where
  "loopR fuel stuck body = (\<lambda>s. case loop_fuel (fuel s) body s of Some r \<Rightarrow> r | None \<Rightarrow> (Inl stuck, s))"

lemma loop_fuel_mono: "loop_fuel n body s = Some r \<Longrightarrow> n \<le> m \<Longrightarrow> loop_fuel m body s = Some r"
proof (induction n arbitrary: s m)
  case 0
  then show ?case by simp
next
  case (Suc n)
  then obtain m' where m: "m = Suc m'" "n \<le> m'" by (cases m) auto
  with Suc show ?case by (auto split: prod.splits sum.splits option.splits)
qed

lemma triple_loop_fuel:
  assumes "triple I body (\<lambda>r s. case r of None \<Rightarrow> I s | Some x \<Rightarrow> Q x s) E" "I s"
    and "loop_fuel n body s = Some (r, t)"
  shows "case r of Inr x \<Rightarrow> Q x t | Inl e \<Rightarrow> E e t"
  using assms(2,3)
proof (induction n arbitrary: s)
  case 0
  then show ?case by simp
next
  case (Suc n)
  obtain q u where b: "body s = (q, u)" by fastforce
  show ?case
  proof (cases q)
    case (Inl e)
    with b Suc.prems triple_Inl [OF assms(1)] show ?thesis by auto
  next
    case (Inr y)
    with b triple_Inr [OF assms(1) Suc.prems(1)]
    have "case y of None \<Rightarrow> I u | Some x \<Rightarrow> Q x u" by blast
    with b Inr Suc show ?thesis by (cases y) auto
  qed
qed

lemma triple_loopR:
  assumes "triple I body (\<lambda>r s. case r of None \<Rightarrow> I s | Some x \<Rightarrow> Q x s) E"
    and "\<And>s. I s \<Longrightarrow> E stuck s"
  shows "triple I (loopR fuel stuck body) Q E"
proof (rule tripleI)
  fix s x t
  assume "I s" "loopR fuel stuck body s = (Inr x, t)"
  then show "Q x t"
    using triple_loop_fuel [OF assms(1), of s "fuel s" "Inr x" t]
    by (auto simp: loopR_def split: option.splits)
next
  fix s e t
  assume I: "I s" and "loopR fuel stuck body s = (Inl e, t)"
  then show "E e t"
    using triple_loop_fuel [OF assms(1), of s "fuel s" "Inl e" t] assms(2) [OF I]
    by (auto simp: loopR_def split: option.splits)
qed

text \<open>
  A loop whose body makes a measure smaller each time it goes on: it returns, and it
  satisfies the recursive equation of the source.
\<close>

locale bounded_loop =
  fixes body :: "('s, 'e, 'a option) proc"
    and meas :: "'s \<Rightarrow> nat"
    and inv :: "'s \<Rightarrow> bool"
  assumes body_inv: "inv s \<Longrightarrow> body s = (Inr None, t) \<Longrightarrow> inv t"
    and body_meas: "inv s \<Longrightarrow> body s = (Inr None, t) \<Longrightarrow> meas t < meas s"
begin

lemma fuel_enough: "inv s \<Longrightarrow> meas s < n \<Longrightarrow> \<exists>r. loop_fuel n body s = Some r"
proof (induction n arbitrary: s)
  case 0
  then show ?case by simp
next
  case (Suc n)
  obtain q u where b: "body s = (q, u)" by fastforce
  show ?case
  proof (cases "q = Inr None")
    case True
    with b Suc.prems have "inv u" "meas u < n" using body_inv body_meas by fastforce+
    with Suc.IH True b show ?thesis by simp
  next
    case False
    with b show ?thesis by (auto split: sum.splits option.splits)
  qed
qed

lemma loop_unfold:
  assumes "inv s"
  shows "loopR (\<lambda>s. Suc (meas s)) stuck body s =
    (case body s of (Inl e, t) \<Rightarrow> (Inl e, t) | (Inr (Some x), t) \<Rightarrow> (Inr x, t)
     | (Inr None, t) \<Rightarrow> loopR (\<lambda>s. Suc (meas s)) stuck body t)"
proof -
  obtain q u where b: "body s = (q, u)" by fastforce
  show ?thesis
  proof (cases "q = Inr None")
    case True
    with b assms have u: "inv u" "meas u < meas s" using body_inv body_meas by auto
    then obtain r where r: "loop_fuel (Suc (meas u)) body u = Some r" using fuel_enough by blast
    have "loop_fuel (meas s) body u = Some r" by (rule loop_fuel_mono [OF r]) (use u in simp)
    then have "loopR (\<lambda>s. Suc (meas s)) stuck body s = r" by (simp add: loopR_def b True)
    moreover from r have "loopR (\<lambda>s. Suc (meas s)) stuck body u = r" by (simp only: loopR_def option.case)
    ultimately show ?thesis by (simp add: b True)
  next
    case False
    with b show ?thesis by (auto simp: loopR_def split: sum.splits option.splits)
  qed
qed

lemma loop_returns:
  "inv s \<Longrightarrow> loop_fuel (Suc (meas s)) body s = Some (loopR (\<lambda>s. Suc (meas s)) stuck body s)"
proof -
  assume "inv s"
  then obtain r where "loop_fuel (Suc (meas s)) body s = Some r" using fuel_enough [of s] by blast
  then show ?thesis by (simp only: loopR_def option.case)
qed

end

section \<open>Steps, reachable states and invariants\<close>

locale invariant_system =
  fixes init :: "'s \<Rightarrow> bool"
    and step :: "'s \<Rightarrow> 's \<Rightarrow> bool"
    and inv :: "'s \<Rightarrow> bool"
  assumes inv_init: "init s \<Longrightarrow> inv s"
    and inv_step: "step s t \<Longrightarrow> inv s \<Longrightarrow> inv t"
begin

lemma inv_steps: "step\<^sup>*\<^sup>* s t \<Longrightarrow> inv s \<Longrightarrow> inv t"
  by (induction rule: rtranclp_induct) (auto intro: inv_step)

lemma inv_reachable: "init s \<Longrightarrow> step\<^sup>*\<^sup>* s t \<Longrightarrow> inv t"
  using inv_init inv_steps by blast

end

end
