(* ===== verification/Edge_Disk.thy ===== *)
theory Edge_Disk
  imports Edge_Maps Edge_Proc Edge_Crates
begin

text \<open>
  The operating system as the sources use it: directories of named nodes, a counter of
  the calls made so far, and an environment that decides which calls fail, how much of a
  failed write reached the file, in which order a directory is listed, and what the random
  generators return. Every theorem holds for every environment. An environment in which
  every call from some point on fails leaves the disk exactly as a crash at that point
  would, so statements about the disk after an operation for all environments are
  statements about crashes as well.

  On top of it, the file helpers at the end of spool.rs: \<open>write_atomic\<close>,
  \<open>sync_directory\<close>, \<open>quarantine_file\<close> and \<open>map_io_error\<close>.
\<close>

section \<open>Environment and disk\<close>

record env =
  os_fault :: "nat \<Rightarrow> nat option"
  torn_write :: "nat \<Rightarrow> nat"
  dir_order :: "nat \<Rightarrow> string list \<Rightarrow> string list"
  fresh_uuid :: "nat \<Rightarrow> bytes"
  fresh_nonce :: "nat \<Rightarrow> bytes"
  fresh_secret :: "nat \<Rightarrow> bytes"

text \<open>What is documented of the environment: lengths of random values, a listing is complete.\<close>

definition env_laws :: "env \<Rightarrow> bool" where
  "env_laws E \<longleftrightarrow>
     (\<forall>n. length (fresh_uuid E n) = 16 \<and> length (fresh_nonce E n) = 24 \<and> length (fresh_secret E n) = 32) \<and>
     (\<forall>n xs. set (dir_order E n xs) = set xs \<and> length (dir_order E n xs) = length xs)"

text \<open>A regular file with its bytes, or another kind of node with the size it reports.\<close>

datatype node = Regular bytes | Special nat

record 'd world =
  files :: "'d \<Rightarrow> (string, node) btree"
  tick :: nat

type_synonym 'd path = "'d \<times> string"

datatype io_error = NotFound | AlreadyExists | OsError nat

fun node_len :: "node \<Rightarrow> nat" where
  "node_len (Regular b) = length b"
| "node_len (Special n) = n"

fun is_file :: "node \<Rightarrow> bool" where
  "is_file (Regular b) = True"
| "is_file (Special n) = False"

definition look :: "('d, 'z) world_scheme \<Rightarrow> 'd path \<Rightarrow> node option" where
  "look s p = bt_get (files s (fst p)) (snd p)"

definition put_file :: "'d path \<Rightarrow> node \<Rightarrow> ('d, 'z) world_scheme \<Rightarrow> ('d, 'z) world_scheme" where
  "put_file p n s = s\<lparr>files := (files s)(fst p := bt_insert (snd p) n (files s (fst p)))\<rparr>"

definition del_file :: "'d path \<Rightarrow> ('d, 'z) world_scheme \<Rightarrow> ('d, 'z) world_scheme" where
  "del_file p s = s\<lparr>files := (files s)(fst p := bt_remove (snd p) (files s (fst p)))\<rparr>"

definition disk_ok :: "('d, 'z) world_scheme \<Rightarrow> bool" where
  "disk_ok s \<longleftrightarrow> (\<forall>d. bt_ok (files s d))"

section \<open>Calls\<close>

definition os_call :: "env \<Rightarrow> (('d, 'z) world_scheme, io_error, unit) proc" where
  "os_call E = (\<lambda>s.
     let s' = s\<lparr>tick := Suc (tick s)\<rparr>
     in case os_fault E (tick s) of None \<Rightarrow> (Inr (), s') | Some code \<Rightarrow> (Inl (OsError code), s'))"

definition new_uuid :: "crates \<Rightarrow> env \<Rightarrow> (('d, 'z) world_scheme, 'e, string) proc" where
  "new_uuid C E = (\<lambda>s. (Inr (uuid_text C (fresh_uuid E (tick s))), s\<lparr>tick := Suc (tick s)\<rparr>))"

definition new_nonce :: "env \<Rightarrow> (('d, 'z) world_scheme, 'e, bytes) proc" where
  "new_nonce E = (\<lambda>s. (Inr (fresh_nonce E (tick s)), s\<lparr>tick := Suc (tick s)\<rparr>))"

definition fs_metadata :: "env \<Rightarrow> 'd path \<Rightarrow> (('d, 'z) world_scheme, io_error, node) proc" where
  "fs_metadata E p = bindR (os_call E) (\<lambda>_. bindR (gets (\<lambda>s. look s p)) (\<lambda>n. ok_or n NotFound))"

definition fs_read :: "env \<Rightarrow> 'd path \<Rightarrow> (('d, 'z) world_scheme, io_error, bytes) proc" where
  "fs_read E p = bindR (fs_metadata E p)
     (\<lambda>n. case n of Regular b \<Rightarrow> ok b | Special _ \<Rightarrow> fail (OsError 21))"

text \<open>\<open>OpenOptions::create_new\<close>: fails on an existing name.\<close>

definition fs_create_new :: "env \<Rightarrow> 'd path \<Rightarrow> (('d, 'z) world_scheme, io_error, unit) proc" where
  "fs_create_new E p = bindR (os_call E) (\<lambda>_. bindR (gets (\<lambda>s. look s p)) (\<lambda>n.
     case n of Some _ \<Rightarrow> fail AlreadyExists | None \<Rightarrow> modify (put_file p (Regular []))))"

text \<open>\<open>write_all\<close> on the new file: a failed call may leave a part of the bytes in it.\<close>

definition fs_write_all :: "env \<Rightarrow> 'd path \<Rightarrow> bytes \<Rightarrow> (('d, 'z) world_scheme, io_error, unit) proc" where
  "fs_write_all E p b = bindR (gets tick) (\<lambda>n. matchR (os_call E)
     (\<lambda>_. modify (put_file p (Regular b)))
     (\<lambda>e. bindR (modify (put_file p (Regular (take (torn_write E n) b)))) (\<lambda>_. fail e)))"

definition fs_remove_file :: "env \<Rightarrow> 'd path \<Rightarrow> (('d, 'z) world_scheme, io_error, unit) proc" where
  "fs_remove_file E p = bindR (os_call E) (\<lambda>_. bindR (gets (\<lambda>s. look s p)) (\<lambda>n.
     case n of
       None \<Rightarrow> fail NotFound
     | Some (Special _) \<Rightarrow> fail (OsError 21)
     | Some (Regular _) \<Rightarrow> modify (del_file p)))"

definition fs_rename :: "env \<Rightarrow> 'd path \<Rightarrow> 'd path \<Rightarrow> (('d, 'z) world_scheme, io_error, unit) proc" where
  "fs_rename E p q = bindR (os_call E) (\<lambda>_. bindR (gets (\<lambda>s. (look s p, look s q))) (\<lambda>(n, m).
     case n of
       None \<Rightarrow> fail NotFound
     | Some x \<Rightarrow>
         (case m of
            Some (Special _) \<Rightarrow> fail (OsError 21)
          | _ \<Rightarrow> modify (\<lambda>s. put_file q x (del_file p s)))))"

text \<open>The names in a directory, in the order the environment chooses.\<close>

definition fs_read_dir :: "env \<Rightarrow> 'd \<Rightarrow> (('d, 'z) world_scheme, io_error, string list) proc" where
  "fs_read_dir E d = bindR (gets tick) (\<lambda>n. bindR (os_call E) (\<lambda>_.
     gets (\<lambda>s. dir_order E n (bt_keys (files s d)))))"

section \<open>Errors of the spool and its file helpers\<close>

datatype spool_error =
    InvalidConfig
  | CapacityExceeded
  | BatchItemTooLarge
  | StorageFull
  | SpoolKeyMismatch
  | CorruptRecord
  | Io
  | AlreadyOpen
  | SequenceStateMissing
  | Serialization
  | ReceiptRecoveryRequired
  | V1AcknowledgementHistoryPruned
  | InvalidAcknowledgement
  | ProtocolUpgradeRequired

text \<open>The directories of a spool. Its \<open>Root\<close> holds FORMAT and the sequence state.\<close>

datatype spool_dir = Root | Pending | Tmp | Quarantine | Receipts | Gaps

definition map_io_error :: "io_error \<Rightarrow> spool_error" where
  "map_io_error e = (if e = OsError 28 \<or> e = OsError 112 then StorageFull else Io)"

definition sync_directory :: "env \<Rightarrow> 'd \<Rightarrow> (('d, 'z) world_scheme, spool_error, unit) proc" where
  "sync_directory E d = map_err map_io_error (bindR (os_call E) (\<lambda>_. os_call E))"

definition write_atomic ::
  "env \<Rightarrow> 'd path \<Rightarrow> 'd path \<Rightarrow> bytes \<Rightarrow> (('d, 'z) world_scheme, spool_error, unit) proc" where
  "write_atomic E temporary destination bs =
     bindR (map_err map_io_error (fs_create_new E temporary)) (\<lambda>_.
     matchR (bindR (fs_write_all E temporary bs) (\<lambda>_. os_call E))
       (\<lambda>_. bindR (map_err map_io_error (fs_rename E temporary destination)) (\<lambda>_.
            sync_directory E (fst destination)))
       (\<lambda>error. bindR (matchR (fs_remove_file E temporary)
                         (\<lambda>_. sync_directory E (fst temporary)) (\<lambda>_. ok ())) (\<lambda>_.
                 fail (map_io_error error))))"

definition quarantine_file ::
  "crates \<Rightarrow> env \<Rightarrow> spool_dir path \<Rightarrow> ((spool_dir, 'z) world_scheme, spool_error, unit) proc" where
  "quarantine_file C E p =
     bindR (new_uuid C E) (\<lambda>uuid.
     bindR (map_err map_io_error (fs_rename E p (Quarantine, uuid @ ''.quarantine''))) (\<lambda>_.
     bindR (sync_directory E Quarantine) (\<lambda>_.
     sync_directory E (fst p))))"

section \<open>What a call can change\<close>

text \<open>
  \<open>touches A s t\<close>: from \<open>s\<close> to \<open>t\<close> only the disk and the counter
  change, and on the disk only the paths in \<open>A\<close>.
\<close>

definition touches :: "'d path set \<Rightarrow> ('d, 'z) world_scheme \<Rightarrow> ('d, 'z) world_scheme \<Rightarrow> bool" where
  "touches A s t \<longleftrightarrow>
     (\<exists>f n. t = s\<lparr>files := f, tick := n\<rparr>) \<and> (disk_ok s \<longrightarrow> disk_ok t) \<and>
     (\<forall>p. disk_ok s \<longrightarrow> p \<notin> A \<longrightarrow> look t p = look s p)"

lemma touches_refl [simp, intro]: "touches A s s"
  unfolding touches_def by (metis (full_types) world.surjective world.update_convs(1,2))

lemma touches_tick [simp, intro]: "touches A s (s\<lparr>tick := n\<rparr>)"
  unfolding touches_def by (intro conjI exI [of _ "files s"] exI [of _ n]) (auto simp: disk_ok_def look_def)

lemma touches_trans: "touches A s t \<Longrightarrow> touches A t u \<Longrightarrow> touches A s u"
  unfolding touches_def by (elim conjE exE, intro conjI) auto

lemma touches_mono: "touches A s t \<Longrightarrow> A \<subseteq> B \<Longrightarrow> touches B s t"
  unfolding touches_def by auto

lemma touches_disk_ok: "touches A s t \<Longrightarrow> disk_ok s \<Longrightarrow> disk_ok t"
  by (simp add: touches_def)

lemma touches_look: "touches A s t \<Longrightarrow> disk_ok s \<Longrightarrow> p \<notin> A \<Longrightarrow> look t p = look s p"
  unfolding touches_def by blast

lemma look_put: "disk_ok s \<Longrightarrow> look (put_file p n s) q = (if q = p then Some n else look s q)"
  by (cases p; cases q) (auto simp: look_def put_file_def disk_ok_def bt_get_insert)

lemma look_del: "look (del_file p s) q = (if q = p then None else look s q)"
  by (cases p; cases q) (auto simp: look_def del_file_def)

lemma disk_ok_put [simp]: "disk_ok s \<Longrightarrow> disk_ok (put_file p n s)"
  by (simp add: disk_ok_def put_file_def)

lemma disk_ok_del [simp]: "disk_ok s \<Longrightarrow> disk_ok (del_file p s)"
  by (simp add: disk_ok_def del_file_def)

lemma disk_ok_tick [simp]: "disk_ok (s\<lparr>tick := n\<rparr>) = disk_ok s"
  by (simp add: disk_ok_def)

lemma look_tick [simp]: "look (s\<lparr>tick := n\<rparr>) = look s"
  by (simp add: look_def fun_eq_iff)

lemma touches_put: "p \<in> A \<Longrightarrow> touches A s (put_file p n s)"
  unfolding touches_def
  by (intro conjI exI [of _ "files (put_file p n s)"] exI [of _ "tick s"])
    (auto simp: look_put, simp add: put_file_def)

lemma touches_del: "p \<in> A \<Longrightarrow> touches A s (del_file p s)"
  unfolding touches_def
  by (intro conjI exI [of _ "files (del_file p s)"] exI [of _ "tick s"])
    (auto simp: look_del, simp add: del_file_def)

text \<open>Every call keeps the frame of the paths it is given.\<close>

named_theorems touch \<open>frames of disk operations\<close>

lemma touch_os_call [touch]: "keeps (touches A s0) (os_call E)"
  by (rule keepsI) (auto simp: os_call_def Let_def intro: touches_trans split: option.splits)

lemma touch_new_uuid [touch]: "keeps (touches A s0) (new_uuid C E)"
  by (rule keepsI) (auto simp: new_uuid_def intro: touches_trans)

lemma touch_new_nonce [touch]: "keeps (touches A s0) (new_nonce E)"
  by (rule keepsI) (auto simp: new_nonce_def intro: touches_trans)

lemma touch_put: "p \<in> A \<Longrightarrow> keeps (touches A s0) (modify (put_file p n))"
  by (rule keepsI) (auto simp: modify_def intro: touches_trans touches_put)

lemma touch_del: "p \<in> A \<Longrightarrow> keeps (touches A s0) (modify (del_file p))"
  by (rule keepsI) (auto simp: modify_def intro: touches_trans touches_del)

lemma touch_move:
  "p \<in> A \<Longrightarrow> q \<in> A \<Longrightarrow> keeps (touches A s0) (modify (\<lambda>s. put_file q n (del_file p s)))"
  by (rule keepsI)
    (auto simp: modify_def intro!: touches_put elim!: touches_trans intro: touches_trans [OF touches_del])

lemma touch_metadata [touch]: "keeps (touches A s0) (fs_metadata E p)"
  unfolding fs_metadata_def by (intro keeps_bind touch keeps_pure)

lemma touch_read [touch]: "keeps (touches A s0) (fs_read E p)"
  unfolding fs_read_def by (intro keeps_bind touch) (auto split: node.split)

lemma touch_read_dir [touch]: "keeps (touches A s0) (fs_read_dir E d)"
  unfolding fs_read_dir_def by (intro keeps_bind touch keeps_pure)

lemma touch_create_new [touch]: "p \<in> A \<Longrightarrow> keeps (touches A s0) (fs_create_new E p)"
  unfolding fs_create_new_def
  by (intro keeps_bind touch keeps_pure) (auto split: option.split intro: touch_put)

lemma touch_write_all [touch]: "p \<in> A \<Longrightarrow> keeps (touches A s0) (fs_write_all E p b)"
  unfolding fs_write_all_def by (intro keeps_bind keeps_match touch touch_put keeps_pure)

lemma touch_remove_file [touch]: "p \<in> A \<Longrightarrow> keeps (touches A s0) (fs_remove_file E p)"
  unfolding fs_remove_file_def
  by (intro keeps_bind touch keeps_pure) (auto split: option.split node.split intro: touch_del)

lemma touch_rename [touch]: "p \<in> A \<Longrightarrow> q \<in> A \<Longrightarrow> keeps (touches A s0) (fs_rename E p q)"
  unfolding fs_rename_def
  by (intro keeps_bind touch keeps_pure) (auto split: option.split node.split intro: touch_move)

lemma touch_map_err [touch]: "keeps I m \<Longrightarrow> keeps I (map_err g m)"
  by (rule triple_map_err)

lemma touch_sync_directory [touch]: "keeps (touches A s0) (sync_directory E d)"
  unfolding sync_directory_def by (intro touch keeps_bind)

lemma touch_write_atomic [touch]:
  "temporary \<in> A \<Longrightarrow> destination \<in> A \<Longrightarrow>
     keeps (touches A s0) (write_atomic E temporary destination bs)"
  unfolding write_atomic_def by (intro keeps_bind keeps_match touch keeps_pure)

text \<open>The quarantine directory receives a file under a new name.\<close>

lemma touch_quarantine_file [touch]:
  "p \<in> A \<Longrightarrow> (\<And>n. (Quarantine, n) \<in> A) \<Longrightarrow> keeps (touches A s0) (quarantine_file C E p)"
  unfolding quarantine_file_def by (intro keeps_bind touch keeps_pure)

section \<open>Atomicity of \<open>write_atomic\<close>\<close>

lemma keeps_look_os_call: "keeps (\<lambda>s. disk_ok s \<and> P (look s)) (os_call E)"
  by (rule keepsI)
    (auto simp: os_call_def Let_def split: option.splits)

lemma keeps_look_sync: "keeps (\<lambda>s. disk_ok s \<and> P (look s)) (sync_directory E d)"
  unfolding sync_directory_def by (intro touch_map_err keeps_bind keeps_look_os_call)

lemma write_all_look:
  assumes "p \<noteq> q"
  shows "triple (\<lambda>s. disk_ok s \<and> look s q = old) (fs_write_all E p b)
    (\<lambda>_ s. disk_ok s \<and> look s q = old \<and> look s p = Some (Regular b))
    (\<lambda>_ s. disk_ok s \<and> look s q = old)"
  unfolding fs_write_all_def
  by (rule tripleI)
    (use assms in \<open>auto simp: proc_defs os_call_def Let_def look_put split: option.splits\<close>)

lemma create_new_look:
  assumes "p \<noteq> q"
  shows "triple (\<lambda>s. disk_ok s \<and> look s q = old) (fs_create_new E p)
    (\<lambda>_ s. disk_ok s \<and> look s q = old) (\<lambda>_ s. disk_ok s \<and> look s q = old)"
  unfolding fs_create_new_def
  by (rule tripleI)
    (use assms in \<open>auto simp: proc_defs os_call_def Let_def look_put split: option.splits\<close>)

lemma remove_file_look:
  assumes "p \<noteq> q"
  shows "triple (\<lambda>s. disk_ok s \<and> look s q = old) (fs_remove_file E p)
    (\<lambda>_ s. disk_ok s \<and> look s q = old) (\<lambda>_ s. disk_ok s \<and> look s q = old)"
  unfolding fs_remove_file_def
  by (rule tripleI)
    (use assms in \<open>auto simp: proc_defs os_call_def Let_def look_del split: option.splits node.splits\<close>)

lemma rename_look:
  assumes "p \<noteq> q"
  shows "triple (\<lambda>s. disk_ok s \<and> look s q = old \<and> look s p = Some n) (fs_rename E p q)
    (\<lambda>_ s. disk_ok s \<and> look s q = Some n \<and> look s p = None) (\<lambda>_ s. disk_ok s \<and> look s q = old)"
  unfolding fs_rename_def
  by (rule tripleI)
    (use assms in \<open>auto simp: proc_defs os_call_def Let_def look_del look_put
       split: option.splits node.splits\<close>)

text \<open>
  Whatever fails, the destination holds its old content or the complete new content;
  a normal return means the new content, and the temporary name is gone.
\<close>

lemma write_atomic_spec:
  assumes "temporary \<noteq> destination"
  shows "triple (\<lambda>s. disk_ok s \<and> look s destination = old)
    (write_atomic E temporary destination bs)
    (\<lambda>_ s. disk_ok s \<and> look s destination = Some (Regular bs) \<and> look s temporary = None)
    (\<lambda>_ s. disk_ok s \<and> (look s destination = old \<or> look s destination = Some (Regular bs)))"
proof -
  let ?old = "\<lambda>s. disk_ok s \<and> look s destination = old"
  let ?new = "\<lambda>s. disk_ok s \<and> look s destination = Some (Regular bs) \<and> look s temporary = None"
  let ?either = "\<lambda>s. disk_ok s \<and> (look s destination = old \<or> look s destination = Some (Regular bs))"
  have create: "triple ?old (map_err map_io_error (fs_create_new E temporary)) (\<lambda>_. ?old) (\<lambda>_. ?either)"
    by (rule triple_map_err, rule triple_conseq [OF create_new_look [OF assms]]) auto
  have written: "triple ?old (bindR (fs_write_all E temporary bs) (\<lambda>_. os_call E))
      (\<lambda>_ s. ?old s \<and> look s temporary = Some (Regular bs)) (\<lambda>_. ?old)"
    by (rule triple_bind [OF write_all_look [OF assms]],
        rule triple_conseq [OF keeps_look_os_call
          [of "\<lambda>l. l destination = old \<and> l temporary = Some (Regular bs)"]]) auto
  have commit: "triple (\<lambda>s. ?old s \<and> look s temporary = Some (Regular bs))
      (bindR (map_err map_io_error (fs_rename E temporary destination)) (\<lambda>_.
         sync_directory E (fst destination))) (\<lambda>_. ?new) (\<lambda>_. ?either)"
  proof (rule triple_bind)
    show "triple (\<lambda>s. ?old s \<and> look s temporary = Some (Regular bs))
      (map_err map_io_error (fs_rename E temporary destination)) (\<lambda>_. ?new) (\<lambda>_. ?either)"
      by (rule triple_map_err, rule triple_conseq [OF rename_look [OF assms]]) auto
    show "triple ?new (sync_directory E (fst destination)) (\<lambda>_. ?new) (\<lambda>_. ?either)"
      by (rule triple_conseq [OF keeps_look_sync
          [of "\<lambda>l. l destination = Some (Regular bs) \<and> l temporary = None"]]) auto
  qed
  have undo: "triple ?old (bindR (matchR (fs_remove_file E temporary)
        (\<lambda>_. sync_directory E (fst temporary)) (\<lambda>_. ok ())) (\<lambda>_. fail (map_io_error err)))
      (\<lambda>_. ?new) (\<lambda>_. ?either)" for err
  proof (rule triple_bind)
    show "triple ?old (matchR (fs_remove_file E temporary)
        (\<lambda>_. sync_directory E (fst temporary)) (\<lambda>_. ok ())) (\<lambda>_. ?old) (\<lambda>_. ?either)"
      by (rule triple_match [OF remove_file_look [OF assms]],
          rule triple_conseq [OF keeps_look_sync [of "\<lambda>l. l destination = old"]])
        (auto intro: hoare)
  qed (auto intro: hoare)
  show ?thesis
    unfolding write_atomic_def by (rule triple_bind [OF create], rule triple_match [OF written commit undo])
qed

lemma write_atomic_cases:
  assumes "disk_ok s" "temporary \<noteq> destination" "write_atomic E temporary destination bs s = (r, t)"
  shows "(look t destination = look s destination \<or> look t destination = Some (Regular bs)) \<and>
    (r = Inr () \<longrightarrow> look t destination = Some (Regular bs) \<and> look t temporary = None) \<and>
    (\<forall>p. p \<noteq> temporary \<longrightarrow> p \<noteq> destination \<longrightarrow> look t p = look s p)"
proof -
  note spec = write_atomic_spec [OF assms(2), of "look s destination" E bs]
  have "touches {temporary, destination} s (snd (write_atomic E temporary destination bs s))"
    by (rule keepsD [OF touch_write_atomic]) simp_all
  then have frame: "look t p = look s p" if "p \<noteq> temporary" "p \<noteq> destination" for p
    using touches_look [of "{temporary, destination}" s t p] assms(1,3) that by simp
  show ?thesis
  proof (cases r)
    case (Inl e)
    from triple_Inl [OF spec _ assms(3) [unfolded Inl]] assms(1) frame show ?thesis by (simp add: Inl)
  next
    case (Inr u)
    from triple_Inr [OF spec _ assms(3) [unfolded Inr]] assms(1) frame show ?thesis by simp
  qed
qed

section \<open>Properties\<close>

text \<open>
  C25: an atomic write is atomic under every fault. For every environment, that is for every
  choice of failing calls and torn writes (a crash is an environment in which all calls
  from some point on fail), the destination holds its old content or exactly the new bytes;
  when the write returns normally it holds the new bytes and the temporary name is gone;
  and no path other than the two is touched.
\<close>

theorem write_atomic_atomic:
  assumes "disk_ok s" "temporary \<noteq> destination" "write_atomic E temporary destination bs s = (r, t)"
  shows "(look t destination = look s destination \<or> look t destination = Some (Regular bs)) \<and>
    (r = Inr () \<longrightarrow> look t destination = Some (Regular bs) \<and> look t temporary = None) \<and>
    (\<forall>p. p \<noteq> temporary \<longrightarrow> p \<noteq> destination \<longrightarrow> look t p = look s p)"
  using assms by (rule write_atomic_cases)

end
