(* ===== verification/Spool_Data.thy ===== *)
theory Spool_Data
  imports Edge_Protocol Edge_Crypto Edge_Disk
begin

text \<open>
  spool.rs, its data and pure functions: configuration, in-memory state, the stored
  forms of records, gaps, receipts and sequence state with their JSON, gap notices and
  their digests, file names, batch identifiers, the contiguous-prefix check of a
  version 2 acknowledgement, and the on-disk format marker.
\<close>

section \<open>Constants\<close>

definition PENDING_SUFFIX :: string where
  "PENDING_SUFFIX = ''.tles''"

definition RECEIPT_SUFFIX :: string where
  "RECEIPT_SUFFIX = ''.tlea''"

definition GAP_SUFFIX :: string where
  "GAP_SUFFIX = ''.tleg''"

definition FORMAT_MARKER_FILE :: string where
  "FORMAT_MARKER_FILE = ''FORMAT''"

definition SEQUENCE_STATE_FILE :: string where
  "SEQUENCE_STATE_FILE = ''sequence.tlem''"

definition MAX_ACK_RECEIPTS :: nat where
  "MAX_ACK_RECEIPTS = 1024"

definition MAX_ENCRYPTED_RECORD_BYTES :: nat where
  "MAX_ENCRYPTED_RECORD_BYTES = 384 * 1024"

definition MAX_ENCRYPTED_RECEIPT_BYTES :: nat where
  "MAX_ENCRYPTED_RECEIPT_BYTES = 160 * 1024"

definition MAX_ENCRYPTED_SEQUENCE_STATE_BYTES :: nat where
  "MAX_ENCRYPTED_SEQUENCE_STATE_BYTES = 100 * 1000000 + 1024"

definition MAX_ENCRYPTED_GAP_BYTES :: nat where
  "MAX_ENCRYPTED_GAP_BYTES = 16 * 1024"

definition MAX_FORMAT_MARKER_BYTES :: nat where
  "MAX_FORMAT_MARKER_BYTES = 8"

definition SPOOL_FORMAT_VERSION :: nat where
  "SPOOL_FORMAT_VERSION = 4"

definition PREVIOUS_SPOOL_FORMAT_VERSION :: nat where
  "PREVIOUS_SPOOL_FORMAT_VERSION = 2"

datatype spool_format = Fresh | Previous | AdmissionIdentity | Current

section \<open>Data\<close>

record spool_config =
  max_bytes :: nat
  max_records :: nat
  retention_ms :: int
  batch_max_bytes :: nat
  batch_max_records :: nat

datatype enqueue_outcome = Stored rid | AlreadyPresent rid

record spool_snapshot =
  ss_pending_records :: nat
  ss_pending_bytes :: nat
  ss_corrupt_records :: nat
  ss_expired_records :: nat
  ss_pending_gap_notices :: nat
  ss_pending_gap_bytes :: nat
  ss_oldest_age_seconds :: nat
  ss_capacity_exhausted :: bool
  ss_degraded :: bool

record entry =
  e_record_id :: rid
  e_stable_record_id :: rid
  e_spool_seq :: nat
  e_admitted_at_ms :: int
  e_expires_at_ms :: int
  e_encrypted_bytes :: nat
  e_path :: "spool_dir path"

record gap_entry =
  g_notice :: gap_notice_v2
  g_encrypted_bytes :: nat
  g_path :: "spool_dir path"

record receipt_admission =
  ra_spool_seq :: nat
  ra_stable_record_id :: rid
  ra_legacy_record_id :: rid

record ack_receipt =
  rc_version :: nat
  rc_sequence :: nat
  rc_batch_id :: string
  rc_accepted_record_ids :: "rid list"
  rc_accepted_stable_record_ids :: "rid list"
  rc_accepted_gap_notice_ids :: "rid list"
  rc_accepted_admissions :: "receipt_admission list"

record receipt_entry =
  re_receipt :: ack_receipt
  re_path :: "spool_dir path"

record spool_state =
  entries :: "(rid, entry) btree"
  stable_index :: "(rid, rid) btree"
  gaps :: "(rid, gap_entry) btree"
  receipts :: "(string, receipt_entry) btree"
  next_spool_sequence :: nat
  next_receipt_sequence :: nat
  v1_ack_history_pruned :: bool
  pending_bytes :: nat
  pending_gap_bytes :: nat
  corrupt_records :: nat
  expired_records :: nat
  counted_pending_expirations :: "(nat, rid) btree"
  unresolved_integrity :: bool

definition default_state :: spool_state where
  "default_state = \<lparr>entries = [], stable_index = [], gaps = [], receipts = [],
     next_spool_sequence = 1, next_receipt_sequence = 0, v1_ack_history_pruned = False,
     pending_bytes = 0, pending_gap_bytes = 0, corrupt_records = 0, expired_records = 0,
     counted_pending_expirations = [], unresolved_integrity = False\<rparr>"

datatype batch_item_v2 = ItemRecord hub_batch_record_v2 | ItemGap gap_notice_v2

datatype batch_candidate_v2 = CandRecord entry | CandGap gap_notice_v2

fun cand_spool_seq :: "batch_candidate_v2 \<Rightarrow> nat" where
  "cand_spool_seq (CandRecord e) = e_spool_seq e"
| "cand_spool_seq (CandGap g) = gap_spool_seq g"

record stored_record =
  sr_version :: nat
  sr_record_id :: rid
  sr_stable_record_id :: "rid option"
  sr_spool_seq :: "nat option"
  sr_admitted_at_ms :: int
  sr_expires_at_ms :: int
  sr_envelope :: receiver_envelope

record sequence_state =
  sq_version :: nat
  sq_next_spool_sequence :: nat
  sq_expired_records_total :: nat
  sq_counted_pending_expirations :: "(nat, rid) btree"
  sq_v1_ack_history_pruned :: bool

text \<open>
  A spool handle: the disk below the spool directory, the state behind the mutex and the
  write-failure latch. The context holds what never changes: the third-party code, the
  environment, the configuration and the key.
\<close>

record spool = "spool_dir world" +
  state_of :: spool_state
  storage_write_failed :: bool

record ctx =
  lib :: crates
  ev :: env
  config :: spool_config
  spool_key :: bytes

type_synonym 'a spool_proc = "(spool, spool_error, 'a) proc"

section \<open>Stored forms\<close>

definition enc_stored_record :: "stored_record \<Rightarrow> json" where
  "enc_stored_record r = JObj
     ([(''version'', enc_u64 (sr_version r)), (''record_id'', JStr (sr_record_id r))]
      @ skip_none ''stable_record_id'' JStr (sr_stable_record_id r)
      @ skip_none ''spool_seq'' enc_u64 (sr_spool_seq r)
      @ [(''admitted_at_ms'', enc_i64 (sr_admitted_at_ms r)),
         (''expires_at_ms'', enc_i64 (sr_expires_at_ms r)),
         (''envelope'', enc_envelope (sr_envelope r))])"

definition dec_stored_record :: "json \<Rightarrow> stored_record option" where
  "dec_stored_record v = do {
     fs \<leftarrow> struct_fields [''version'', ''record_id'', ''stable_record_id'', ''spool_seq'',
                           ''admitted_at_ms'', ''expires_at_ms'', ''envelope''] v;
     v_version \<leftarrow> field fs ''version'' dec_u16;
     v_id \<leftarrow> field fs ''record_id'' dec_record_id;
     v_stable \<leftarrow> field_default fs ''stable_record_id'' (dec_option dec_record_id) None;
     v_seq \<leftarrow> field_default fs ''spool_seq'' (dec_option dec_u64) None;
     v_admitted \<leftarrow> field fs ''admitted_at_ms'' dec_i64;
     v_expires \<leftarrow> field fs ''expires_at_ms'' dec_i64;
     v_envelope \<leftarrow> field fs ''envelope'' dec_envelope;
     Some \<lparr>sr_version = v_version, sr_record_id = v_id, sr_stable_record_id = v_stable,
       sr_spool_seq = v_seq, sr_admitted_at_ms = v_admitted, sr_expires_at_ms = v_expires,
       sr_envelope = v_envelope\<rparr> }"

definition enc_counted :: "crates \<Rightarrow> (nat, rid) btree \<Rightarrow> json" where
  "enc_counted C m = JObj (map (\<lambda>(k, v). (json_key_of_u64 C k, JStr v)) m)"

fun dec_counted :: "crates \<Rightarrow> json \<Rightarrow> (nat, rid) btree option" where
  "dec_counted C (JObj kvs) =
     map_option bt_of_list (those (map (\<lambda>(k, v).
       case json_key_to_u64 C k of None \<Rightarrow> None
       | Some n \<Rightarrow> map_option (\<lambda>r. (n, r)) (dec_record_id v)) kvs))"
| "dec_counted C _ = None"

definition enc_sequence_state :: "crates \<Rightarrow> sequence_state \<Rightarrow> json" where
  "enc_sequence_state C q = JObj
     [(''version'', enc_u64 (sq_version q)),
      (''next_spool_sequence'', enc_u64 (sq_next_spool_sequence q)),
      (''expired_records_total'', enc_u64 (sq_expired_records_total q)),
      (''counted_pending_expirations'', enc_counted C (sq_counted_pending_expirations q)),
      (''v1_ack_history_pruned'', JBool (sq_v1_ack_history_pruned q))]"

definition dec_sequence_state :: "crates \<Rightarrow> json \<Rightarrow> sequence_state option" where
  "dec_sequence_state C v = do {
     fs \<leftarrow> struct_fields [''version'', ''next_spool_sequence'', ''expired_records_total'',
                           ''counted_pending_expirations'', ''v1_ack_history_pruned''] v;
     v_version \<leftarrow> field fs ''version'' dec_u16;
     v_next \<leftarrow> field fs ''next_spool_sequence'' dec_u64;
     v_expired \<leftarrow> field_default fs ''expired_records_total'' dec_u64 0;
     v_counted \<leftarrow> field_default fs ''counted_pending_expirations'' (dec_counted C) [];
     v_pruned \<leftarrow> field_default fs ''v1_ack_history_pruned'' dec_bool False;
     Some \<lparr>sq_version = v_version, sq_next_spool_sequence = v_next,
       sq_expired_records_total = v_expired, sq_counted_pending_expirations = v_counted,
       sq_v1_ack_history_pruned = v_pruned\<rparr> }"

definition enc_admission :: "receipt_admission \<Rightarrow> json" where
  "enc_admission a = JObj
     [(''spool_seq'', enc_u64 (ra_spool_seq a)), (''stable_record_id'', JStr (ra_stable_record_id a)),
      (''legacy_record_id'', JStr (ra_legacy_record_id a))]"

definition dec_admission :: "json \<Rightarrow> receipt_admission option" where
  "dec_admission v = do {
     fs \<leftarrow> struct_fields [''spool_seq'', ''stable_record_id'', ''legacy_record_id''] v;
     v_seq \<leftarrow> field fs ''spool_seq'' dec_u64;
     v_stable \<leftarrow> field fs ''stable_record_id'' dec_record_id;
     v_legacy \<leftarrow> field fs ''legacy_record_id'' dec_record_id;
     Some \<lparr>ra_spool_seq = v_seq, ra_stable_record_id = v_stable, ra_legacy_record_id = v_legacy\<rparr> }"

definition enc_receipt :: "ack_receipt \<Rightarrow> json" where
  "enc_receipt r = JObj
     ([(''version'', enc_u64 (rc_version r)), (''sequence'', enc_u64 (rc_sequence r)),
       (''batch_id'', JStr (rc_batch_id r)),
       (''accepted_record_ids'', enc_record_ids (rc_accepted_record_ids r))]
      @ skip_empty ''accepted_stable_record_ids'' enc_record_ids (rc_accepted_stable_record_ids r)
      @ skip_empty ''accepted_gap_notice_ids'' enc_record_ids (rc_accepted_gap_notice_ids r)
      @ [(''accepted_admissions'', JArr (map enc_admission (rc_accepted_admissions r)))])"

definition dec_receipt :: "json \<Rightarrow> ack_receipt option" where
  "dec_receipt v = do {
     fs \<leftarrow> struct_fields [''version'', ''sequence'', ''batch_id'', ''accepted_record_ids'',
            ''accepted_stable_record_ids'', ''accepted_gap_notice_ids'', ''accepted_admissions''] v;
     v_version \<leftarrow> field fs ''version'' dec_u16;
     v_sequence \<leftarrow> field fs ''sequence'' dec_u64;
     v_batch \<leftarrow> field fs ''batch_id'' dec_string;
     v_ids \<leftarrow> field fs ''accepted_record_ids'' (dec_list dec_record_id);
     v_stable \<leftarrow> field_default fs ''accepted_stable_record_ids'' (dec_list dec_record_id) [];
     v_gaps \<leftarrow> field_default fs ''accepted_gap_notice_ids'' (dec_list dec_record_id) [];
     v_adm \<leftarrow> field fs ''accepted_admissions'' (dec_list dec_admission);
     Some \<lparr>rc_version = v_version, rc_sequence = v_sequence, rc_batch_id = v_batch,
       rc_accepted_record_ids = v_ids, rc_accepted_stable_record_ids = v_stable,
       rc_accepted_gap_notice_ids = v_gaps, rc_accepted_admissions = v_adm\<rparr> }"

section \<open>Gap notices\<close>

definition gap_notice_for_identity ::
  "crates \<Rightarrow> nat \<Rightarrow> rid \<Rightarrow> int \<Rightarrow> gap_reason_v2 \<Rightarrow> gap_notice_v2" where
  "gap_notice_for_identity C seq sid occurred reason =
     (let reason_label = reason_name reason;
          evidence = hex_encode C (sha256 C (domain ''teslatlas-edge-gap-evidence-v2''
                       @ u64_be seq @ sid @ reason_label));
          notice_id = record_id_from_sha256 C (sha256 C (domain ''teslatlas-edge-gap-notice-v2''
                       @ u64_be seq @ reason_label @ evidence))
      in \<lparr>gap_notice_id = notice_id, gap_spool_seq = seq, gap_occurred_at_ms = occurred,
          gap_reason = reason, gap_evidence_sha256 = evidence\<rparr>)"

definition gap_notice :: "crates \<Rightarrow> entry \<Rightarrow> int \<Rightarrow> gap_reason_v2 \<Rightarrow> gap_notice_v2" where
  "gap_notice C e occurred reason =
     gap_notice_for_identity C (e_spool_seq e) (e_stable_record_id e) occurred reason"

definition valid_digest :: "string \<Rightarrow> bool" where
  "valid_digest value \<longleftrightarrow> length value = 64 \<and> list_all is_lower_hex value"

definition valid_gap_notice :: "crates \<Rightarrow> gap_notice_v2 \<Rightarrow> bool" where
  "valid_gap_notice C n \<longleftrightarrow>
     \<not> (gap_spool_seq n = 0 \<or> \<not> valid_digest (gap_evidence_sha256 n)) \<and>
     gap_notice_id n = record_id_from_sha256 C (sha256 C (domain ''teslatlas-edge-gap-notice-v2''
       @ u64_be (gap_spool_seq n) @ reason_name (gap_reason n) @ gap_evidence_sha256 n))"

section \<open>Checks and identifiers\<close>

definition validate_config :: "spool_config \<Rightarrow> spool_error + unit" where
  "validate_config c =
     (if max_bytes c = 0 \<or> max_records c = 0 \<or> retention_ms c \<le> 0 \<or> batch_max_bytes c = 0
         \<or> batch_max_records c = 0 \<or> batch_max_records c > max_records c
      then Inl InvalidConfig else Inr ())"

definition valid_stored_record :: "crates \<Rightarrow> stored_record \<Rightarrow> bool" where
  "valid_stored_record C r =
     (if (case validate (sr_envelope r) of Inl _ \<Rightarrow> True | Inr _ \<Rightarrow> False)
         \<or> sr_record_id r \<noteq> record_id C (sr_envelope r)
         \<or> sr_expires_at_ms r < sr_admitted_at_ms r
      then False
      else if sr_version r = 1 then sr_stable_record_id r = None \<and> sr_spool_seq r = None
      else if sr_version r = 2 then
        sr_stable_record_id r = Some (stable_record_id C (sr_envelope r)) \<and>
        (case sr_spool_seq r of None \<Rightarrow> False | Some sequence \<Rightarrow> sequence > 0)
      else False)"

definition pending_file_name :: "nat \<Rightarrow> rid \<Rightarrow> string" where
  "pending_file_name seq r = ''v2-'' @ dec020 seq @ ''-'' @ r @ PENDING_SUFFIX"

definition gap_file_name :: "nat \<Rightarrow> rid \<Rightarrow> string" where
  "gap_file_name seq notice_id = dec020 seq @ ''-'' @ notice_id @ GAP_SUFFIX"

definition receipt_file_name :: "nat \<Rightarrow> string \<Rightarrow> string" where
  "receipt_file_name sequence b = dec020 sequence @ ''-'' @ b @ RECEIPT_SUFFIX"

definition parse_v2_pending_file_name :: "string \<Rightarrow> (nat \<times> rid) option" where
  "parse_v2_pending_file_name file_name = do {
     rest \<leftarrow> strip_prefix ''v2-'' file_name;
     body \<leftarrow> strip_suffix PENDING_SUFFIX rest;
     (sequence, r) \<leftarrow> split_once (CHR ''-'') body;
     if length sequence \<noteq> 20 then None
     else do {
       spool_seq \<leftarrow> parse_u64 sequence;
       if spool_seq = 0 then None
       else (case parse_record_id r of Inl _ \<Rightarrow> None | Inr rid \<Rightarrow> Some (spool_seq, rid)) } }"

definition batch_id :: "crates \<Rightarrow> hub_batch_record_v1 list \<Rightarrow> string" where
  "batch_id C records =
     hex_encode C (sha256 C (domain ''teslatlas-edge-batch-v1''
       @ concat (map (\<lambda>r. b1_record_id r @ [CHR 0x00]) records)))"

definition batch_items :: "hub_batch_record_v2 list \<Rightarrow> gap_notice_v2 list \<Rightarrow> (nat \<times> bool \<times> rid) list" where
  "batch_items records notices =
     sort_key fst (map (\<lambda>r. (b2_spool_seq r, True, b2_record_id r)) records
       @ map (\<lambda>g. (gap_spool_seq g, False, gap_notice_id g)) notices)"

definition batch_id_v2 :: "crates \<Rightarrow> hub_batch_record_v2 list \<Rightarrow> gap_notice_v2 list \<Rightarrow> string" where
  "batch_id_v2 C records notices =
     hex_encode C (sha256 C (domain ''teslatlas-edge-batch-v2''
       @ concat (map (\<lambda>(seq, is_record, i).
           (if is_record then ''r'' else ''g'') @ u64_be seq @ i @ [CHR 0x00])
           (batch_items records notices))))"

text \<open>The loop over the merged items, with its two local variables.\<close>

fun merged_prefix_loop ::
  "rid list \<Rightarrow> rid list \<Rightarrow> (nat \<times> bool \<times> rid) list \<Rightarrow> nat \<Rightarrow> bool \<Rightarrow> nat option" where
  "merged_prefix_loop accR accG [] matched saw_unaccepted = Some matched"
| "merged_prefix_loop accR accG ((_, is_record, i) # items) matched saw_unaccepted =
     (if (if is_record then i \<in> set accR else i \<in> set accG)
      then if saw_unaccepted then None
           else merged_prefix_loop accR accG items (sat_add_u64 matched 1) saw_unaccepted
      else merged_prefix_loop accR accG items matched True)"

definition v2_ack_is_merged_prefix :: "hub_batch_v2 \<Rightarrow> hub_ack_v2 \<Rightarrow> bool" where
  "v2_ack_is_merged_prefix batch a =
     (case merged_prefix_loop (a2_accepted_record_ids a) (a2_accepted_gap_notice_ids a)
             (batch_items (bv2_records batch) (bv2_gaps batch)) 0 False of
        None \<Rightarrow> False
      | Some matched \<Rightarrow>
          matched = sat_add_u64 (hash_set_len (a2_accepted_record_ids a))
                      (hash_set_len (a2_accepted_gap_notice_ids a)))"

definition same_record_ids :: "rid list \<Rightarrow> rid list \<Rightarrow> bool" where
  "same_record_ids left right \<longleftrightarrow> length left = length right \<and> set left = set right"

definition ack_result :: "ack_receipt \<Rightarrow> hub_ack_result_v1" where
  "ack_result r = \<lparr>ar1_version = 1, ar1_acknowledged_record_ids = rc_accepted_record_ids r,
     ar1_unknown_record_ids = []\<rparr>"

definition ack_result_v2 :: "ack_receipt \<Rightarrow> hub_ack_result_v2" where
  "ack_result_v2 r = \<lparr>ar2_version = 2,
     ar2_acknowledged_record_ids = rc_accepted_stable_record_ids r,
     ar2_acknowledged_gap_notice_ids = rc_accepted_gap_notice_ids r,
     ar2_unknown_record_ids = [], ar2_unknown_gap_notice_ids = []\<rparr>"

definition map_crypto_error :: "crypto_error \<Rightarrow> spool_error" where
  "map_crypto_error e = (case e of KeyMismatch \<Rightarrow> SpoolKeyMismatch | InvalidCiphertext \<Rightarrow> CorruptRecord)"

section \<open>File names\<close>

lemma dash_not_digit: "CHR ''-'' \<notin> set (dec020 n)"
  using dec020_digits [of n] not_dash_if_digit by blast

lemma pending_name_parses:
  assumes "0 < seq" "seq \<le> u64_max" "valid_digest r"
  shows "parse_v2_pending_file_name (pending_file_name seq r) = Some (seq, r)"
proof -
  have "strip_prefix ''v2-'' (pending_file_name seq r) = Some (dec020 seq @ CHR ''-'' # r @ PENDING_SUFFIX)"
    by (simp add: strip_prefix_Some pending_file_name_def)
  moreover have "strip_suffix PENDING_SUFFIX (dec020 seq @ CHR ''-'' # r @ PENDING_SUFFIX) = Some (dec020 seq @ CHR ''-'' # r)"
    by (simp add: strip_suffix_Some)
  moreover have "split_once (CHR ''-'') (dec020 seq @ CHR ''-'' # r) = Some (dec020 seq, r)"
    by (rule split_once_append [OF dash_not_digit])
  ultimately show ?thesis
    using assms by (simp add: parse_v2_pending_file_name_def dec020_length parse_u64_dec020 parse_record_id_def valid_digest_def)
qed

text \<open>
  The file name of a pending record names its sequence number and identity. For every
  sequence number in range and every record identifier, parsing the name that admission
  writes returns exactly the two; so two records never share a file name, and a damaged
  file that can no longer be read still tells which sequence number was lost.
\<close>

lemma parse_pending_file_name:
  assumes "0 < seq" "seq \<le> u64_max" "valid_digest r"
  shows "parse_v2_pending_file_name (pending_file_name seq r) = Some (seq, r)"
  by (rule pending_name_parses [OF assms])

section \<open>The contiguous prefix of an acknowledgement\<close>

text \<open>The items an acknowledgement names, records and gap notices apart.\<close>

definition accepted_items :: "hub_ack_v2 \<Rightarrow> (bool \<times> rid) set" where
  "accepted_items a = Pair True ` set (a2_accepted_record_ids a) \<union> Pair False ` set (a2_accepted_gap_notice_ids a)"

definition item_accepted :: "rid list \<Rightarrow> rid list \<Rightarrow> nat \<times> bool \<times> rid \<Rightarrow> bool" where
  "item_accepted accR accG it = (case it of (_, is_record, i) \<Rightarrow> if is_record then i \<in> set accR else i \<in> set accG)"

lemma merged_prefix_loop_Cons:
  "merged_prefix_loop accR accG (it # items) m seen =
     (if item_accepted accR accG it
      then if seen then None else merged_prefix_loop accR accG items (sat_add_u64 m 1) seen
      else merged_prefix_loop accR accG items m True)"
  by (cases it) (simp add: item_accepted_def)

lemma merged_prefix_loop_seen:
  "merged_prefix_loop accR accG items m True =
     (if \<exists>it \<in> set items. item_accepted accR accG it then None else Some m)"
  by (induction items) (simp_all add: merged_prefix_loop_Cons)

lemma merged_prefix_loop_eq:
  "m + length items \<le> u64_max \<Longrightarrow> merged_prefix_loop accR accG items m False =
     (if \<exists>it \<in> set (dropWhile (item_accepted accR accG) items). item_accepted accR accG it then None
      else Some (m + length (takeWhile (item_accepted accR accG) items)))"
proof (induction items arbitrary: m)
  case (Cons it items)
  have "sat_add_u64 m 1 = Suc m" using Cons.prems by (simp add: sat_add_u64_def)
  moreover have "Suc m + length items \<le> u64_max" using Cons.prems by simp
  ultimately show ?case
    by (cases "item_accepted accR accG it")
      (simp_all only: merged_prefix_loop_Cons merged_prefix_loop_seen Cons.IH dropWhile.simps takeWhile.simps
        list.set_intros bex_simps list.set insert_iff list.size if_True if_False simp_thms add_Suc add_Suc_right add_0_right)
qed simp

lemma while_split:
  assumes "\<And>x. x \<in> set xs \<Longrightarrow> P x" "\<And>x. x \<in> set ys \<Longrightarrow> \<not> P x"
  shows "takeWhile P (xs @ ys) = xs" "dropWhile P (xs @ ys) = ys"
proof -
  have "takeWhile P ys = []" "dropWhile P ys = ys" using assms(2) by (cases ys; simp)+
  then show "takeWhile P (xs @ ys) = xs" "dropWhile P (xs @ ys) = ys"
    using assms(1) by (induction xs) simp_all
qed

lemma card_accepted_items:
  "card (accepted_items a) = hash_set_len (a2_accepted_record_ids a) + hash_set_len (a2_accepted_gap_notice_ids a)"
proof -
  have "Pair True ` R \<inter> Pair False ` G = {}" for R G :: "rid set" by auto
  then show ?thesis
    by (simp add: accepted_items_def hash_set_len_def length_remdups_card_conv card_Un_disjoint card_image inj_on_def)
qed

lemma item_accepted_iff:
  "item_accepted (a2_accepted_record_ids a) (a2_accepted_gap_notice_ids a) it \<longleftrightarrow> snd it \<in> accepted_items a"
  by (cases it) (auto simp: item_accepted_def accepted_items_def)

lemma merged_prefix_char:
  assumes "distinct (map snd (batch_items (bv2_records b) (bv2_gaps b)))"
    and "length (bv2_records b) + length (bv2_gaps b) < u64_max"
  shows "v2_ack_is_merged_prefix b a \<longleftrightarrow>
    (\<exists>n. accepted_items a = set (map snd (take n (batch_items (bv2_records b) (bv2_gaps b)))))"
proof -
  let ?items = "batch_items (bv2_records b) (bv2_gaps b)"
  let ?acc = "item_accepted (a2_accepted_record_ids a) (a2_accepted_gap_notice_ids a)"
  let ?pre = "takeWhile ?acc ?items" and ?post = "dropWhile ?acc ?items"
  have len: "length ?items < u64_max" using assms(2) by (simp add: batch_items_def)
  have pre: "length ?pre \<le> length ?items" by (rule length_takeWhile_le)
  have dist: "card (set (map snd ?pre)) = length ?pre" "distinct (map snd ?pre)"
  proof -
    have "map snd ?pre = take (length ?pre) (map snd ?items)"
      by (subst takeWhile_eq_take) (simp only: take_map)
    then show "distinct (map snd ?pre)" using assms(1) by (metis distinct_take)
    then show "card (set (map snd ?pre)) = length ?pre" using distinct_card by fastforce
  qed
  have sub: "set (map snd ?pre) \<subseteq> accepted_items a"
    using set_takeWhileD [of _ ?acc ?items] by (auto simp: item_accepted_iff)
  have fin: "finite (accepted_items a)" by (simp add: accepted_items_def)
  have v2: "v2_ack_is_merged_prefix b a \<longleftrightarrow> (\<forall>it \<in> set ?post. \<not> ?acc it) \<and> length ?pre = card (accepted_items a)"
  proof -
    have loop: "merged_prefix_loop (a2_accepted_record_ids a) (a2_accepted_gap_notice_ids a) ?items 0 False =
        (if \<exists>it \<in> set ?post. ?acc it then None else Some (length ?pre))"
      using merged_prefix_loop_eq [of 0 ?items "a2_accepted_record_ids a" "a2_accepted_gap_notice_ids a"] len
      by (simp only: add_0 less_imp_le)
    have "length ?pre = sat_add_u64 x y \<longleftrightarrow> length ?pre = x + y" for x y
      using len pre by (auto simp: sat_add_u64_def min_def)
    then show ?thesis unfolding v2_ack_is_merged_prefix_def loop card_accepted_items by simp
  qed
  show ?thesis
  proof
    assume "v2_ack_is_merged_prefix b a"
    with v2 have "card (accepted_items a) = card (set (map snd ?pre))" using dist(1) by simp
    with card_subset_eq [OF fin sub] have "set (map snd ?pre) = accepted_items a" by simp
    then show "\<exists>n. accepted_items a = set (map snd (take n ?items))"
      by (metis takeWhile_eq_take)
  next
    assume "\<exists>n. accepted_items a = set (map snd (take n ?items))"
    then obtain n where n: "accepted_items a = set (map snd (take n ?items))" by blast
    have "distinct (map snd (take n ?items) @ map snd (drop n ?items))"
      using assms(1) by (simp flip: map_append)
    then have rest: "\<not> ?acc it" if "it \<in> set (drop n ?items)" for it
      using that n by (auto simp: item_accepted_iff)
    have head: "?acc it" if "it \<in> set (take n ?items)" for it using that n by (auto simp: item_accepted_iff)
    have "?pre = take n ?items" "?post = drop n ?items"
      using while_split [of "take n ?items" ?acc "drop n ?items"] head rest by simp_all
    with n rest dist(1) show "v2_ack_is_merged_prefix b a" unfolding v2 by simp
  qed
qed

text \<open>
  C30: the check of a version 2 acknowledgement accepts exactly the contiguous prefixes. On
  a batch whose items have different identities, an acknowledgement passes if and only if
  what it names is the set of the first \<open>n\<close> items of the batch in sequence order, records
  and gap notices merged, for some \<open>n\<close>: no hole, no item of another batch.
\<close>

theorem merged_prefix_iff:
  assumes "distinct (map snd (batch_items (bv2_records b) (bv2_gaps b)))"
    and "length (bv2_records b) + length (bv2_gaps b) < u64_max"
  shows "v2_ack_is_merged_prefix b a \<longleftrightarrow>
    (\<exists>n. accepted_items a = set (map snd (take n (batch_items (bv2_records b) (bv2_gaps b)))))"
  by (rule merged_prefix_char [OF assms])

end
