(* ===== verification/Spool_Ops.thy ===== *)
theory Spool_Ops
  imports Spool_Data "HOL-Library.Product_Lexorder"
begin

text \<open>
  spool.rs, the operations on an open spool: admission, the two batch builders, the two
  acknowledgements with receipts, expiry into gap notices, quarantine, the sequence state
  and the snapshot. Each is a procedure over the spool handle; the mutexes are held for
  the whole call in the model (a poisoned mutex needs a panic and is left out), and every
  early return of the sources is an error return that keeps what was changed before it.
\<close>

section \<open>Helpers\<close>

definition upd_state :: "(spool_state \<Rightarrow> spool_state) \<Rightarrow> unit spool_proc" where
  "upd_state f = modify (\<lambda>s. s\<lparr>state_of := f (state_of s)\<rparr>)"

text \<open>\<open>Spool::write_atomic\<close>: the latch stops every write after a failed one.\<close>

definition spool_write_atomic ::
  "ctx \<Rightarrow> spool_dir path \<Rightarrow> spool_dir path \<Rightarrow> bytes \<Rightarrow> unit spool_proc" where
  "spool_write_atomic X temporary destination bs =
     bindR (gets storage_write_failed) (\<lambda>failed.
     if failed then fail Io
     else matchR (write_atomic (ev X) temporary destination bs)
            (\<lambda>_. ok ())
            (\<lambda>e. bindR (modify (\<lambda>s. s\<lparr>storage_write_failed := True\<rparr>)) (\<lambda>_. fail e)))"

definition spool_encrypt :: "ctx \<Rightarrow> bytes \<Rightarrow> bytes spool_proc" where
  "spool_encrypt X plaintext =
     bindR (new_nonce (ev X)) (\<lambda>nonce.
     lift_result (case encrypt (lib X) (spool_key X) nonce plaintext of
        Inl e \<Rightarrow> Inl (map_crypto_error e) | Inr b \<Rightarrow> Inr b))"

definition temporary_path :: "ctx \<Rightarrow> spool_dir path spool_proc" where
  "temporary_path X = bindR (new_uuid (lib X) (ev X)) (\<lambda>u. ok (Tmp, u @ ''.tmp''))"

definition persist_sequence_state ::
  "ctx \<Rightarrow> nat \<Rightarrow> nat \<Rightarrow> bool \<Rightarrow> (nat, rid) btree \<Rightarrow> unit spool_proc" where
  "persist_sequence_state X next_seq expired_total pruned counted =
     bindR (ok_or (json_to_vec (lib X) (enc_sequence_state (lib X)
        \<lparr>sq_version = 1, sq_next_spool_sequence = next_seq,
         sq_expired_records_total = expired_total, sq_counted_pending_expirations = counted,
         sq_v1_ack_history_pruned = pruned\<rparr>)) Serialization) (\<lambda>plaintext.
     bindR (spool_encrypt X plaintext) (\<lambda>encrypted.
     bindR (temporary_path X) (\<lambda>temporary.
     spool_write_atomic X temporary (Root, SEQUENCE_STATE_FILE) encrypted)))"

text \<open>The sequence state written from the current in-memory state.\<close>

definition persist_current :: "ctx \<Rightarrow> unit spool_proc" where
  "persist_current X = bindR (gets state_of) (\<lambda>st.
     persist_sequence_state X (next_spool_sequence st) (expired_records st)
       (v1_ack_history_pruned st) (counted_pending_expirations st))"

section \<open>Admission\<close>

definition admit_entry :: "entry \<Rightarrow> spool_state \<Rightarrow> spool_state" where
  "admit_entry e st = st\<lparr>
     pending_bytes := sat_add_u64 (pending_bytes st) (e_encrypted_bytes e),
     next_spool_sequence := Suc (e_spool_seq e),
     stable_index := bt_insert (e_stable_record_id e) (e_record_id e) (stable_index st),
     entries := bt_insert (e_record_id e) e (entries st)\<rparr>"

definition enqueue_new :: "ctx \<Rightarrow> receiver_envelope \<Rightarrow> int \<Rightarrow> enqueue_outcome spool_proc" where
  "enqueue_new X envelope admitted_at_ms =
     bindR (gets state_of) (\<lambda>st.
     let C = lib X; cfg = config X;
         rid = record_id C envelope; sid = stable_record_id C envelope;
         seq = next_spool_sequence st
     in
     bindR (ok_or (checked_add_u64 seq 1) InvalidConfig) (\<lambda>next_seq.
     let stored = \<lparr>sr_version = 2, sr_record_id = rid, sr_stable_record_id = Some sid,
           sr_spool_seq = Some seq, sr_admitted_at_ms = admitted_at_ms,
           sr_expires_at_ms = sat_add_i64 admitted_at_ms (retention_ms cfg),
           sr_envelope = envelope\<rparr>
     in
     bindR (ok_or (json_to_vec C (enc_batch_record_v1 \<lparr>b1_record_id = rid,
        b1_received_at_ms = admitted_at_ms, b1_envelope = envelope\<rparr>)) Serialization) (\<lambda>v1.
     bindR (ok_or (json_to_vec C (enc_batch_record_v2 \<lparr>b2_record_id = sid,
        b2_legacy_record_id = rid, b2_spool_seq = seq, b2_received_at_ms = admitted_at_ms,
        b2_envelope = envelope\<rparr>)) Serialization) (\<lambda>v2.
     bindR (failIf (length v1 > batch_max_bytes cfg \<or> length v2 > batch_max_bytes cfg)
        BatchItemTooLarge) (\<lambda>_.
     bindR (ok_or (json_to_vec C (enc_stored_record stored)) Serialization) (\<lambda>plaintext.
     bindR (ok_or (map_option (\<lambda>n. sat_add_u64 n 64) (u64_try_from (length plaintext)))
        CapacityExceeded) (\<lambda>predicted_bytes.
     bindR (failIf (sat_add_u64 (length (entries st)) (length (gaps st)) \<ge> max_records cfg
        \<or> sat_add_u64 (pending_bytes st) predicted_bytes > max_bytes cfg) CapacityExceeded) (\<lambda>_.
     bindR (spool_encrypt X plaintext) (\<lambda>encrypted.
     bindR (ok_or (u64_try_from (length encrypted)) CapacityExceeded) (\<lambda>encrypted_bytes.
     bindR (failIf (encrypted_bytes > MAX_ENCRYPTED_RECORD_BYTES) BatchItemTooLarge) (\<lambda>_.
     bindR (failIf (sat_add_u64 (pending_bytes st) encrypted_bytes > max_bytes cfg)
        CapacityExceeded) (\<lambda>_.
     let destination = (Pending, pending_file_name seq rid) in
     bindR (temporary_path X) (\<lambda>temporary.
     bindR (spool_write_atomic X temporary destination encrypted) (\<lambda>_.
     bindR (upd_state (admit_entry \<lparr>e_record_id = rid, e_stable_record_id = sid, e_spool_seq = seq,
        e_admitted_at_ms = admitted_at_ms, e_expires_at_ms = sr_expires_at_ms stored,
        e_encrypted_bytes = encrypted_bytes, e_path = destination\<rparr>)) (\<lambda>_.
     bindR (persist_sequence_state X next_seq (expired_records st) (v1_ack_history_pruned st)
        (counted_pending_expirations st)) (\<lambda>_.
     ok (Stored rid)))))))))))))))))"

definition enqueue :: "ctx \<Rightarrow> receiver_envelope \<Rightarrow> int \<Rightarrow> enqueue_outcome spool_proc" where
  "enqueue X envelope admitted_at_ms =
     bindR (lift_result (case validate envelope of Inl _ \<Rightarrow> Inl CorruptRecord | Inr _ \<Rightarrow> Inr ())) (\<lambda>_.
     bindR (gets storage_write_failed) (\<lambda>failed.
     bindR (failIf failed Io) (\<lambda>_.
     bindR (gets state_of) (\<lambda>st.
     case bt_get (stable_index st) (stable_record_id (lib X) envelope) of
       Some existing_record_id \<Rightarrow> ok (AlreadyPresent existing_record_id)
     | None \<Rightarrow> enqueue_new X envelope admitted_at_ms))))"

section \<open>Reading and quarantining entries\<close>

definition map_read_error :: "io_error \<Rightarrow> spool_error" where
  "map_read_error e = (if e = NotFound then CorruptRecord else map_io_error e)"

definition spool_decrypt :: "ctx \<Rightarrow> bytes \<Rightarrow> bytes spool_proc" where
  "spool_decrypt X b = lift_result (case decrypt (lib X) (spool_key X) b of
     Inl e \<Rightarrow> Inl (map_crypto_error e) | Inr p \<Rightarrow> Inr p)"

definition read_entry :: "ctx \<Rightarrow> entry \<Rightarrow> stored_record spool_proc" where
  "read_entry X e =
     bindR (map_err map_read_error (fs_metadata (ev X) (e_path e))) (\<lambda>metadata.
     bindR (failIf (node_len metadata > MAX_ENCRYPTED_RECORD_BYTES) CorruptRecord) (\<lambda>_.
     bindR (map_err map_read_error (fs_read (ev X) (e_path e))) (\<lambda>encrypted.
     bindR (spool_decrypt X encrypted) (\<lambda>plaintext.
     bindR (ok_or (json_from_slice (lib X) dec_stored_record plaintext) CorruptRecord) (\<lambda>stored.
     bindR (failIf (\<not> valid_stored_record (lib X) stored \<or> sr_record_id stored \<noteq> e_record_id e
        \<or> sr_stable_record_id stored \<noteq> Some (e_stable_record_id e)
        \<or> sr_spool_seq stored \<noteq> Some (e_spool_seq e)) CorruptRecord) (\<lambda>_.
     ok stored))))))"

text \<open>\<open>Path::exists\<close>: any error counts as absent.\<close>

definition path_exists :: "ctx \<Rightarrow> spool_dir path \<Rightarrow> bool spool_proc" where
  "path_exists X p = matchR (fs_metadata (ev X) p) (\<lambda>_. ok True) (\<lambda>_. ok False)"

definition ensure_quarantine_capacity :: "ctx \<Rightarrow> nat \<Rightarrow> bool \<Rightarrow> unit spool_proc" where
  "ensure_quarantine_capacity X additional_bytes adding_file =
     bindR (map_err map_io_error (fs_read_dir (ev X) Quarantine)) (\<lambda>names.
     bindR (for_fold names (0, 0) (\<lambda>(fs, bs) name.
        bindR (map_err map_io_error (os_call (ev X))) (\<lambda>_.
        bindR (map_err map_io_error (fs_metadata (ev X) (Quarantine, name))) (\<lambda>node.
        ok (sat_add_u64 fs 1, sat_add_u64 bs (node_len node)))))) (\<lambda>(fs, bs).
     failIf (sat_add_u64 fs (if adding_file then 1 else 0) > max_records (config X)
        \<or> sat_add_u64 bs additional_bytes > max_bytes (config X)) CapacityExceeded))"

definition quarantine_file_bounded :: "ctx \<Rightarrow> spool_dir path \<Rightarrow> unit spool_proc" where
  "quarantine_file_bounded X p =
     bindR (matchR (fs_metadata (ev X) p) (\<lambda>n. ok (node_len n)) (\<lambda>_. ok 0)) (\<lambda>source_bytes.
     bindR (ensure_quarantine_capacity X source_bytes True) (\<lambda>_.
     quarantine_file (lib X) (ev X) p))"

section \<open>Gap notices\<close>

definition insert_gap :: "gap_notice_v2 \<Rightarrow> nat \<Rightarrow> spool_dir path \<Rightarrow> spool_state \<Rightarrow> spool_state" where
  "insert_gap notice enc_bytes p st = st\<lparr>
     pending_gap_bytes := sat_add_u64 (pending_gap_bytes st) enc_bytes,
     gaps := bt_insert (gap_notice_id notice)
       \<lparr>g_notice = notice, g_encrypted_bytes = enc_bytes, g_path = p\<rparr> (gaps st)\<rparr>"

definition persist_gap_locked ::
  "ctx \<Rightarrow> entry \<Rightarrow> int \<Rightarrow> gap_reason_v2 \<Rightarrow> (rid \<times> bool) spool_proc" where
  "persist_gap_locked X e occurred_at_ms reason =
     bindR (gets state_of) (\<lambda>st.
     let notice = gap_notice (lib X) e occurred_at_ms reason; notice_id = gap_notice_id notice in
     if bt_contains (gaps st) notice_id then ok (notice_id, False)
     else
     bindR (failIf (list_ex (\<lambda>g. gap_spool_seq (g_notice g) = e_spool_seq e) (bt_values (gaps st)))
        CorruptRecord) (\<lambda>_.
     bindR (failIf (list_ex (\<lambda>p. e_spool_seq p = e_spool_seq e \<and> e_record_id p \<noteq> e_record_id e)
        (bt_values (entries st))) CorruptRecord) (\<lambda>_.
     bindR (failIf (length (gaps st) \<ge> max_records (config X)) CapacityExceeded) (\<lambda>_.
     bindR (ok_or (json_to_vec (lib X) (enc_gap_notice notice)) Serialization) (\<lambda>plaintext.
     bindR (spool_encrypt X plaintext) (\<lambda>encrypted.
     bindR (ok_or (u64_try_from (length encrypted)) CapacityExceeded) (\<lambda>encrypted_bytes.
     bindR (failIf (encrypted_bytes > MAX_ENCRYPTED_GAP_BYTES
        \<or> sat_add_u64 (pending_gap_bytes st) encrypted_bytes > max_bytes (config X))
        CapacityExceeded) (\<lambda>_.
     let destination = (Gaps, gap_file_name (e_spool_seq e) notice_id) in
     bindR (temporary_path X) (\<lambda>temporary.
     bindR (spool_write_atomic X temporary destination encrypted) (\<lambda>_.
     bindR (upd_state (insert_gap notice encrypted_bytes destination)) (\<lambda>_.
     ok (notice_id, True))))))))))))"

definition drop_entry :: "entry \<Rightarrow> spool_state \<Rightarrow> spool_state" where
  "drop_entry e st = st\<lparr>
     entries := bt_remove (e_record_id e) (entries st),
     stable_index := bt_remove (e_stable_record_id e) (stable_index st),
     pending_bytes := sat_sub_u64 (pending_bytes st) (e_encrypted_bytes e)\<rparr>"

definition quarantine_runtime_entry :: "ctx \<Rightarrow> entry \<Rightarrow> unit spool_proc" where
  "quarantine_runtime_entry X e =
     bindR (gets state_of) (\<lambda>st.
     if \<not> bt_contains (entries st) (e_record_id e) then ok ()
     else
     bindR (persist_gap_locked X e (e_admitted_at_ms e) IntegrityQuarantine) (\<lambda>_.
     bindR (matchR (quarantine_file_bounded X (e_path e))
        (\<lambda>_. ok ())
        (\<lambda>error. if error \<noteq> Io then fail error
           else bindR (path_exists X (e_path e)) (\<lambda>present.
             if present then fail error else sync_directory (ev X) Pending))) (\<lambda>_.
     bindR (upd_state (drop_entry e)) (\<lambda>_.
     upd_state (\<lambda>st. st\<lparr>corrupt_records := sat_add_u64 (corrupt_records st) 1\<rparr>)))))"

section \<open>Removing acknowledged and expired backing\<close>

definition uncount :: "nat \<Rightarrow> spool_state \<Rightarrow> spool_state" where
  "uncount seq st = st\<lparr>counted_pending_expirations := bt_remove seq (counted_pending_expirations st)\<rparr>"

text \<open>\<open>fs::remove_file\<close> where a missing file is fine.\<close>

definition remove_if_present :: "ctx \<Rightarrow> spool_dir path \<Rightarrow> unit spool_proc" where
  "remove_if_present X p = matchR (fs_remove_file (ev X) p) (\<lambda>_. ok ())
     (\<lambda>e. if e = NotFound then ok () else fail (map_io_error e))"

definition admitted_entry :: "spool_state \<Rightarrow> receipt_admission \<Rightarrow> entry option" where
  "admitted_entry st a =
     (case bt_get (entries st) (ra_legacy_record_id a) of
        None \<Rightarrow> None
      | Some e \<Rightarrow>
          if e_spool_seq e = ra_spool_seq a \<and> e_stable_record_id e = ra_stable_record_id a
             \<and> e_record_id e = ra_legacy_record_id a then Some e else None)"

definition remove_admitted_record :: "ctx \<Rightarrow> receipt_admission \<Rightarrow> bool spool_proc" where
  "remove_admitted_record X a =
     bindR (gets state_of) (\<lambda>st.
     let counted_identity_matches =
           (bt_get (counted_pending_expirations st) (ra_spool_seq a) = Some (ra_stable_record_id a));
         uncount_matching =
           (if counted_identity_matches then upd_state (uncount (ra_spool_seq a)) else ok ())
     in case admitted_entry st a of
       None \<Rightarrow> bindR uncount_matching (\<lambda>_. ok False)
     | Some e \<Rightarrow>
         bindR (remove_if_present X (e_path e)) (\<lambda>_.
         bindR (upd_state (drop_entry e)) (\<lambda>_.
         bindR uncount_matching (\<lambda>_. ok True))))"

definition admission_of :: "entry \<Rightarrow> receipt_admission" where
  "admission_of e = \<lparr>ra_spool_seq = e_spool_seq e, ra_stable_record_id = e_stable_record_id e,
     ra_legacy_record_id = e_record_id e\<rparr>"

definition remove_expired_gap_backing :: "ctx \<Rightarrow> rid \<Rightarrow> bool spool_proc" where
  "remove_expired_gap_backing X notice_id =
     bindR (gets state_of) (\<lambda>st.
     case find (\<lambda>e. bt_contains (counted_pending_expirations st) (e_spool_seq e)
            \<and> gap_notice_id (gap_notice (lib X) e (e_expires_at_ms e) RetentionExpired) = notice_id)
          (bt_values (entries st)) of
       None \<Rightarrow> ok False
     | Some e \<Rightarrow>
         bindR (remove_admitted_record X (admission_of e)) (\<lambda>removed.
         bindR (upd_state (uncount (e_spool_seq e))) (\<lambda>_.
         ok removed)))"

definition remove_gap :: "gap_entry \<Rightarrow> rid \<Rightarrow> spool_state \<Rightarrow> spool_state" where
  "remove_gap g notice_id st = st\<lparr>
     gaps := bt_remove notice_id (gaps st),
     pending_gap_bytes := sat_sub_u64 (pending_gap_bytes st) (g_encrypted_bytes g)\<rparr>"

text \<open>
  One step of the loop over accepted gap notices; the flags say whether pending backing
  and whether a physical gap was removed.
\<close>

definition complete_gap :: "ctx \<Rightarrow> bool \<times> bool \<Rightarrow> rid \<Rightarrow> (bool \<times> bool) spool_proc" where
  "complete_gap X flags notice_id =
     bindR (gets state_of) (\<lambda>st.
     case bt_get (gaps st) notice_id of
       None \<Rightarrow> bindR (remove_expired_gap_backing X notice_id) (\<lambda>removed.
                 ok (fst flags \<or> removed, snd flags))
     | Some g \<Rightarrow>
         bindR (remove_if_present X (g_path g)) (\<lambda>_.
         bindR (upd_state (remove_gap g notice_id)) (\<lambda>_.
         ok (fst flags, True))))"

definition complete_removals :: "ctx \<Rightarrow> ack_receipt \<Rightarrow> bool \<times> bool \<Rightarrow> (bool \<times> bool) spool_proc" where
  "complete_removals X receipt flags =
     bindR (for_fold (rc_accepted_admissions receipt) flags (\<lambda>fl a.
        bindR (remove_admitted_record X a) (\<lambda>removed. ok (fst fl \<or> removed, snd fl)))) (\<lambda>fl.
     for_fold (rc_accepted_gap_notice_ids receipt) fl (complete_gap X))"

definition complete_receipt :: "ctx \<Rightarrow> ack_receipt \<Rightarrow> unit spool_proc" where
  "complete_receipt X receipt =
     bindR (complete_removals X receipt (False, False)) (\<lambda>fl.
     bindR (if fst fl then sync_directory (ev X) Pending else ok ()) (\<lambda>_.
     bindR (sync_directory (ev X) Gaps) (\<lambda>_.
     persist_current X)))"

section \<open>Expiry\<close>

definition due_entries :: "spool_state \<Rightarrow> int \<Rightarrow> entry list" where
  "due_entries st now_ms = sort_key e_spool_seq (filter (\<lambda>e. e_expires_at_ms e < now_ms
     \<or> bt_contains (counted_pending_expirations st) (e_spool_seq e)) (bt_values (entries st)))"

fun count_expired ::
  "spool_state \<Rightarrow> entry list \<Rightarrow> (nat, rid) btree \<Rightarrow> nat \<Rightarrow> (nat, rid) btree \<times> nat" where
  "count_expired st [] counted n = (counted, n)"
| "count_expired st (e # es) counted n =
     (if \<not> list_ex (\<lambda>g. gap_spool_seq (g_notice g) = e_spool_seq e) (bt_values (gaps st))
         \<and> \<not> bt_contains counted (e_spool_seq e)
      then count_expired st es (bt_insert (e_spool_seq e) (e_stable_record_id e) counted) (Suc n)
      else count_expired st es counted n)"

definition expire_entry :: "ctx \<Rightarrow> bool \<Rightarrow> entry \<Rightarrow> bool spool_proc" where
  "expire_entry X removed_backing e =
     matchR (persist_gap_locked X e (e_expires_at_ms e) RetentionExpired)
       (\<lambda>_. bindR (remove_admitted_record X (admission_of e)) (\<lambda>_.
            bindR (sync_directory (ev X) Pending) (\<lambda>_.
            bindR (upd_state (uncount (e_spool_seq e))) (\<lambda>_.
            ok True))))
       (\<lambda>error. if error = CapacityExceeded then ok removed_backing else fail error)"

definition expire_due :: "ctx \<Rightarrow> int \<Rightarrow> nat spool_proc" where
  "expire_due X now_ms =
     bindR (gets state_of) (\<lambda>st.
     let expired = due_entries st now_ms;
         (counted, expired_count) = count_expired st expired (counted_pending_expirations st) 0
     in
     bindR (if expired_count > 0 then
        bindR (ok_or (checked_add_u64 (expired_records st) expired_count) InvalidConfig) (\<lambda>total.
        bindR (persist_sequence_state X (next_spool_sequence st) total
           (v1_ack_history_pruned st) counted) (\<lambda>_.
        upd_state (\<lambda>st. st\<lparr>expired_records := total, counted_pending_expirations := counted\<rparr>)))
      else ok ()) (\<lambda>_.
     bindR (for_fold expired False (expire_entry X)) (\<lambda>removed_backing.
     bindR (if removed_backing then persist_current X else ok ()) (\<lambda>_.
     ok expired_count))))"

end
