(* ===== verification/Spool_Batch.thy ===== *)
theory Spool_Batch
  imports Spool_Ops
begin

text \<open>
  spool.rs, delivery: the two batch builders, the two acknowledgements with their durable
  receipts, the pruning of old receipts, the snapshot and the final sync. The two loops
  that go on until nothing changes are \<open>loopR\<close> over their body, with the number of
  entries and of receipts as fuel; they return on every state whose keys agree with its
  values.
\<close>

section \<open>Version 1 batches\<close>

fun batch_v1_loop ::
  "ctx \<Rightarrow> entry list \<Rightarrow> hub_batch_record_v1 list \<Rightarrow> nat \<Rightarrow> hub_batch_record_v1 list spool_proc" where
  "batch_v1_loop X [] records body_bytes = ok records"
| "batch_v1_loop X (e # es) records body_bytes =
     (if length records \<ge> min (batch_max_records (config X)) 256 then ok records
      else matchR (read_entry X e)
        (\<lambda>stored.
           let r = \<lparr>b1_record_id = sr_record_id stored, b1_received_at_ms = sr_admitted_at_ms stored,
                    b1_envelope = sr_envelope stored\<rparr>
           in bindR (ok_or (json_to_vec (lib X) (enc_batch_record_v1 r)) Serialization) (\<lambda>encoded.
              if records \<noteq> [] \<and> sat_add_u64 body_bytes (length encoded) > batch_max_bytes (config X)
              then ok records
              else if length encoded > batch_max_bytes (config X) then fail BatchItemTooLarge
              else batch_v1_loop X es (records @ [r]) (sat_add_u64 body_bytes (length encoded))))
        (\<lambda>error.
           if error = CorruptRecord
           then bindR (quarantine_runtime_entry X e) (\<lambda>_. batch_v1_loop X es records body_bytes)
           else fail error))"

definition upgrade_required :: "spool_state \<Rightarrow> bool" where
  "upgrade_required st \<longleftrightarrow> gaps st \<noteq> [] \<or> counted_pending_expirations st \<noteq> []"

definition build_batch :: "ctx \<Rightarrow> hub_batch_v1 spool_proc" where
  "build_batch X =
     bindR (gets state_of) (\<lambda>st.
     bindR (failIf (unresolved_integrity st) CorruptRecord) (\<lambda>_.
     bindR (batch_v1_loop X
        (sort_key (\<lambda>e. (e_admitted_at_ms e, e_record_id e)) (bt_values (entries st))) [] 0) (\<lambda>records.
     bindR (gets state_of) (\<lambda>st.
     bindR (failIf (upgrade_required st) ProtocolUpgradeRequired) (\<lambda>_.
     ok \<lparr>bv1_version = 1, bv1_batch_id = batch_id (lib X) records, bv1_records = records\<rparr>)))))"

definition next_batch :: "ctx \<Rightarrow> int \<Rightarrow> hub_batch_v1 spool_proc" where
  "next_batch X now_ms =
     bindR (expire_due X now_ms) (\<lambda>_.
     bindR (gets state_of) (\<lambda>st.
     bindR (failIf (unresolved_integrity st) CorruptRecord) (\<lambda>_.
     bindR (failIf (upgrade_required st) ProtocolUpgradeRequired) (\<lambda>_.
     build_batch X))))"

section \<open>Version 2 batches\<close>

definition batch_candidates :: "spool_state \<Rightarrow> batch_candidate_v2 list" where
  "batch_candidates st = sort_key cand_spool_seq
     (map CandRecord (sort_key e_spool_seq (bt_values (entries st)))
      @ map CandGap (map g_notice (bt_values (gaps st))))"

text \<open>\<open>windows(2).any(..)\<close>: two neighbours with one sequence number.\<close>

fun adjacent_equal :: "nat list \<Rightarrow> bool" where
  "adjacent_equal (a # b # xs) \<longleftrightarrow> a = b \<or> adjacent_equal (b # xs)"
| "adjacent_equal _ \<longleftrightarrow> False"

record batch_acc =
  ba_records :: "hub_batch_record_v2 list"
  ba_gaps :: "gap_notice_v2 list"
  ba_body_bytes :: nat
  ba_quarantined :: bool

text \<open>
  The first half of the loop body: the item a candidate gives, or \<open>None\<close> when its
  record was quarantined.
\<close>

definition candidate_item ::
  "ctx \<Rightarrow> (nat, rid) btree \<Rightarrow> batch_candidate_v2 \<Rightarrow> batch_item_v2 option spool_proc" where
  "candidate_item X counted c =
     (case c of
        CandGap g \<Rightarrow> ok (Some (ItemGap g))
      | CandRecord e \<Rightarrow>
          if bt_contains counted (e_spool_seq e)
          then bindR (read_entry X e) (\<lambda>_.
               ok (Some (ItemGap (gap_notice (lib X) e (e_expires_at_ms e) RetentionExpired))))
          else matchR (read_entry X e)
            (\<lambda>stored. ok (Some (ItemRecord \<lparr>b2_record_id = e_stable_record_id e,
                b2_legacy_record_id = e_record_id e, b2_spool_seq = e_spool_seq e,
                b2_received_at_ms = sr_admitted_at_ms stored, b2_envelope = sr_envelope stored\<rparr>)))
            (\<lambda>error.
               if error = CorruptRecord then bindR (quarantine_runtime_entry X e) (\<lambda>_. ok None)
               else fail error))"

fun item_json :: "batch_item_v2 \<Rightarrow> json" where
  "item_json (ItemRecord r) = enc_batch_record_v2 r"
| "item_json (ItemGap g) = enc_gap_notice g"

fun item_kind_full :: "batch_item_v2 \<Rightarrow> batch_acc \<Rightarrow> bool" where
  "item_kind_full (ItemRecord r) a \<longleftrightarrow> length (ba_records a) \<ge> 256"
| "item_kind_full (ItemGap g) a \<longleftrightarrow> length (ba_gaps a) \<ge> 256"

fun push_item :: "batch_item_v2 \<Rightarrow> batch_acc \<Rightarrow> batch_acc" where
  "push_item (ItemRecord r) a = a\<lparr>ba_records := ba_records a @ [r]\<rparr>"
| "push_item (ItemGap g) a = a\<lparr>ba_gaps := ba_gaps a @ [g]\<rparr>"

fun batch_v2_loop ::
  "ctx \<Rightarrow> (nat, rid) btree \<Rightarrow> batch_candidate_v2 list \<Rightarrow> batch_acc \<Rightarrow> batch_acc spool_proc" where
  "batch_v2_loop X counted [] a = ok a"
| "batch_v2_loop X counted (c # cs) a =
     (if sat_add_u64 (length (ba_records a)) (length (ba_gaps a)) \<ge> batch_max_records (config X)
      then ok a
      else bindR (candidate_item X counted c) (\<lambda>item.
        case item of
          None \<Rightarrow> batch_v2_loop X counted cs (a\<lparr>ba_quarantined := True\<rparr>)
        | Some it \<Rightarrow>
            if item_kind_full it a then ok a
            else bindR (ok_or (json_to_vec (lib X) (item_json it)) Serialization) (\<lambda>encoded.
              if (ba_records a \<noteq> [] \<or> ba_gaps a \<noteq> [])
                 \<and> sat_add_u64 (ba_body_bytes a) (length encoded) > batch_max_bytes (config X)
              then ok a
              else if length encoded > batch_max_bytes (config X) then fail BatchItemTooLarge
              else batch_v2_loop X counted cs
                (push_item it (a\<lparr>ba_body_bytes := sat_add_u64 (ba_body_bytes a) (length encoded)\<rparr>)))))"

text \<open>One call of \<open>build_batch_v2\<close>; \<open>None\<close> is the recursive call after a quarantine.\<close>

definition build_batch_v2_once :: "ctx \<Rightarrow> hub_batch_v2 option spool_proc" where
  "build_batch_v2_once X =
     bindR (gets state_of) (\<lambda>st.
     bindR (failIf (unresolved_integrity st) CorruptRecord) (\<lambda>_.
     let candidates = batch_candidates st in
     bindR (failIf (adjacent_equal (map cand_spool_seq candidates)) CorruptRecord) (\<lambda>_.
     bindR (batch_v2_loop X (counted_pending_expirations st) candidates
        \<lparr>ba_records = [], ba_gaps = [], ba_body_bytes = 0, ba_quarantined = False\<rparr>) (\<lambda>a.
     if ba_quarantined a then ok None
     else ok (Some \<lparr>bv2_version = 2, bv2_batch_id = batch_id_v2 (lib X) (ba_records a) (ba_gaps a),
       bv2_records = ba_records a, bv2_gaps = ba_gaps a\<rparr>)))))"

definition build_batch_v2 :: "ctx \<Rightarrow> hub_batch_v2 spool_proc" where
  "build_batch_v2 X = loopR (\<lambda>s. Suc (length (entries (state_of s)))) CorruptRecord (build_batch_v2_once X)"

definition next_batch_v2 :: "ctx \<Rightarrow> int \<Rightarrow> hub_batch_v2 spool_proc" where
  "next_batch_v2 X now_ms = bindR (expire_due X now_ms) (\<lambda>_. build_batch_v2 X)"

section \<open>Receipts\<close>

definition receipt_admissions_v1 ::
  "spool_state \<Rightarrow> hub_batch_v1 \<Rightarrow> hub_ack_v1 \<Rightarrow> spool_error + receipt_admission list" where
  "receipt_admissions_v1 st delivered a =
     mapM (\<lambda>r. case bt_get (entries st) (b1_record_id r) of
               None \<Rightarrow> Inl InvalidAcknowledgement
             | Some e \<Rightarrow> Inr (admission_of e))
       (filter (\<lambda>r. b1_record_id r \<in> set (a1_accepted_record_ids a)) (bv1_records delivered))"

definition receipt_admissions_v2 ::
  "spool_state \<Rightarrow> hub_batch_v2 \<Rightarrow> hub_ack_v2 \<Rightarrow> spool_error + receipt_admission list" where
  "receipt_admissions_v2 st delivered a =
     mapM (\<lambda>r. case bt_get (entries st) (b2_legacy_record_id r) of
               None \<Rightarrow> Inl InvalidAcknowledgement
             | Some e \<Rightarrow>
                 if e_spool_seq e \<noteq> b2_spool_seq r \<or> e_stable_record_id e \<noteq> b2_record_id r
                 then Inl InvalidAcknowledgement
                 else Inr \<lparr>ra_spool_seq = b2_spool_seq r, ra_stable_record_id = b2_record_id r,
                           ra_legacy_record_id = b2_legacy_record_id r\<rparr>)
       (filter (\<lambda>r. b2_record_id r \<in> set (a2_accepted_record_ids a)) (bv2_records delivered))"

text \<open>The receipt sequence number is taken before the receipt is written.\<close>

definition take_receipt_sequence :: "nat spool_proc" where
  "take_receipt_sequence =
     bindR (gets (\<lambda>s. next_receipt_sequence (state_of s))) (\<lambda>sequence.
     bindR (ok_or (checked_add_u64 sequence 1) InvalidConfig) (\<lambda>next_sequence.
     bindR (upd_state (\<lambda>st. st\<lparr>next_receipt_sequence := next_sequence\<rparr>)) (\<lambda>_.
     ok sequence)))"

text \<open>
  The common tail of both acknowledgements: write the receipt, remember it, delete what it
  accepts.
\<close>

definition store_receipt :: "ctx \<Rightarrow> ack_receipt \<Rightarrow> unit spool_proc" where
  "store_receipt X receipt =
     bindR (ok_or (json_to_vec (lib X) (enc_receipt receipt)) Serialization) (\<lambda>plaintext.
     bindR (spool_encrypt X plaintext) (\<lambda>encrypted.
     bindR (ok_or (u64_try_from (length encrypted)) CapacityExceeded) (\<lambda>n.
     bindR (failIf (n > MAX_ENCRYPTED_RECEIPT_BYTES) CapacityExceeded) (\<lambda>_.
     let destination = (Receipts, receipt_file_name (rc_sequence receipt) (rc_batch_id receipt)) in
     bindR (temporary_path X) (\<lambda>temporary.
     bindR (spool_write_atomic X temporary destination encrypted) (\<lambda>_.
     upd_state (\<lambda>st. st\<lparr>receipts := bt_insert (rc_batch_id receipt)
       \<lparr>re_receipt = receipt, re_path = destination\<rparr> (receipts st)\<rparr>)))))))"

definition oldest_receipt :: "(string, receipt_entry) btree \<Rightarrow> receipt_entry option" where
  "oldest_receipt m = (case bt_values m of [] \<Rightarrow> None
     | r # rs \<Rightarrow> Some (foldl (\<lambda>best x.
         if rc_sequence (re_receipt x) < rc_sequence (re_receipt best) then x else best) r rs))"

definition prune_once :: "ctx \<Rightarrow> unit option spool_proc" where
  "prune_once X =
     bindR (gets state_of) (\<lambda>st.
     if length (receipts st) \<le> MAX_ACK_RECEIPTS then ok (Some ())
     else
     bindR (ok_or (oldest_receipt (receipts st)) Io) (\<lambda>oldest.
     bindR (if rc_version (re_receipt oldest) = 1 \<and> \<not> v1_ack_history_pruned st
        then bindR (upd_state (\<lambda>st. st\<lparr>v1_ack_history_pruned := True\<rparr>)) (\<lambda>_. persist_current X)
        else ok ()) (\<lambda>_.
     bindR (remove_if_present X (re_path oldest)) (\<lambda>_.
     bindR (upd_state (\<lambda>st. st\<lparr>receipts := bt_remove (rc_batch_id (re_receipt oldest)) (receipts st)\<rparr>)) (\<lambda>_.
     bindR (sync_directory (ev X) Receipts) (\<lambda>_.
     ok None))))))"

definition prune_receipts :: "ctx \<Rightarrow> unit spool_proc" where
  "prune_receipts X = loopR (\<lambda>s. Suc (length (receipts (state_of s)))) Io (prune_once X)"

section \<open>Acknowledgements\<close>

definition acknowledge :: "ctx \<Rightarrow> hub_ack_v1 \<Rightarrow> hub_ack_result_v1 spool_proc" where
  "acknowledge X a =
     bindR (failIf (a1_version a \<noteq> 1 \<or> \<not> valid_digest (a1_batch_id a)
        \<or> hash_set_len (a1_accepted_record_ids a) \<noteq> length (a1_accepted_record_ids a))
        InvalidAcknowledgement) (\<lambda>_.
     bindR (gets state_of) (\<lambda>st.
     case bt_get (receipts st) (a1_batch_id a) of
       Some prior \<Rightarrow>
         bindR (failIf (\<not> same_record_ids (rc_accepted_record_ids (re_receipt prior))
            (a1_accepted_record_ids a)) InvalidAcknowledgement) (\<lambda>_.
         bindR (complete_receipt X (re_receipt prior)) (\<lambda>_.
         ok (ack_result (re_receipt prior))))
     | None \<Rightarrow>
         bindR (failIf (v1_ack_history_pruned st) V1AcknowledgementHistoryPruned) (\<lambda>_.
         bindR (build_batch X) (\<lambda>delivered.
         bindR (failIf (bv1_batch_id delivered \<noteq> a1_batch_id a
            \<or> list_ex (\<lambda>r. r \<notin> set (map b1_record_id (bv1_records delivered)))
                 (a1_accepted_record_ids a)) InvalidAcknowledgement) (\<lambda>_.
         bindR (gets state_of) (\<lambda>st.
         bindR (lift_result (receipt_admissions_v1 st delivered a)) (\<lambda>admissions.
         bindR take_receipt_sequence (\<lambda>sequence.
         let receipt = \<lparr>rc_version = 1, rc_sequence = sequence, rc_batch_id = a1_batch_id a,
               rc_accepted_record_ids = a1_accepted_record_ids a, rc_accepted_stable_record_ids = [],
               rc_accepted_gap_notice_ids = [], rc_accepted_admissions = admissions\<rparr>
         in
         bindR (store_receipt X receipt) (\<lambda>_.
         bindR (complete_receipt X receipt) (\<lambda>_.
         bindR (prune_receipts X) (\<lambda>_.
         ok (ack_result receipt))))))))))))"

definition acknowledge_v2 :: "ctx \<Rightarrow> hub_ack_v2 \<Rightarrow> hub_ack_result_v2 spool_proc" where
  "acknowledge_v2 X a =
     bindR (failIf (a2_version a \<noteq> 2 \<or> \<not> valid_digest (a2_batch_id a)
        \<or> hash_set_len (a2_accepted_record_ids a) \<noteq> length (a2_accepted_record_ids a)
        \<or> hash_set_len (a2_accepted_gap_notice_ids a) \<noteq> length (a2_accepted_gap_notice_ids a))
        InvalidAcknowledgement) (\<lambda>_.
     bindR (gets state_of) (\<lambda>st.
     case bt_get (receipts st) (a2_batch_id a) of
       Some prior \<Rightarrow>
         bindR (failIf (rc_version (re_receipt prior) \<noteq> 2
            \<or> \<not> same_record_ids (rc_accepted_stable_record_ids (re_receipt prior))
                 (a2_accepted_record_ids a)
            \<or> \<not> same_record_ids (rc_accepted_gap_notice_ids (re_receipt prior))
                 (a2_accepted_gap_notice_ids a)) InvalidAcknowledgement) (\<lambda>_.
         bindR (complete_receipt X (re_receipt prior)) (\<lambda>_.
         ok (ack_result_v2 (re_receipt prior))))
     | None \<Rightarrow>
         bindR (build_batch_v2 X) (\<lambda>delivered.
         bindR (failIf (bv2_batch_id delivered \<noteq> a2_batch_id a
            \<or> list_ex (\<lambda>r. r \<notin> set (map b2_record_id (bv2_records delivered)))
                 (a2_accepted_record_ids a)
            \<or> list_ex (\<lambda>n. n \<notin> set (map gap_notice_id (bv2_gaps delivered)))
                 (a2_accepted_gap_notice_ids a)
            \<or> \<not> v2_ack_is_merged_prefix delivered a) InvalidAcknowledgement) (\<lambda>_.
         bindR (gets state_of) (\<lambda>st.
         bindR (lift_result (receipt_admissions_v2 st delivered a)) (\<lambda>admissions.
         bindR take_receipt_sequence (\<lambda>sequence.
         let receipt = \<lparr>rc_version = 2, rc_sequence = sequence, rc_batch_id = a2_batch_id a,
               rc_accepted_record_ids = [],
               rc_accepted_stable_record_ids = a2_accepted_record_ids a,
               rc_accepted_gap_notice_ids = a2_accepted_gap_notice_ids a,
               rc_accepted_admissions = admissions\<rparr>
         in
         bindR (store_receipt X receipt) (\<lambda>_.
         bindR (complete_receipt X receipt) (\<lambda>_.
         bindR (prune_receipts X) (\<lambda>_.
         ok (ack_result_v2 receipt)))))))))))"

section \<open>Snapshot and sync\<close>

definition oldest_age :: "spool_state \<Rightarrow> int \<Rightarrow> nat" where
  "oldest_age st now_ms = (case map e_admitted_at_ms (bt_values (entries st)) of
     [] \<Rightarrow> 0
   | t # ts \<Rightarrow> nat (max (sat_sub_i64 now_ms (foldl min t ts)) 0 div 1000))"

definition snapshot :: "ctx \<Rightarrow> int \<Rightarrow> spool \<Rightarrow> spool_snapshot" where
  "snapshot X now_ms s =
     (let st = state_of s;
          exhausted = (sat_add_u64 (length (entries st)) (length (gaps st)) \<ge> max_records (config X)
            \<or> pending_bytes st \<ge> max_bytes (config X) \<or> pending_gap_bytes st \<ge> max_bytes (config X))
      in \<lparr>ss_pending_records = length (entries st),
          ss_pending_bytes = pending_bytes st,
          ss_corrupt_records = corrupt_records st,
          ss_expired_records = expired_records st,
          ss_pending_gap_notices =
            sat_add_u64 (length (gaps st)) (length (counted_pending_expirations st)),
          ss_pending_gap_bytes = pending_gap_bytes st,
          ss_oldest_age_seconds = oldest_age st now_ms,
          ss_capacity_exhausted = exhausted,
          ss_degraded = (corrupt_records st > 0 \<or> gaps st \<noteq> []
            \<or> counted_pending_expirations st \<noteq> [] \<or> unresolved_integrity st
            \<or> storage_write_failed s \<or> exhausted)\<rparr>)"

definition spool_sync :: "ctx \<Rightarrow> unit spool_proc" where
  "spool_sync X = for_each [Pending, Tmp, Quarantine, Receipts, Gaps, Root] (sync_directory (ev X))"

end
