(* ===== verification/Spool_Recovery.thy ===== *)
theory Spool_Recovery
  imports Spool_Batch
begin

text \<open>
  spool.rs, opening a spool: the format marker, the recovery of gaps, pending records,
  sequence state and receipts from the disk, migration of version 1 records, and
  \<open>Spool::open\<close> itself. File names are taken to be valid UTF-8, and the spool
  directories exist once \<open>create_dir_all\<close> returned.
\<close>

section \<open>Directory entries\<close>

text \<open>\<open>Path::extension\<close>: what follows the last dot, unless that dot starts the name.\<close>

definition path_extension :: "string \<Rightarrow> string option" where
  "path_extension name =
     (if CHR ''.'' \<notin> set name then None
      else let ext = rev (takeWhile (\<lambda>c. c \<noteq> CHR ''.'') (rev name))
           in if length ext + 1 = length name then None else Some ext)"

text \<open>One entry of a listing: reading it, its type and its metadata are fallible calls.\<close>

definition dir_entry :: "ctx \<Rightarrow> spool_dir path \<Rightarrow> node spool_proc" where
  "dir_entry X p = map_err map_io_error (bindR (os_call (ev X)) (\<lambda>_. fs_metadata (ev X) p))"

definition bump_corrupt :: "unit spool_proc" where
  "bump_corrupt = upd_state (\<lambda>st. st\<lparr>corrupt_records := sat_add_u64 (corrupt_records st) 1\<rparr>)"

definition read_dir :: "ctx \<Rightarrow> spool_dir \<Rightarrow> string list spool_proc" where
  "read_dir X d = map_err map_io_error (fs_read_dir (ev X) d)"

section \<open>Gaps\<close>

definition recover_gap :: "ctx \<Rightarrow> string \<Rightarrow> unit spool_proc" where
  "recover_gap X name =
     bindR (dir_entry X (Gaps, name)) (\<lambda>node.
     bindR (if is_file node \<and> path_extension name = Some ''tleg''
        then map_err map_io_error (os_call (ev X)) else ok ()) (\<lambda>_.
     bindR (failIf (\<not> (is_file node \<and> path_extension name = Some ''tleg''
        \<and> node_len node \<le> MAX_ENCRYPTED_GAP_BYTES)) CorruptRecord) (\<lambda>_.
     bindR (map_err map_io_error (fs_read (ev X) (Gaps, name))) (\<lambda>encrypted.
     bindR (spool_decrypt X encrypted) (\<lambda>plaintext.
     bindR (ok_or (json_from_slice (lib X) dec_gap_notice plaintext) CorruptRecord) (\<lambda>notice.
     bindR (ok_or (u64_try_from (length encrypted)) CapacityExceeded) (\<lambda>encrypted_bytes.
     bindR (gets state_of) (\<lambda>st.
     bindR (failIf (\<not> valid_gap_notice (lib X) notice
        \<or> name \<noteq> gap_file_name (gap_spool_seq notice) (gap_notice_id notice)
        \<or> bt_contains (gaps st) (gap_notice_id notice)
        \<or> list_ex (\<lambda>g. gap_spool_seq (g_notice g) = gap_spool_seq notice) (bt_values (gaps st)))
        CorruptRecord) (\<lambda>_.
     bindR (failIf (length (gaps st) \<ge> max_records (config X)
        \<or> sat_add_u64 (pending_gap_bytes st) encrypted_bytes > max_bytes (config X))
        CapacityExceeded) (\<lambda>_.
     upd_state (insert_gap notice encrypted_bytes (Gaps, name))))))))))))"

definition recover_gaps :: "ctx \<Rightarrow> unit spool_proc" where
  "recover_gaps X = bindR (read_dir X Gaps) (\<lambda>names. for_each names (recover_gap X))"

section \<open>Pending records\<close>

definition quarantine_recovered_pending :: "ctx \<Rightarrow> string \<Rightarrow> int \<Rightarrow> unit spool_proc" where
  "quarantine_recovered_pending X name now_ms =
     (case parse_v2_pending_file_name name of
        None \<Rightarrow> fail CorruptRecord
      | Some (seq, r) \<Rightarrow>
          bindR (matchR (fs_metadata (ev X) (Pending, name)) (\<lambda>n. ok (node_len n)) (\<lambda>_. ok 0)) (\<lambda>n.
          bindR (persist_gap_locked X \<lparr>e_record_id = r, e_stable_record_id = r, e_spool_seq = seq,
             e_admitted_at_ms = now_ms, e_expires_at_ms = now_ms, e_encrypted_bytes = n,
             e_path = (Pending, name)\<rparr> now_ms IntegrityQuarantine) (\<lambda>_.
          bindR (quarantine_file_bounded X (Pending, name)) (\<lambda>_.
          bump_corrupt))))"

type_synonym recovered = "stored_record \<times> spool_dir path \<times> nat"

text \<open>The body of the loop over the pending directory.\<close>

definition recover_pending_file ::
  "ctx \<Rightarrow> int \<Rightarrow> recovered list \<Rightarrow> string \<Rightarrow> recovered list spool_proc" where
  "recover_pending_file X now_ms found name =
     (let skip = bindR (quarantine_recovered_pending X name now_ms) (\<lambda>_. ok found) in
     bindR (dir_entry X (Pending, name)) (\<lambda>node.
     if \<not> is_file node \<or> path_extension name \<noteq> Some ''tles'' then skip
     else
     bindR (map_err map_io_error (fs_metadata (ev X) (Pending, name))) (\<lambda>metadata.
     if node_len metadata > MAX_ENCRYPTED_RECORD_BYTES then skip
     else
     bindR (map_err map_io_error (fs_read (ev X) (Pending, name))) (\<lambda>encrypted.
     case decrypt (lib X) (spool_key X) encrypted of
       Inl KeyMismatch \<Rightarrow> fail SpoolKeyMismatch
     | Inl InvalidCiphertext \<Rightarrow> skip
     | Inr plaintext \<Rightarrow>
         (case json_from_slice (lib X) dec_stored_record plaintext of
            None \<Rightarrow> skip
          | Some stored \<Rightarrow>
              if \<not> valid_stored_record (lib X) stored
                 \<or> \<not> ends_with (''-'' @ sr_record_id stored @ PENDING_SUFFIX) name then skip
              else bindR (ok_or (u64_try_from (length encrypted)) CapacityExceeded) (\<lambda>n.
                ok (found @ [(stored, (Pending, name), n)])))))))"

definition sort_recovered :: "recovered list \<Rightarrow> recovered list" where
  "sort_recovered = sort_key (\<lambda>(r, _, _). (sr_admitted_at_ms r, sr_record_id r))"

definition max_of :: "nat list \<Rightarrow> nat" where
  "max_of xs = foldl max 0 xs"

definition migration_start :: "recovered list \<Rightarrow> spool_state \<Rightarrow> nat option" where
  "migration_start rs st = checked_add_u64
     (max (max_of (List.map_filter (\<lambda>(r, _, _). sr_spool_seq r) rs))
       (max_of (map (\<lambda>g. gap_spool_seq (g_notice g)) (bt_values (gaps st))))) 1"

text \<open>
  A version 1 record gets a sequence number and is rewritten in place. Returns the
  record, its size and the next migration number.
\<close>

definition migrate_record :: "ctx \<Rightarrow> nat \<Rightarrow> recovered \<Rightarrow> (stored_record \<times> nat \<times> nat) spool_proc" where
  "migrate_record X next_seq r = (case r of (stored, p, n) \<Rightarrow>
     if sr_version stored \<noteq> 1 then ok (stored, n, next_seq)
     else
     bindR (ok_or (checked_add_u64 next_seq 1) InvalidConfig) (\<lambda>next_seq'.
     let stored' = stored\<lparr>sr_version := 2,
           sr_stable_record_id := Some (stable_record_id (lib X) (sr_envelope stored)),
           sr_spool_seq := Some next_seq\<rparr>
     in
     bindR (ok_or (json_to_vec (lib X) (enc_stored_record stored')) Serialization) (\<lambda>plaintext.
     bindR (spool_encrypt X plaintext) (\<lambda>encrypted.
     bindR (temporary_path X) (\<lambda>temporary.
     bindR (spool_write_atomic X temporary p encrypted) (\<lambda>_.
     bindR (ok_or (u64_try_from (length encrypted)) CapacityExceeded) (\<lambda>n'.
     ok (stored', n', next_seq'))))))))"

definition index_entry :: "entry \<Rightarrow> spool_state \<Rightarrow> spool_state" where
  "index_entry e st = st\<lparr>
     pending_bytes := sat_add_u64 (pending_bytes st) (e_encrypted_bytes e),
     stable_index := bt_insert (e_stable_record_id e) (e_record_id e) (stable_index st),
     entries := bt_insert (e_record_id e) e (entries st)\<rparr>"

definition canonical_rename :: "ctx \<Rightarrow> spool_dir path \<Rightarrow> spool_dir path \<Rightarrow> unit spool_proc" where
  "canonical_rename X p canonical =
     (if p = canonical then ok ()
      else bindR (path_exists X canonical) (\<lambda>present.
           bindR (failIf present CapacityExceeded) (\<lambda>_.
           bindR (map_err map_io_error (fs_rename (ev X) p canonical)) (\<lambda>_.
           sync_directory (ev X) Pending))))"

definition admit_recovered :: "ctx \<Rightarrow> nat \<Rightarrow> recovered \<Rightarrow> nat spool_proc" where
  "admit_recovered X next_seq r =
     bindR (migrate_record X next_seq r) (\<lambda>(stored, n, next_seq').
     let p = fst (snd r) in
     bindR (ok_or (sr_stable_record_id stored) CorruptRecord) (\<lambda>sid.
     bindR (ok_or (sr_spool_seq stored) CorruptRecord) (\<lambda>seq.
     bindR (gets state_of) (\<lambda>st.
     if list_ex (\<lambda>g. gap_spool_seq (g_notice g) = seq) (bt_values (gaps st))
     then bindR (quarantine_file_bounded X p) (\<lambda>_. bindR bump_corrupt (\<lambda>_. ok next_seq'))
     else
     let canonical = (Pending, pending_file_name seq (sr_record_id stored)) in
     bindR (canonical_rename X p canonical) (\<lambda>_.
     bindR (failIf (bt_contains (entries st) (sr_record_id stored)
        \<or> bt_contains (stable_index st) sid
        \<or> list_ex (\<lambda>e. e_spool_seq e = seq) (bt_values (entries st))
        \<or> length (entries st) \<ge> max_records (config X)
        \<or> sat_add_u64 (pending_bytes st) n > max_bytes (config X)) CapacityExceeded) (\<lambda>_.
     bindR (upd_state (index_entry \<lparr>e_record_id = sr_record_id stored, e_stable_record_id = sid,
        e_spool_seq = seq, e_admitted_at_ms = sr_admitted_at_ms stored,
        e_expires_at_ms = sr_expires_at_ms stored, e_encrypted_bytes = n, e_path = canonical\<rparr>)) (\<lambda>_.
     ok next_seq')))))))"

definition recover_pending :: "ctx \<Rightarrow> int \<Rightarrow> unit spool_proc" where
  "recover_pending X now_ms =
     bindR (read_dir X Pending) (\<lambda>names.
     bindR (for_fold names [] (recover_pending_file X now_ms)) (\<lambda>found.
     bindR (gets state_of) (\<lambda>st.
     bindR (ok_or (migration_start found st) InvalidConfig) (\<lambda>start.
     bindR (for_fold (sort_recovered found) start (admit_recovered X)) (\<lambda>_.
     ok ())))))"

section \<open>Sequence state\<close>

definition valid_sequence_state :: "sequence_state \<Rightarrow> bool" where
  "valid_sequence_state q \<longleftrightarrow>
     \<not> (sq_version q \<noteq> 1 \<or> sq_next_spool_sequence q = 0
        \<or> length (sq_counted_pending_expirations q) > 1000000
        \<or> list_ex (\<lambda>k. k = 0 \<or> k \<ge> sq_next_spool_sequence q) (bt_keys (sq_counted_pending_expirations q)))"

definition recover_sequence_state :: "ctx \<Rightarrow> sequence_state option spool_proc" where
  "recover_sequence_state X =
     matchR (fs_metadata (ev X) (Root, SEQUENCE_STATE_FILE))
       (\<lambda>metadata.
          bindR (failIf (\<not> is_file metadata \<or> node_len metadata > MAX_ENCRYPTED_SEQUENCE_STATE_BYTES)
             CorruptRecord) (\<lambda>_.
          bindR (map_err map_io_error (fs_read (ev X) (Root, SEQUENCE_STATE_FILE))) (\<lambda>encrypted.
          bindR (spool_decrypt X encrypted) (\<lambda>plaintext.
          bindR (ok_or (json_from_slice (lib X) (dec_sequence_state (lib X)) plaintext) CorruptRecord) (\<lambda>q.
          bindR (failIf (\<not> valid_sequence_state q) CorruptRecord) (\<lambda>_.
          ok (Some q)))))))
       (\<lambda>e. if e = NotFound then ok None else fail (map_io_error e))"

definition expired_gap_count :: "spool_state \<Rightarrow> nat" where
  "expired_gap_count st =
     length (filter (\<lambda>g. gap_reason (g_notice g) = RetentionExpired) (bt_values (gaps st)))"

text \<open>Counters from the sequence file, or from the gaps where there is none.\<close>

definition apply_sequence_state ::
  "sequence_state option \<Rightarrow> nat \<Rightarrow> nat \<Rightarrow> spool_state \<Rightarrow> spool_state" where
  "apply_sequence_state q records_next gaps_next st = st\<lparr>
     expired_records := (case q of None \<Rightarrow> expired_gap_count st | Some v \<Rightarrow> sq_expired_records_total v),
     v1_ack_history_pruned := (v1_ack_history_pruned st
       \<or> (case q of None \<Rightarrow> False | Some v \<Rightarrow> sq_v1_ack_history_pruned v)),
     counted_pending_expirations := (case q of None \<Rightarrow> [] | Some v \<Rightarrow> sq_counted_pending_expirations v),
     next_spool_sequence :=
       max (max (case q of None \<Rightarrow> 1 | Some v \<Rightarrow> sq_next_spool_sequence v) records_next) gaps_next\<rparr>"

definition recover_counters :: "ctx \<Rightarrow> unit spool_proc" where
  "recover_counters X =
     bindR (recover_sequence_state X) (\<lambda>q.
     bindR (gets state_of) (\<lambda>st.
     bindR (ok_or (checked_add_u64 (max_of (map e_spool_seq (bt_values (entries st)))) 1) InvalidConfig)
       (\<lambda>records_next.
     bindR (ok_or (checked_add_u64
        (max_of (map (\<lambda>g. gap_spool_seq (g_notice g)) (bt_values (gaps st)))) 1) InvalidConfig)
       (\<lambda>gaps_next.
     bindR (upd_state (apply_sequence_state q records_next gaps_next)) (\<lambda>_.
     bindR (gets state_of) (\<lambda>st.
     failIf (list_ex (\<lambda>e. case bt_get (counted_pending_expirations st) (e_spool_seq e) of
          None \<Rightarrow> False | Some identity \<Rightarrow> identity \<noteq> e_stable_record_id e) (bt_values (entries st)))
       CorruptRecord))))))"

section \<open>Receipts\<close>

definition valid_version_shape :: "ack_receipt \<Rightarrow> bool" where
  "valid_version_shape r =
     (if rc_version r = 1 then rc_accepted_stable_record_ids r = [] \<and> rc_accepted_gap_notice_ids r = []
      else if rc_version r = 2 then rc_accepted_record_ids r = []
      else False)"

definition valid_admission_shape :: "ack_receipt \<Rightarrow> bool" where
  "valid_admission_shape r \<longleftrightarrow>
     list_all (\<lambda>a. ra_spool_seq a > 0) (rc_accepted_admissions r) \<and>
     (if rc_version r = 1 then
        length (rc_accepted_admissions r) = length (rc_accepted_record_ids r)
        \<and> set (map ra_legacy_record_id (rc_accepted_admissions r)) = set (rc_accepted_record_ids r)
      else if rc_version r = 2 then
        length (rc_accepted_admissions r) = length (rc_accepted_stable_record_ids r)
        \<and> set (map ra_stable_record_id (rc_accepted_admissions r)) = set (rc_accepted_stable_record_ids r)
      else False)"

definition valid_receipt :: "ack_receipt \<Rightarrow> string \<Rightarrow> spool_state \<Rightarrow> bool" where
  "valid_receipt r name st \<longleftrightarrow>
     \<not> (\<not> valid_version_shape r \<or> \<not> valid_admission_shape r \<or> \<not> valid_digest (rc_batch_id r)
        \<or> length (rc_accepted_record_ids r) > 256
        \<or> length (rc_accepted_stable_record_ids r) > 256
        \<or> length (rc_accepted_gap_notice_ids r) > 256
        \<or> rc_sequence r = u64_max
        \<or> hash_set_len (rc_accepted_record_ids r) \<noteq> length (rc_accepted_record_ids r)
        \<or> hash_set_len (rc_accepted_stable_record_ids r) \<noteq> length (rc_accepted_stable_record_ids r)
        \<or> hash_set_len (rc_accepted_gap_notice_ids r) \<noteq> length (rc_accepted_gap_notice_ids r)
        \<or> hash_set_len (rc_accepted_admissions r) \<noteq> length (rc_accepted_admissions r)
        \<or> name \<noteq> receipt_file_name (rc_sequence r) (rc_batch_id r)
        \<or> bt_contains (receipts st) (rc_batch_id r))"

definition index_receipt :: "ack_receipt \<Rightarrow> spool_dir path \<Rightarrow> spool_state \<Rightarrow> spool_state" where
  "index_receipt r p st = st\<lparr>
     next_receipt_sequence := max (next_receipt_sequence st) (sat_add_u64 (rc_sequence r) 1),
     receipts := bt_insert (rc_batch_id r) \<lparr>re_receipt = r, re_path = p\<rparr> (receipts st)\<rparr>"

definition recover_receipt_file :: "ctx \<Rightarrow> string \<Rightarrow> unit spool_proc" where
  "recover_receipt_file X name =
     (let skip = bindR (quarantine_file_bounded X (Receipts, name)) (\<lambda>_. bump_corrupt) in
     bindR (dir_entry X (Receipts, name)) (\<lambda>node.
     if \<not> is_file node \<or> path_extension name \<noteq> Some ''tlea'' then skip
     else
     bindR (map_err map_io_error (fs_metadata (ev X) (Receipts, name))) (\<lambda>metadata.
     if node_len metadata > MAX_ENCRYPTED_RECEIPT_BYTES then skip
     else
     bindR (map_err map_io_error (fs_read (ev X) (Receipts, name))) (\<lambda>encrypted.
     case decrypt (lib X) (spool_key X) encrypted of
       Inl KeyMismatch \<Rightarrow> fail SpoolKeyMismatch
     | Inl InvalidCiphertext \<Rightarrow> skip
     | Inr plaintext \<Rightarrow>
         (case json_from_slice (lib X) dec_receipt plaintext of
            None \<Rightarrow> skip
          | Some r \<Rightarrow>
              bindR (gets state_of) (\<lambda>st.
              if \<not> valid_receipt r name st then skip
              else upd_state (index_receipt r (Receipts, name))))))))"

definition recover_receipts :: "ctx \<Rightarrow> unit spool_proc" where
  "recover_receipts X =
     bindR (read_dir X Receipts) (\<lambda>names.
     bindR (for_each names (recover_receipt_file X)) (\<lambda>_.
     bindR (gets state_of) (\<lambda>st.
     bindR (for_fold (map re_receipt (bt_values (receipts st))) (False, False)
        (\<lambda>fl r. complete_removals X r fl)) (\<lambda>(removed_pending, removed_gaps).
     bindR (if removed_pending then sync_directory (ev X) Pending else ok ()) (\<lambda>_.
     if removed_gaps then sync_directory (ev X) Gaps else ok ())))))"

section \<open>Recovery\<close>

definition recover_prepare :: "ctx \<Rightarrow> unit spool_proc" where
  "recover_prepare X =
     bindR (ensure_quarantine_capacity X 0 False) (\<lambda>_.
     bindR (read_dir X Quarantine) (\<lambda>names.
     bindR (for_each names (\<lambda>_. bindR (map_err map_io_error (os_call (ev X))) (\<lambda>_. bump_corrupt))) (\<lambda>_.
     bindR (read_dir X Tmp) (\<lambda>names.
     bindR (map_err map_io_error (os_call (ev X))) (\<lambda>_.
     failIf (names \<noteq> []) CorruptRecord)))))"

definition pending_sequences :: "spool_state \<Rightarrow> nat list" where
  "pending_sequences st = map e_spool_seq (bt_values (entries st))"

text \<open>A counted expiry without its record needs its gap or an acknowledgement of it.\<close>

definition counted_explained :: "crates \<Rightarrow> spool_state \<Rightarrow> nat \<times> rid \<Rightarrow> bool" where
  "counted_explained C st p =
     (fst p \<in> set (pending_sequences st)
      \<or> (let notice_id = gap_notice_id (gap_notice_for_identity C (fst p) (snd p) 0 RetentionExpired)
         in bt_contains (gaps st) notice_id
            \<or> list_ex (\<lambda>r. notice_id \<in> set (rc_accepted_gap_notice_ids (re_receipt r)))
                 (bt_values (receipts st))))"

definition recover_finish :: "ctx \<Rightarrow> int \<Rightarrow> unit spool_proc" where
  "recover_finish X now_ms =
     bindR (gets state_of) (\<lambda>st.
     bindR (failIf (\<not> list_all (counted_explained (lib X) st) (counted_pending_expirations st))
        CorruptRecord) (\<lambda>_.
     bindR (upd_state (\<lambda>st. st\<lparr>counted_pending_expirations :=
        filter (\<lambda>p. fst p \<in> set (pending_sequences st)) (counted_pending_expirations st)\<rparr>)) (\<lambda>_.
     bindR (persist_current X) (\<lambda>_.
     bindR (expire_due X now_ms) (\<lambda>_.
     prune_receipts X)))))"

definition recover :: "ctx \<Rightarrow> int \<Rightarrow> unit spool_proc" where
  "recover X now_ms =
     bindR (recover_prepare X) (\<lambda>_.
     bindR (recover_gaps X) (\<lambda>_.
     bindR (recover_pending X now_ms) (\<lambda>_.
     bindR (recover_counters X) (\<lambda>_.
     bindR (recover_receipts X) (\<lambda>_.
     recover_finish X now_ms)))))"

section \<open>Format marker and opening\<close>

definition marker_bytes :: "nat \<Rightarrow> bytes" where
  "marker_bytes version = dec_digits version @ [CHR 0x0A]"

definition read_spool_format_marker :: "ctx \<Rightarrow> spool_format spool_proc" where
  "read_spool_format_marker X =
     matchR (fs_metadata (ev X) (Root, FORMAT_MARKER_FILE))
       (\<lambda>metadata.
          bindR (failIf (\<not> is_file metadata \<or> node_len metadata > MAX_FORMAT_MARKER_BYTES)
             CorruptRecord) (\<lambda>_.
          bindR (map_err map_io_error (fs_read (ev X) (Root, FORMAT_MARKER_FILE))) (\<lambda>contents.
          if contents = marker_bytes SPOOL_FORMAT_VERSION then ok Current
          else if contents = marker_bytes 3 then ok AdmissionIdentity
          else if contents = marker_bytes PREVIOUS_SPOOL_FORMAT_VERSION then ok Previous
          else fail CorruptRecord)))
       (\<lambda>e. if e = NotFound then ok Fresh else fail (map_io_error e))"

definition reject_ambiguous_previous_receipts :: "ctx \<Rightarrow> unit spool_proc" where
  "reject_ambiguous_previous_receipts X =
     bindR (read_dir X Receipts) (\<lambda>names.
     bindR (map_err map_io_error (os_call (ev X))) (\<lambda>_.
     failIf (names \<noteq> []) ReceiptRecoveryRequired))"

definition write_current_spool_format_marker :: "ctx \<Rightarrow> spool_format \<Rightarrow> unit spool_proc" where
  "write_current_spool_format_marker X previous_format =
     bindR (temporary_path X) (\<lambda>temporary.
     if previous_format = Current then ok ()
     else write_atomic (ev X) temporary (Root, FORMAT_MARKER_FILE) (marker_bytes SPOOL_FORMAT_VERSION))"

text \<open>
  The advisory lock: another holder is the parameter \<open>lock_held\<close>. The lock file
  itself is never read and is not part of the modelled root directory.
\<close>

definition acquire_spool_lock :: "ctx \<Rightarrow> bool \<Rightarrow> unit spool_proc" where
  "acquire_spool_lock X lock_held =
     bindR (map_err map_io_error (os_call (ev X))) (\<lambda>_.
     bindR (map_err map_io_error (os_call (ev X))) (\<lambda>_.
     bindR (failIf lock_held AlreadyOpen) (\<lambda>_.
     bindR (map_err map_io_error (os_call (ev X))) (\<lambda>_.
     map_err map_io_error (os_call (ev X))))))"

definition create_directories :: "ctx \<Rightarrow> unit spool_proc" where
  "create_directories X = for_each [Root, Pending, Tmp, Quarantine, Receipts, Gaps]
     (\<lambda>_. map_err map_io_error (bindR (os_call (ev X)) (\<lambda>_. os_call (ev X))))"

text \<open>
  \<open>Spool::open\<close> on the disk of the given handle: the in-memory state starts empty
  and the latch is clear.
\<close>

definition spool_open :: "ctx \<Rightarrow> bool \<Rightarrow> int \<Rightarrow> unit spool_proc" where
  "spool_open X lock_held now_ms =
     bindR (lift_result (validate_config (config X))) (\<lambda>_.
     bindR (acquire_spool_lock X lock_held) (\<lambda>_.
     bindR (create_directories X) (\<lambda>_.
     bindR (read_spool_format_marker X) (\<lambda>spool_format.
     bindR (if spool_format = Previous then reject_ambiguous_previous_receipts X else ok ()) (\<lambda>_.
     bindR (modify (\<lambda>s. s\<lparr>state_of := default_state\<lparr>v1_ack_history_pruned :=
        (spool_format = Previous)\<rparr>, storage_write_failed := False\<rparr>)) (\<lambda>_.
     bindR (if spool_format = Current \<or> spool_format = AdmissionIdentity
        then bindR (recover_sequence_state X) (\<lambda>q. bindR (ok_or q SequenceStateMissing) (\<lambda>_. ok ()))
        else ok ()) (\<lambda>_.
     bindR (recover X now_ms) (\<lambda>_.
     if spool_format \<noteq> Current then write_current_spool_format_marker X spool_format else ok ()))))))))"

end
