(* ===== verification/Spool_Inv.thy ===== *)
theory Spool_Inv
  imports Spool_Recovery
begin

text \<open>
  The invariant of the in-memory spool state: every map is ordered and keyed by its
  values, the stable index is the inverse of the entries, sequence numbers name one entry
  and one gap, the byte counters are the sums they stand for and stay within the
  configured bounds. Every single state update is shown to keep it, and the sequence
  numbers in custody (\<open>live_seqs\<close>) are followed through each.
\<close>

section \<open>The invariant\<close>

definition maps_ok :: "spool_state \<Rightarrow> bool" where
  "maps_ok st \<longleftrightarrow> bt_ok (entries st) \<and> bt_ok (stable_index st) \<and> bt_ok (gaps st)
     \<and> bt_ok (receipts st) \<and> bt_ok (counted_pending_expirations st)"

definition entry_ok :: "spool_state \<Rightarrow> rid \<Rightarrow> entry \<Rightarrow> bool" where
  "entry_ok st k e \<longleftrightarrow> e_record_id e = k \<and> bt_get (stable_index st) (e_stable_record_id e) = Some k
     \<and> 0 < e_spool_seq e \<and> e_path e = (Pending, pending_file_name (e_spool_seq e) k)"

definition entries_inv :: "spool_state \<Rightarrow> bool" where
  "entries_inv st \<longleftrightarrow>
     (\<forall>k e. bt_get (entries st) k = Some e \<longrightarrow> entry_ok st k e) \<and>
     (\<forall>sid k. bt_get (stable_index st) sid = Some k \<longrightarrow>
        (\<exists>e. bt_get (entries st) k = Some e \<and> e_stable_record_id e = sid)) \<and>
     (\<forall>k e k' e'. bt_get (entries st) k = Some e \<longrightarrow> bt_get (entries st) k' = Some e' \<longrightarrow>
        e_spool_seq e = e_spool_seq e' \<longrightarrow> k = k')"

definition gap_ok :: "crates \<Rightarrow> rid \<Rightarrow> gap_entry \<Rightarrow> bool" where
  "gap_ok C k g \<longleftrightarrow> gap_notice_id (g_notice g) = k \<and> valid_gap_notice C (g_notice g)
     \<and> g_path g = (Gaps, gap_file_name (gap_spool_seq (g_notice g)) k)"

text \<open>A gap that shares its sequence number with an entry was derived from that entry.\<close>

definition gap_of_entry :: "crates \<Rightarrow> gap_notice_v2 \<Rightarrow> entry \<Rightarrow> bool" where
  "gap_of_entry C n e \<longleftrightarrow> gap_notice_id n = gap_notice_id (gap_notice C e 0 (gap_reason n))"

definition gaps_inv :: "crates \<Rightarrow> spool_state \<Rightarrow> bool" where
  "gaps_inv C st \<longleftrightarrow>
     (\<forall>k g. bt_get (gaps st) k = Some g \<longrightarrow> gap_ok C k g) \<and>
     (\<forall>k g k' g'. bt_get (gaps st) k = Some g \<longrightarrow> bt_get (gaps st) k' = Some g' \<longrightarrow>
        gap_spool_seq (g_notice g) = gap_spool_seq (g_notice g') \<longrightarrow> k = k') \<and>
     (\<forall>k g k' e. bt_get (gaps st) k = Some g \<longrightarrow> bt_get (entries st) k' = Some e \<longrightarrow>
        gap_spool_seq (g_notice g) = e_spool_seq e \<longrightarrow> gap_of_entry C (g_notice g) e)"

definition bounds_inv :: "spool_config \<Rightarrow> spool_state \<Rightarrow> bool" where
  "bounds_inv c st \<longleftrightarrow>
     pending_bytes st = bt_total e_encrypted_bytes (entries st) \<and> pending_bytes st \<le> max_bytes c \<and>
     pending_gap_bytes st = bt_total g_encrypted_bytes (gaps st) \<and> pending_gap_bytes st \<le> max_bytes c \<and>
     length (entries st) \<le> max_records c \<and> length (gaps st) \<le> max_records c"

definition receipts_inv :: "spool_state \<Rightarrow> bool" where
  "receipts_inv st \<longleftrightarrow> (\<forall>k r. bt_get (receipts st) k = Some r \<longrightarrow>
     rc_batch_id (re_receipt r) = k \<and> rc_sequence (re_receipt r) < next_receipt_sequence st
     \<and> re_path r = (Receipts, receipt_file_name (rc_sequence (re_receipt r)) k))"

definition base_inv :: "ctx \<Rightarrow> spool_state \<Rightarrow> bool" where
  "base_inv X st \<longleftrightarrow> maps_ok st \<and> entries_inv st \<and> gaps_inv (lib X) st
     \<and> bounds_inv (config X) st \<and> receipts_inv st"

text \<open>The sequence numbers in custody, as records or as gap notices.\<close>

definition live_seqs :: "spool_state \<Rightarrow> nat set" where
  "live_seqs st = e_spool_seq ` set (bt_values (entries st))
     \<union> (\<lambda>g. gap_spool_seq (g_notice g)) ` set (bt_values (gaps st))"

definition state_inv :: "ctx \<Rightarrow> spool_state \<Rightarrow> bool" where
  "state_inv X st \<longleftrightarrow> base_inv X st \<and> (\<forall>q \<in> live_seqs st. q < next_spool_sequence st)
     \<and> 0 < next_spool_sequence st"

text \<open>The limits of the integer types of the configuration, and the digest laws.\<close>

definition ctx_ok :: "ctx \<Rightarrow> bool" where
  "ctx_ok X \<longleftrightarrow> max_bytes (config X) < u64_max \<and> max_records (config X) \<le> u64_max
     \<and> digest_laws (lib X)"

lemmas inv_defs = maps_ok_def entries_inv_def gaps_inv_def bounds_inv_def receipts_inv_def

lemma live_seqs_iff:
  assumes "maps_ok st"
  shows "q \<in> live_seqs st \<longleftrightarrow> (\<exists>k e. bt_get (entries st) k = Some e \<and> e_spool_seq e = q)
    \<or> (\<exists>k g. bt_get (gaps st) k = Some g \<and> gap_spool_seq (g_notice g) = q)"
proof -
  from assms have "set (bt_values (entries st)) = {e. \<exists>k. bt_get (entries st) k = Some e}"
    "set (bt_values (gaps st)) = {g. \<exists>k. bt_get (gaps st) k = Some g}"
    by (auto simp: maps_ok_def bt_values_iff)
  then show ?thesis by (auto simp: live_seqs_def)
qed

lemma live_seqs_cong:
  "entries st' = entries st \<Longrightarrow> gaps st' = gaps st \<Longrightarrow> live_seqs st' = live_seqs st"
  by (simp add: live_seqs_def)

lemma base_inv_default: "base_inv X (default_state\<lparr>v1_ack_history_pruned := b\<rparr>)"
  by (simp add: base_inv_def inv_defs default_state_def)

text \<open>Updates of fields the invariant does not read.\<close>

lemma base_inv_cong:
  assumes "entries st' = entries st" "stable_index st' = stable_index st" "gaps st' = gaps st"
    "receipts st' = receipts st" "bt_ok (counted_pending_expirations st')"
    "pending_bytes st' = pending_bytes st" "pending_gap_bytes st' = pending_gap_bytes st"
    "next_receipt_sequence st \<le> next_receipt_sequence st'" "base_inv X st"
  shows "base_inv X st'"
  using assms by (fastforce simp: base_inv_def inv_defs entry_ok_def intro: order.strict_trans2)

section \<open>Entries\<close>

lemma entry_get:
  assumes "base_inv X st" "e \<in> set (bt_values (entries st))"
  shows "bt_get (entries st) (e_record_id e) = Some e"
  using assms by (auto simp: base_inv_def maps_ok_def bt_values_iff entries_inv_def entry_ok_def)

lemma gap_get:
  assumes "base_inv X st" "g \<in> set (bt_values (gaps st))"
  shows "bt_get (gaps st) (gap_notice_id (g_notice g)) = Some g"
  using assms by (auto simp: base_inv_def maps_ok_def bt_values_iff gaps_inv_def gap_ok_def)

lemma maps_drop: "maps_ok st \<Longrightarrow> maps_ok (drop_entry e st)"
  by (simp add: maps_ok_def drop_entry_def)

lemma base_inv_drop_entry:
  assumes inv: "base_inv X st" and e: "bt_get (entries st) (e_record_id e) = Some e"
  shows "base_inv X (drop_entry e st)"
proof -
  from inv have ei: "entries_inv st" and m: "maps_ok st" and b: "bounds_inv (config X) st"
    by (simp_all add: base_inv_def)
  have k: "e_record_id e' = k" "bt_get (stable_index st) (e_stable_record_id e') = Some k"
    if "bt_get (entries st) k = Some e'" for k e'
    using ei that by (auto simp: entries_inv_def entry_ok_def)
  have uniq: "k = e_record_id e" if "bt_get (entries st) k = Some e'"
    "e_stable_record_id e' = e_stable_record_id e" for k e'
    using k [OF that(1)] k [OF e] that(2) by simp
  have "entries_inv (drop_entry e st)"
    unfolding entries_inv_def
  proof (intro conjI allI impI)
    fix j e' assume a: "bt_get (entries (drop_entry e st)) j = Some e'"
    then have a': "j \<noteq> e_record_id e" "bt_get (entries st) j = Some e'"
      by (auto simp: drop_entry_def split: if_splits)
    with uniq have "e_stable_record_id e' \<noteq> e_stable_record_id e" by blast
    moreover have "entry_ok st j e'" using ei a'(2) by (simp add: entries_inv_def)
    ultimately show "entry_ok (drop_entry e st) j e'" by (simp add: entry_ok_def drop_entry_def)
  next
    fix sid j assume a: "bt_get (stable_index (drop_entry e st)) sid = Some j"
    then have a': "sid \<noteq> e_stable_record_id e" "bt_get (stable_index st) sid = Some j"
      by (auto simp: drop_entry_def split: if_splits)
    then obtain e' where e': "bt_get (entries st) j = Some e'" "e_stable_record_id e' = sid"
      using ei unfolding entries_inv_def by blast
    with a' e have "j \<noteq> e_record_id e" by auto
    with e' show "\<exists>e'. bt_get (entries (drop_entry e st)) j = Some e' \<and> e_stable_record_id e' = sid"
      by (simp add: drop_entry_def)
  next
    fix j e1 j' e2
    assume "bt_get (entries (drop_entry e st)) j = Some e1" "bt_get (entries (drop_entry e st)) j' = Some e2"
      "e_spool_seq e1 = e_spool_seq e2"
    then have "bt_get (entries st) j = Some e1" "bt_get (entries st) j' = Some e2"
      by (auto simp: drop_entry_def split: if_splits)
    then show "j = j'" using ei \<open>e_spool_seq e1 = e_spool_seq e2\<close> unfolding entries_inv_def by blast
  qed
  moreover have "gaps_inv (lib X) (drop_entry e st)"
    using inv by (fastforce simp: base_inv_def gaps_inv_def drop_entry_def split: if_splits)
  moreover have "bounds_inv (config X) (drop_entry e st)"
    using b bt_total_remove [of "entries st" "e_record_id e" e e_encrypted_bytes] e m
      bt_length_remove_le [of "e_record_id e" "entries st"]
    by (auto simp: bounds_inv_def drop_entry_def maps_ok_def sat_sub_u64_def)
  moreover have "receipts_inv (drop_entry e st)"
    using inv by (simp add: base_inv_def receipts_inv_def drop_entry_def)
  ultimately show ?thesis using m by (simp add: base_inv_def maps_drop)
qed

text \<open>A new entry: the identity, the stable identity and the sequence number are free.\<close>

definition entry_free :: "spool_state \<Rightarrow> entry \<Rightarrow> bool" where
  "entry_free st e \<longleftrightarrow>
     bt_get (entries st) (e_record_id e) = None \<and> bt_get (stable_index st) (e_stable_record_id e) = None
     \<and> e_spool_seq e \<notin> live_seqs st"

lemma base_inv_index_entry:
  assumes inv: "base_inv X st" and ctx: "ctx_ok X" and free: "entry_free st e"
    and ok: "0 < e_spool_seq e" "e_path e = (Pending, pending_file_name (e_spool_seq e) (e_record_id e))"
    and room: "length (entries st) < max_records (config X)"
      "sat_add_u64 (pending_bytes st) (e_encrypted_bytes e) \<le> max_bytes (config X)"
  shows "base_inv X (index_entry e st)"
proof -
  from inv have ei: "entries_inv st" and m: "maps_ok st" and b: "bounds_inv (config X) st"
    and gi: "gaps_inv (lib X) st" by (simp_all add: base_inv_def)
  from m have bok: "bt_ok (entries st)" "bt_ok (stable_index st)" by (simp_all add: maps_ok_def)
  have get: "bt_get (entries (index_entry e st)) k = (if k = e_record_id e then Some e else bt_get (entries st) k)" for k
    using bok by (simp add: index_entry_def bt_get_insert)
  have idx: "bt_get (stable_index (index_entry e st)) s =
      (if s = e_stable_record_id e then Some (e_record_id e) else bt_get (stable_index st) s)" for s
    using bok by (simp add: index_entry_def bt_get_insert)
  have live: "e_spool_seq e' \<noteq> e_spool_seq e" if "bt_get (entries st) k = Some e'" for k e'
    using free that live_seqs_iff [OF m] by (auto simp: entry_free_def)
  have glive: "gap_spool_seq (g_notice g) \<noteq> e_spool_seq e" if "bt_get (gaps st) k = Some g" for k g
    using free that live_seqs_iff [OF m] by (auto simp: entry_free_def)
  have "entries_inv (index_entry e st)"
    unfolding entries_inv_def
  proof (intro conjI allI impI)
    fix j e' assume a: "bt_get (entries (index_entry e st)) j = Some e'"
    show "entry_ok (index_entry e st) j e'"
    proof (cases "j = e_record_id e")
      case True
      with a have "e' = e" by (simp add: get)
      with True ok show ?thesis by (simp add: idx entry_ok_def)
    next
      case False
      with a ei have o: "entry_ok st j e'" by (simp add: get entries_inv_def)
      with free have "e_stable_record_id e' \<noteq> e_stable_record_id e"
        by (auto simp: entry_free_def entry_ok_def)
      with o show ?thesis by (simp add: entry_ok_def idx)
    qed
  next
    fix s j assume a: "bt_get (stable_index (index_entry e st)) s = Some j"
    show "\<exists>e'. bt_get (entries (index_entry e st)) j = Some e' \<and> e_stable_record_id e' = s"
    proof (cases "s = e_stable_record_id e")
      case True
      with a show ?thesis by (simp add: idx get)
    next
      case False
      with a have "bt_get (stable_index st) s = Some j" by (simp add: idx)
      then obtain e' where "bt_get (entries st) j = Some e'" "e_stable_record_id e' = s"
        using ei unfolding entries_inv_def by blast
      moreover with free have "j \<noteq> e_record_id e" by (auto simp: entry_free_def)
      ultimately show ?thesis by (simp add: get)
    qed
  next
    fix j e1 j' e2
    assume "bt_get (entries (index_entry e st)) j = Some e1"
      "bt_get (entries (index_entry e st)) j' = Some e2" "e_spool_seq e1 = e_spool_seq e2"
    with live ei show "j = j'" unfolding get entries_inv_def by (metis option.inject)
  qed
  moreover have "gaps_inv (lib X) (index_entry e st)"
    using gi glive by (auto simp: gaps_inv_def get) (auto simp: index_entry_def)
  moreover have "bounds_inv (config X) (index_entry e st)"
    using b room free bok sat_add_u64_exact [OF room(2)] ctx
    by (simp add: bounds_inv_def index_entry_def entry_free_def bt_simps bt.length_ins_fresh ctx_ok_def)
  moreover have "receipts_inv (index_entry e st)"
    using inv by (simp add: base_inv_def receipts_inv_def index_entry_def)
  moreover have "maps_ok (index_entry e st)"
    using m by (simp add: maps_ok_def index_entry_def)
  ultimately show ?thesis by (simp add: base_inv_def)
qed

lemma admit_entry_index: "admit_entry e st = index_entry e st\<lparr>next_spool_sequence := Suc (e_spool_seq e)\<rparr>"
  by (simp add: admit_entry_def index_entry_def)

lemma live_index_entry:
  "maps_ok st \<Longrightarrow> bt_get (entries st) (e_record_id e) = None \<Longrightarrow>
     live_seqs (index_entry e st) = insert (e_spool_seq e) (live_seqs st)"
  by (force simp: live_seqs_def index_entry_def maps_ok_def bt_values_def bt.look_None set_bt_insert)

lemma live_drop_entry:
  assumes inv: "base_inv X st" and e: "bt_get (entries st) (e_record_id e) = Some e"
  shows "live_seqs (drop_entry e st) \<subseteq> live_seqs st"
    and "live_seqs st \<subseteq> insert (e_spool_seq e) (live_seqs (drop_entry e st))"
    and "(\<exists>k g. bt_get (gaps st) k = Some g \<and> gap_spool_seq (g_notice g) = e_spool_seq e) \<Longrightarrow>
      live_seqs (drop_entry e st) = live_seqs st"
proof -
  from inv have m: "maps_ok st" by (simp add: base_inv_def)
  note iff = live_seqs_iff [OF m] live_seqs_iff [OF maps_drop [OF m, of e]]
  have get: "bt_get (entries (drop_entry e st)) k = (if k = e_record_id e then None else bt_get (entries st) k)"
    "gaps (drop_entry e st) = gaps st" for k
    by (simp_all add: drop_entry_def)
  show sub: "live_seqs (drop_entry e st) \<subseteq> live_seqs st"
    unfolding subset_iff iff get by (metis option.distinct(1))
  show sup: "live_seqs st \<subseteq> insert (e_spool_seq e) (live_seqs (drop_entry e st))"
    unfolding subset_iff iff get insert_iff by (metis e option.inject)
  show "(\<exists>k g. bt_get (gaps st) k = Some g \<and> gap_spool_seq (g_notice g) = e_spool_seq e) \<Longrightarrow>
      live_seqs (drop_entry e st) = live_seqs st"
  proof -
    assume "\<exists>k g. bt_get (gaps st) k = Some g \<and> gap_spool_seq (g_notice g) = e_spool_seq e"
    then have "e_spool_seq e \<in> live_seqs (drop_entry e st)" unfolding iff get by blast
    with sub sup show ?thesis by blast
  qed
qed

section \<open>Gaps\<close>

lemma gap_notice_simps [simp]:
  "gap_spool_seq (gap_notice C e t r) = e_spool_seq e"
  "gap_reason (gap_notice C e t r) = r"
  by (simp_all add: gap_notice_def gap_notice_for_identity_def Let_def)

text \<open>The notice identifier does not depend on the time of the occurrence.\<close>

lemma gap_notice_id_time: "gap_notice_id (gap_notice C e t r) = gap_notice_id (gap_notice C e t' r)"
  by (simp add: gap_notice_def gap_notice_for_identity_def Let_def)

lemma valid_gap_notice_gap_notice:
  "digest_laws C \<Longrightarrow> 0 < e_spool_seq e \<Longrightarrow> valid_gap_notice C (gap_notice C e t r)"
  using hex_digest_lower [of C] hex_digest_length [of C]
  by (simp add: valid_gap_notice_def gap_notice_def gap_notice_for_identity_def Let_def
      valid_digest_def list_all_iff)

lemma base_inv_insert_gap:
  assumes inv: "base_inv X st" and ctx: "ctx_ok X"
    and seq: "0 < gap_spool_seq n" and valid: "valid_gap_notice (lib X) n"
    and free: "bt_get (gaps st) (gap_notice_id n) = None"
    and fresh: "\<not> list_ex (\<lambda>g. gap_spool_seq (g_notice g) = gap_spool_seq n) (bt_values (gaps st))"
    and derived: "\<And>k e. bt_get (entries st) k = Some e \<Longrightarrow> e_spool_seq e = gap_spool_seq n \<Longrightarrow>
      gap_of_entry (lib X) n e"
    and path: "p = (Gaps, gap_file_name (gap_spool_seq n) (gap_notice_id n))"
    and room: "length (gaps st) < max_records (config X)"
      "sat_add_u64 (pending_gap_bytes st) b \<le> max_bytes (config X)"
  shows "base_inv X (insert_gap n b p st)"
proof -
  let ?g = "\<lparr>g_notice = n, g_encrypted_bytes = b, g_path = p\<rparr>"
  from inv have gi: "gaps_inv (lib X) st" and m: "maps_ok st" and bi: "bounds_inv (config X) st"
    by (simp_all add: base_inv_def)
  from m have bok: "bt_ok (gaps st)" by (simp add: maps_ok_def)
  have get: "bt_get (gaps (insert_gap n b p st)) k =
      (if k = gap_notice_id n then Some ?g else bt_get (gaps st) k)" for k
    using bok by (simp add: insert_gap_def bt_get_insert)
  have ent: "entries (insert_gap n b p st) = entries st" by (simp add: insert_gap_def)
  have old: "gap_spool_seq (g_notice g) \<noteq> gap_spool_seq n" if "bt_get (gaps st) k = Some g" for k g
  proof -
    from that bok have "g \<in> set (bt_values (gaps st))" by (auto simp: bt_values_iff)
    with fresh show ?thesis by (auto simp: list_ex_iff)
  qed
  have "gaps_inv (lib X) (insert_gap n b p st)"
    unfolding gaps_inv_def
  proof (intro conjI allI impI)
    fix k g assume a: "bt_get (gaps (insert_gap n b p st)) k = Some g"
    then show "gap_ok (lib X) k g"
      using gi valid path unfolding get gaps_inv_def by (cases "k = gap_notice_id n") (auto simp: gap_ok_def)
  next
    fix k g k' g'
    assume "bt_get (gaps (insert_gap n b p st)) k = Some g"
      "bt_get (gaps (insert_gap n b p st)) k' = Some g'"
      and eq: "gap_spool_seq (g_notice g) = gap_spool_seq (g_notice g')"
    then have "g = ?g \<and> k = gap_notice_id n \<or> k \<noteq> gap_notice_id n \<and> bt_get (gaps st) k = Some g"
      "g' = ?g \<and> k' = gap_notice_id n \<or> k' \<noteq> gap_notice_id n \<and> bt_get (gaps st) k' = Some g'"
      unfolding get by (auto split: if_splits)
    then show "k = k'"
    proof (elim disjE conjE)
      assume "bt_get (gaps st) k = Some g" "bt_get (gaps st) k' = Some g'"
      with gi eq show ?thesis unfolding gaps_inv_def by blast
    next
      assume "g = ?g" "bt_get (gaps st) k' = Some g'"
      with old [of k' g'] eq show ?thesis by simp
    next
      assume "g' = ?g" "bt_get (gaps st) k = Some g"
      with old [of k g] eq show ?thesis by simp
    qed simp
  next
    fix k g k' e
    assume "bt_get (gaps (insert_gap n b p st)) k = Some g"
      "bt_get (entries (insert_gap n b p st)) k' = Some e" "gap_spool_seq (g_notice g) = e_spool_seq e"
    then show "gap_of_entry (lib X) (g_notice g) e"
      using gi derived unfolding get ent gaps_inv_def by (cases "k = gap_notice_id n") auto
  qed
  moreover have "bounds_inv (config X) (insert_gap n b p st)"
    using bi room free bok sat_add_u64_exact [OF room(2)] ctx
    by (simp add: bounds_inv_def insert_gap_def bt_simps bt.length_ins_fresh ctx_ok_def)
  moreover have "entries_inv (insert_gap n b p st)" "receipts_inv (insert_gap n b p st)"
    "maps_ok (insert_gap n b p st)"
    using inv by (simp_all add: base_inv_def entries_inv_def entry_ok_def receipts_inv_def maps_ok_def insert_gap_def)
  ultimately show ?thesis by (simp add: base_inv_def)
qed

lemma live_insert_gap:
  "maps_ok st \<Longrightarrow> bt_get (gaps st) (gap_notice_id n) = None \<Longrightarrow>
     live_seqs (insert_gap n b p st) = insert (gap_spool_seq n) (live_seqs st)"
  by (force simp: live_seqs_def insert_gap_def maps_ok_def bt_values_def bt.look_None set_bt_insert)

lemma base_inv_remove_gap:
  assumes inv: "base_inv X st" and g: "bt_get (gaps st) k = Some g"
  shows "base_inv X (remove_gap g k st)"
proof -
  from inv have gi: "gaps_inv (lib X) st" and m: "maps_ok st" and b: "bounds_inv (config X) st"
    by (simp_all add: base_inv_def)
  have get: "bt_get (gaps (remove_gap g k st)) j = (if j = k then None else bt_get (gaps st) j)"
    "entries (remove_gap g k st) = entries st" for j
    by (simp_all add: remove_gap_def)
  have "gaps_inv (lib X) (remove_gap g k st)"
    unfolding gaps_inv_def get
  proof (intro conjI allI impI)
  qed (use gi in \<open>auto simp: gaps_inv_def split: if_splits\<close>)
  moreover have "bounds_inv (config X) (remove_gap g k st)"
    using b bt_total_remove [of "gaps st" k g g_encrypted_bytes] g m bt_length_remove_le [of k "gaps st"]
    by (auto simp: bounds_inv_def remove_gap_def maps_ok_def sat_sub_u64_def)
  moreover have "entries_inv (remove_gap g k st)" "receipts_inv (remove_gap g k st)"
    "maps_ok (remove_gap g k st)"
    using inv by (simp_all add: base_inv_def entries_inv_def entry_ok_def receipts_inv_def maps_ok_def remove_gap_def)
  ultimately show ?thesis by (simp add: base_inv_def)
qed

lemma live_remove_gap:
  assumes inv: "base_inv X st" and g: "bt_get (gaps st) k = Some g"
  shows "live_seqs (remove_gap g k st) \<subseteq> live_seqs st"
    and "live_seqs st \<subseteq> insert (gap_spool_seq (g_notice g)) (live_seqs (remove_gap g k st))"
proof -
  from inv have m: "maps_ok st" by (simp add: base_inv_def)
  then have m': "maps_ok (remove_gap g k st)" by (simp add: maps_ok_def remove_gap_def)
  note iff = live_seqs_iff [OF m] live_seqs_iff [OF m']
  have get: "bt_get (gaps (remove_gap g k st)) j = (if j = k then None else bt_get (gaps st) j)"
    "entries (remove_gap g k st) = entries st" for j
    by (simp_all add: remove_gap_def)
  show "live_seqs (remove_gap g k st) \<subseteq> live_seqs st"
    unfolding subset_iff iff get by (metis option.distinct(1))
  show "live_seqs st \<subseteq> insert (gap_spool_seq (g_notice g)) (live_seqs (remove_gap g k st))"
    unfolding subset_iff iff get insert_iff by (metis g option.inject)
qed

section \<open>Other fields\<close>

lemma base_inv_uncount: "base_inv X st \<Longrightarrow> base_inv X (uncount q st)"
  by (rule base_inv_cong) (auto simp: uncount_def base_inv_def maps_ok_def)

lemma live_uncount [simp]: "live_seqs (uncount q st) = live_seqs st"
  by (simp add: live_seqs_def uncount_def)

lemma base_inv_insert_receipt:
  assumes "base_inv X st" "rc_sequence r < next_receipt_sequence st"
  shows "base_inv X (st\<lparr>receipts := bt_insert (rc_batch_id r)
    \<lparr>re_receipt = r, re_path = (Receipts, receipt_file_name (rc_sequence r) (rc_batch_id r))\<rparr> (receipts st)\<rparr>)"
  using assms
  by (auto simp: base_inv_def maps_ok_def entries_inv_def entry_ok_def gaps_inv_def bounds_inv_def
      receipts_inv_def bt_get_insert)

lemma base_inv_remove_receipt: "base_inv X st \<Longrightarrow> base_inv X (st\<lparr>receipts := bt_remove k (receipts st)\<rparr>)"
  by (simp add: base_inv_def maps_ok_def entries_inv_def entry_ok_def gaps_inv_def bounds_inv_def receipts_inv_def)

end
