(* ===== verification/Credentials.thy ===== *)
theory Credentials
  imports Edge_Protocol Edge_Disk
begin

text \<open>
  credentials.rs: the store of scoped Hub credentials. One JSON file beside a lock file;
  every mutation loads the file, changes the list and replaces the file atomically. The
  advisory lock serializes the mutations of all processes, so each is one procedure here.
  Inode, link count and mode of the lock file are not part of the disk model: the outcome
  of that check is a parameter of the store.
\<close>

section \<open>Data\<close>

datatype credential_error =
    CredInvalidPath
  | CredInvalidLabel
  | CredInvalidLifetime
  | CredInvalidOverlap
  | UnknownCredential
  | InactiveCredential
  | InvalidStore
  | CredIo

record stored_credential =
  sc_id :: bytes
  sc_label :: string
  sc_secret_digest :: string
  sc_created_at_ms :: int
  sc_expires_at_ms :: int
  sc_valid_until_ms :: "int option"
  sc_revoked_at_ms :: "int option"
  sc_rotation_of :: "bytes option"

record credential_file =
  cf_version :: nat
  cf_credentials :: "stored_credential list"

record issued_credential =
  ic_credential_id :: string
  ic_token :: string
  ic_secret_component :: string

record credential_summary =
  cs_credential_id :: string
  cs_label :: string
  cs_created_at_ms :: int
  cs_expires_at_ms :: int
  cs_valid_until_ms :: "int option"
  cs_revoked_at_ms :: "int option"

record credential_store =
  cr_lib :: crates
  cr_env :: env
  store_name :: string
  path_absolute :: bool
  lock_private :: bool

type_synonym 'a cred_proc = "(unit world, credential_error, 'a) proc"

definition STORE_VERSION :: nat where
  "STORE_VERSION = 1"

definition MAX_TTL_MS :: int where
  "MAX_TTL_MS = 366 * 24 * 60 * 60 * 1000"

definition MAX_ROTATION_OVERLAP_MS :: int where
  "MAX_ROTATION_OVERLAP_MS = 24 * 60 * 60 * 1000"

definition MAX_STORE_BYTES :: nat where
  "MAX_STORE_BYTES = 1048576"

section \<open>Checks\<close>

text \<open>\<open>char::is_control\<close> on UTF-8 text: the C0 set, DEL, and the C1 set behind byte C2.\<close>

fun has_control :: "string \<Rightarrow> bool" where
  "has_control [] \<longleftrightarrow> False"
| "has_control (c # cs) \<longleftrightarrow>
     byte_val c < 32 \<or> byte_val c = 127
     \<or> (byte_val c = 194 \<and> (case cs of [] \<Rightarrow> False | d # _ \<Rightarrow> 128 \<le> byte_val d \<and> byte_val d < 160))
     \<or> has_control cs"

definition validate_label :: "string \<Rightarrow> credential_error + unit" where
  "validate_label label =
     (if 1 \<le> length label \<and> length label \<le> 64 \<and> \<not> has_control label then Inr () else Inl CredInvalidLabel)"

definition validate_ttl :: "int \<Rightarrow> credential_error + unit" where
  "validate_ttl ttl_ms = (if 1000 \<le> ttl_ms \<and> ttl_ms \<le> MAX_TTL_MS then Inr () else Inl CredInvalidLifetime)"

definition active_at :: "stored_credential \<Rightarrow> int \<Rightarrow> bool" where
  "active_at c now_ms \<longleftrightarrow>
     now_ms \<ge> sc_created_at_ms c \<and> now_ms < sc_expires_at_ms c
     \<and> (case sc_valid_until_ms c of None \<Rightarrow> True | Some until \<Rightarrow> now_ms < until)
     \<and> (case sc_revoked_at_ms c of None \<Rightarrow> True | Some revoked \<Rightarrow> now_ms < revoked)"

definition digest_secret :: "crates \<Rightarrow> bytes \<Rightarrow> bytes \<Rightarrow> string" where
  "digest_secret C i secret =
     hex_encode C (sha256 C (domain ''teslatlas-edge-hub-credential-v1'' @ i @ [CHR 0x00] @ secret))"

definition parse_token :: "crates \<Rightarrow> string \<Rightarrow> (bytes \<times> bytes) option" where
  "parse_token C token =
     (case split_on (CHR ''.'') token of
        [p1, p2, p3] \<Rightarrow>
          if p1 \<noteq> ''tte1'' then None
          else (case uuid_parse C p2 of
                  None \<Rightarrow> None
                | Some i \<Rightarrow>
                    (case b64_decode C p3 of
                       None \<Rightarrow> None
                     | Some decoded \<Rightarrow> if length decoded \<noteq> 32 then None else Some (i, decoded)))
      | _ \<Rightarrow> None)"

section \<open>Stored form\<close>

definition enc_stored_credential :: "crates \<Rightarrow> stored_credential \<Rightarrow> json" where
  "enc_stored_credential C c = JObj
     [(''id'', JStr (uuid_text C (sc_id c))), (''label'', JStr (sc_label c)),
      (''secret_digest'', JStr (sc_secret_digest c)),
      (''created_at_ms'', enc_i64 (sc_created_at_ms c)), (''expires_at_ms'', enc_i64 (sc_expires_at_ms c)),
      (''valid_until_ms'', enc_option enc_i64 (sc_valid_until_ms c)),
      (''revoked_at_ms'', enc_option enc_i64 (sc_revoked_at_ms c)),
      (''rotation_of'', enc_option (\<lambda>u. JStr (uuid_text C u)) (sc_rotation_of c))]"

definition dec_uuid :: "crates \<Rightarrow> json \<Rightarrow> bytes option" where
  "dec_uuid C v = Option.bind (dec_string v) (uuid_parse C)"

definition dec_stored_credential :: "crates \<Rightarrow> json \<Rightarrow> stored_credential option" where
  "dec_stored_credential C v = do {
     fs \<leftarrow> struct_fields [''id'', ''label'', ''secret_digest'', ''created_at_ms'', ''expires_at_ms'',
                           ''valid_until_ms'', ''revoked_at_ms'', ''rotation_of''] v;
     v_id \<leftarrow> field fs ''id'' (dec_uuid C);
     v_label \<leftarrow> field fs ''label'' dec_string;
     v_digest \<leftarrow> field fs ''secret_digest'' dec_string;
     v_created \<leftarrow> field fs ''created_at_ms'' dec_i64;
     v_expires \<leftarrow> field fs ''expires_at_ms'' dec_i64;
     v_until \<leftarrow> field_opt fs ''valid_until_ms'' dec_i64;
     v_revoked \<leftarrow> field_opt fs ''revoked_at_ms'' dec_i64;
     v_rotation \<leftarrow> field_opt fs ''rotation_of'' (dec_uuid C);
     Some \<lparr>sc_id = v_id, sc_label = v_label, sc_secret_digest = v_digest,
       sc_created_at_ms = v_created, sc_expires_at_ms = v_expires, sc_valid_until_ms = v_until,
       sc_revoked_at_ms = v_revoked, sc_rotation_of = v_rotation\<rparr> }"

definition enc_credential_file :: "crates \<Rightarrow> credential_file \<Rightarrow> json" where
  "enc_credential_file C f = JObj
     [(''version'', enc_u64 (cf_version f)),
      (''credentials'', JArr (map (enc_stored_credential C) (cf_credentials f)))]"

definition dec_credential_file :: "crates \<Rightarrow> json \<Rightarrow> credential_file option" where
  "dec_credential_file C v = do {
     fs \<leftarrow> struct_fields [''version'', ''credentials''] v;
     v_version \<leftarrow> field fs ''version'' dec_u16;
     v_credentials \<leftarrow> field fs ''credentials'' (dec_list (dec_stored_credential C));
     Some \<lparr>cf_version = v_version, cf_credentials = v_credentials\<rparr> }"

section \<open>Loading, saving and the lock\<close>

definition store_path :: "credential_store \<Rightarrow> unit path" where
  "store_path K = ((), store_name K)"

definition credential_ok :: "stored_credential \<Rightarrow> bool" where
  "credential_ok c \<longleftrightarrow>
     validate_label (sc_label c) = Inr () \<and> sc_created_at_ms c < sc_expires_at_ms c
     \<and> length (sc_secret_digest c) = 64 \<and> list_all is_lower_hex (sc_secret_digest c)"

text \<open>The scan with the set of identifiers seen so far.\<close>

fun invalid_credential :: "bytes list \<Rightarrow> stored_credential list \<Rightarrow> bool" where
  "invalid_credential ids [] \<longleftrightarrow> False"
| "invalid_credential ids (c # cs) \<longleftrightarrow>
     sc_id c \<in> set ids \<or> \<not> credential_ok c \<or> invalid_credential (sc_id c # ids) cs"

definition load :: "credential_store \<Rightarrow> credential_file cred_proc" where
  "load K =
     bindR (map_err (\<lambda>_. CredIo) (fs_read (cr_env K) (store_path K))) (\<lambda>b.
     bindR (failIf (length b > MAX_STORE_BYTES) InvalidStore) (\<lambda>_.
     bindR (ok_or (json_from_slice (cr_lib K) (dec_credential_file (cr_lib K)) b) InvalidStore) (\<lambda>f.
     bindR (failIf (cf_version f \<noteq> STORE_VERSION) InvalidStore) (\<lambda>_.
     bindR (failIf (invalid_credential [] (cf_credentials f)) InvalidStore) (\<lambda>_.
     ok f)))))"

definition save :: "credential_store \<Rightarrow> credential_file \<Rightarrow> unit cred_proc" where
  "save K f =
     bindR (ok_or (json_to_vec_pretty (cr_lib K) (enc_credential_file (cr_lib K) f)) InvalidStore) (\<lambda>b.
     bindR (new_uuid (cr_lib K) (cr_env K)) (\<lambda>u.
     let temporary = ((), ''.'' @ store_name K @ ''.'' @ u @ ''.tmp'') in
     map_err (\<lambda>_. CredIo) (
     bindR (fs_create_new (cr_env K) temporary) (\<lambda>_.
     bindR (fs_write_all (cr_env K) temporary b) (\<lambda>_.
     bindR (os_call (cr_env K)) (\<lambda>_.
     bindR (fs_rename (cr_env K) temporary (store_path K)) (\<lambda>_.
     bindR (os_call (cr_env K)) (\<lambda>_.
     bindR (os_call (cr_env K)) (\<lambda>_.
     os_call (cr_env K))))))))))"

definition lock_path :: "credential_store \<Rightarrow> unit path" where
  "lock_path K = ((), ''.'' @ store_name K @ ''.lock'')"

definition lock_mutations :: "credential_store \<Rightarrow> unit cred_proc" where
  "lock_mutations K =
     bindR (matchR (fs_create_new (cr_env K) (lock_path K)) ok
        (\<lambda>error.
           if error = AlreadyExists then
             bindR (map_err (\<lambda>_. CredIo) (fs_metadata (cr_env K) (lock_path K))) (\<lambda>metadata.
             bindR (failIf (\<not> is_file metadata) CredInvalidPath) (\<lambda>_.
             map_err (\<lambda>_. CredIo) (os_call (cr_env K))))
           else fail CredIo)) (\<lambda>_.
     bindR (map_err (\<lambda>_. CredIo) (os_call (cr_env K))) (\<lambda>_.
     bindR (map_err (\<lambda>_. CredIo) (fs_metadata (cr_env K) (lock_path K))) (\<lambda>path_metadata.
     bindR (failIf (\<not> is_file path_metadata) CredInvalidPath) (\<lambda>_.
     bindR (failIf (\<not> lock_private K) CredInvalidPath) (\<lambda>_.
     map_err (\<lambda>_. CredIo) (os_call (cr_env K)))))))"

section \<open>Operations\<close>

definition store_open :: "credential_store \<Rightarrow> unit cred_proc" where
  "store_open K =
     bindR (failIf (\<not> path_absolute K) CredInvalidPath) (\<lambda>_.
     bindR (map_err (\<lambda>_. CredIo) (os_call (cr_env K))) (\<lambda>_.
     bindR (lock_mutations K) (\<lambda>_.
     bindR (matchR (fs_metadata (cr_env K) (store_path K)) (\<lambda>_. ok True) (\<lambda>_. ok False)) (\<lambda>present.
     if present then bindR (load K) (\<lambda>_. ok ())
     else save K \<lparr>cf_version = STORE_VERSION, cf_credentials = []\<rparr>))))"

definition issue ::
  "credential_store \<Rightarrow> string \<Rightarrow> bytes option \<Rightarrow> int \<Rightarrow> int \<Rightarrow> (stored_credential \<times> issued_credential) cred_proc" where
  "issue K label rotation_of now_ms ttl_ms = (\<lambda>s.
     let i = fresh_uuid (cr_env K) (tick s);
         secret = fresh_secret (cr_env K) (tick s);
         component = b64_encode (cr_lib K) secret
     in (Inr (\<lparr>sc_id = i, sc_label = label, sc_secret_digest = digest_secret (cr_lib K) i secret,
          sc_created_at_ms = now_ms, sc_expires_at_ms = sat_add_i64 now_ms ttl_ms,
          sc_valid_until_ms = None, sc_revoked_at_ms = None, sc_rotation_of = rotation_of\<rparr>,
        \<lparr>ic_credential_id = uuid_text (cr_lib K) i,
         ic_token = ''tte1.'' @ uuid_text (cr_lib K) i @ ''.'' @ component,
         ic_secret_component = component\<rparr>), s\<lparr>tick := Suc (tick s)\<rparr>))"

definition push_credential :: "stored_credential \<Rightarrow> credential_file \<Rightarrow> credential_file" where
  "push_credential c f = f\<lparr>cf_credentials := cf_credentials f @ [c]\<rparr>"

text \<open>\<open>iter_mut().find(..)\<close>: the first match is changed in place.\<close>

fun update_first :: "('a \<Rightarrow> bool) \<Rightarrow> ('a \<Rightarrow> 'a) \<Rightarrow> 'a list \<Rightarrow> 'a list" where
  "update_first P f [] = []"
| "update_first P f (x # xs) = (if P x then f x # xs else x # update_first P f xs)"

definition enrol :: "credential_store \<Rightarrow> string \<Rightarrow> int \<Rightarrow> int \<Rightarrow> issued_credential cred_proc" where
  "enrol K label now_ms ttl_ms =
     bindR (lift_result (validate_label label)) (\<lambda>_.
     bindR (lift_result (validate_ttl ttl_ms)) (\<lambda>_.
     bindR (lock_mutations K) (\<lambda>_.
     bindR (load K) (\<lambda>f.
     bindR (issue K label None now_ms ttl_ms) (\<lambda>(stored, public).
     bindR (save K (push_credential stored f)) (\<lambda>_.
     ok public))))))"

definition rotated_until :: "int \<Rightarrow> int \<Rightarrow> stored_credential \<Rightarrow> stored_credential" where
  "rotated_until now_ms overlap_ms old =
     old\<lparr>sc_valid_until_ms := Some (min (sat_add_i64 now_ms overlap_ms) (sc_expires_at_ms old))\<rparr>"

definition rotate :: "credential_store \<Rightarrow> string \<Rightarrow> int \<Rightarrow> int \<Rightarrow> int \<Rightarrow> issued_credential cred_proc" where
  "rotate K credential_id now_ms overlap_ms ttl_ms =
     bindR (lift_result (validate_ttl ttl_ms)) (\<lambda>_.
     bindR (failIf (\<not> (0 \<le> overlap_ms \<and> overlap_ms \<le> MAX_ROTATION_OVERLAP_MS)) CredInvalidOverlap) (\<lambda>_.
     bindR (ok_or (uuid_parse (cr_lib K) credential_id) UnknownCredential) (\<lambda>i.
     bindR (lock_mutations K) (\<lambda>_.
     bindR (load K) (\<lambda>f.
     bindR (ok_or (find (\<lambda>c. sc_id c = i) (cf_credentials f)) UnknownCredential) (\<lambda>old.
     bindR (failIf (\<not> active_at old now_ms) InactiveCredential) (\<lambda>_.
     bindR (issue K (sc_label old) (Some (sc_id old)) now_ms ttl_ms) (\<lambda>(stored, public).
     bindR (save K (push_credential stored (f\<lparr>cf_credentials :=
        update_first (\<lambda>c. sc_id c = i) (rotated_until now_ms overlap_ms) (cf_credentials f)\<rparr>))) (\<lambda>_.
     ok public)))))))))"

definition revoked_at :: "int \<Rightarrow> stored_credential \<Rightarrow> stored_credential" where
  "revoked_at now_ms c = c\<lparr>sc_revoked_at_ms :=
     Some (case sc_revoked_at_ms c of None \<Rightarrow> now_ms | Some existing \<Rightarrow> min existing now_ms)\<rparr>"

definition revoke :: "credential_store \<Rightarrow> string \<Rightarrow> int \<Rightarrow> unit cred_proc" where
  "revoke K credential_id now_ms =
     bindR (ok_or (uuid_parse (cr_lib K) credential_id) UnknownCredential) (\<lambda>i.
     bindR (lock_mutations K) (\<lambda>_.
     bindR (load K) (\<lambda>f.
     bindR (ok_or (find (\<lambda>c. sc_id c = i) (cf_credentials f)) UnknownCredential) (\<lambda>_.
     save K (f\<lparr>cf_credentials :=
        update_first (\<lambda>c. sc_id c = i) (revoked_at now_ms) (cf_credentials f)\<rparr>)))))"

text \<open>What \<open>verify\<close> decides once the file is read.\<close>

definition token_valid :: "crates \<Rightarrow> credential_file \<Rightarrow> bytes \<times> bytes \<Rightarrow> int \<Rightarrow> bool" where
  "token_valid C f parsed now_ms =
     (case find (\<lambda>c. sc_id c = fst parsed) (cf_credentials f) of
        None \<Rightarrow> False
      | Some c \<Rightarrow> active_at c now_ms \<and> digest_secret C (sc_id c) (snd parsed) = sc_secret_digest c)"

definition verify :: "credential_store \<Rightarrow> string \<Rightarrow> int \<Rightarrow> bool cred_proc" where
  "verify K token now_ms =
     (case parse_token (cr_lib K) token of
        None \<Rightarrow> ok False
      | Some parsed \<Rightarrow> bindR (load K) (\<lambda>f. ok (token_valid (cr_lib K) f parsed now_ms)))"

definition list_credentials :: "credential_store \<Rightarrow> credential_summary list cred_proc" where
  "list_credentials K = bindR (load K) (\<lambda>f. ok (map (\<lambda>c.
     \<lparr>cs_credential_id = uuid_text (cr_lib K) (sc_id c), cs_label = sc_label c,
      cs_created_at_ms = sc_created_at_ms c, cs_expires_at_ms = sc_expires_at_ms c,
      cs_valid_until_ms = sc_valid_until_ms c, cs_revoked_at_ms = sc_revoked_at_ms c\<rparr>) (cf_credentials f)))"

section \<open>The stored file\<close>

definition file_ok :: "credential_file \<Rightarrow> bool" where
  "file_ok f \<longleftrightarrow> cf_version f = STORE_VERSION \<and> distinct (map sc_id (cf_credentials f))
     \<and> (\<forall>c \<in> set (cf_credentials f). credential_ok c)"

lemma invalid_credential_iff:
  "\<not> invalid_credential ids cs \<longleftrightarrow>
     distinct (map sc_id cs) \<and> set (map sc_id cs) \<inter> set ids = {} \<and> (\<forall>c \<in> set cs. credential_ok c)"
  by (induction cs arbitrary: ids) auto

text \<open>The bounds of the Rust types: 64-bit times, 16-byte identifiers.\<close>

definition time_typed :: "int \<Rightarrow> bool" where
  "time_typed t \<longleftrightarrow> i64_min \<le> t \<and> t \<le> i64_max"

definition credential_typed :: "stored_credential \<Rightarrow> bool" where
  "credential_typed c \<longleftrightarrow> length (sc_id c) = 16 \<and> time_typed (sc_created_at_ms c)
     \<and> time_typed (sc_expires_at_ms c) \<and> (\<forall>t. sc_valid_until_ms c = Some t \<longrightarrow> time_typed t)
     \<and> (\<forall>t. sc_revoked_at_ms c = Some t \<longrightarrow> time_typed t)
     \<and> (\<forall>u. sc_rotation_of c = Some u \<longrightarrow> length u = 16)"

definition file_typed :: "credential_file \<Rightarrow> bool" where
  "file_typed f \<longleftrightarrow> (\<forall>c \<in> set (cf_credentials f). credential_typed c)"

lemma dec_enc_stored_credential:
  "token_laws C \<Longrightarrow> credential_typed c \<Longrightarrow> dec_stored_credential C (enc_stored_credential C c) = Some c"
  by (auto simp: dec_stored_credential_def enc_stored_credential_def struct_fields_def field_def
      field_opt_def dec_uuid_def credential_typed_def time_typed_def token_laws_def enc_option_def
      enc_i64_def number_from_i64_def split: option.splits)

lemma dec_enc_credential_file:
  assumes "token_laws C" "file_typed f" "cf_version f = STORE_VERSION"
  shows "dec_credential_file C (enc_credential_file C f) = Some f"
proof -
  have "those (map (dec_stored_credential C) (map (enc_stored_credential C) (cf_credentials f))) = Some (cf_credentials f)"
    by (rule those_map_Some) (use assms in \<open>auto simp: file_typed_def dec_enc_stored_credential\<close>)
  then show ?thesis
    using assms(3)
    by (simp add: dec_credential_file_def enc_credential_file_def struct_fields_def field_def STORE_VERSION_def)
qed

lemma enc_credential_file_exact: "file_typed f \<Longrightarrow> cf_version f = STORE_VERSION \<Longrightarrow> json_exact (enc_credential_file C f)"
  by (auto simp: enc_credential_file_def enc_stored_credential_def file_typed_def credential_typed_def
      time_typed_def enc_option_def STORE_VERSION_def u64_max_def split: option.splits)

text \<open>The disk holds a store that reads as \<open>f\<close>.\<close>

definition store_has :: "credential_store \<Rightarrow> credential_file \<Rightarrow> unit world \<Rightarrow> bool" where
  "store_has K f s \<longleftrightarrow> (\<exists>b. look s (store_path K) = Some (Regular b) \<and> length b \<le> MAX_STORE_BYTES
     \<and> json_from_slice (cr_lib K) (dec_credential_file (cr_lib K)) b = Some f \<and> file_ok f)"

lemma fs_read_look:
  "fs_read E p s = (r, t) \<Longrightarrow> look t = look s \<and> (disk_ok t \<longleftrightarrow> disk_ok s)
     \<and> (r = (case look s p of Some (Regular b) \<Rightarrow> Inr b | Some (Special n) \<Rightarrow> Inl (OsError 21) | None \<Rightarrow> Inl NotFound)
        \<or> (\<exists>c. r = Inl (OsError c)))"
  by (auto simp: fs_read_def fs_metadata_def proc_defs os_call_def Let_def split: option.splits node.splits prod.splits sum.splits)

lemma load_cases:
  assumes "load K s = (r, t)"
  shows "look t = look s" "disk_ok t \<longleftrightarrow> disk_ok s"
    and "r = Inr f \<Longrightarrow> store_has K f s"
    and "store_has K f s \<Longrightarrow> r = Inr f \<or> r = Inl CredIo"
proof -
  obtain r' t' where rd: "fs_read (cr_env K) (store_path K) s = (r', t')" by fastforce
  note look = fs_read_look [OF rd]
  have t: "t = t'"
    using assms rd by (auto simp: load_def proc_defs split: sum.splits if_splits option.splits)
  with look show "look t = look s" "disk_ok t \<longleftrightarrow> disk_ok s" by auto
  show "store_has K f s" if "r = Inr f"
  proof -
    from assms rd that obtain b where b: "r' = Inr b" "length b \<le> MAX_STORE_BYTES"
      "json_from_slice (cr_lib K) (dec_credential_file (cr_lib K)) b = Some f"
      "cf_version f = STORE_VERSION" "\<not> invalid_credential [] (cf_credentials f)"
      by (auto simp: load_def proc_defs split: sum.splits if_splits option.splits)
    with look have "look s (store_path K) = Some (Regular b)" by (auto split: option.splits node.splits)
    with b show ?thesis by (auto simp: store_has_def file_ok_def invalid_credential_iff)
  qed
  show "r = Inr f \<or> r = Inl CredIo" if "store_has K f s"
  proof -
    from that obtain b where b: "look s (store_path K) = Some (Regular b)" "length b \<le> MAX_STORE_BYTES"
      "json_from_slice (cr_lib K) (dec_credential_file (cr_lib K)) b = Some f" "file_ok f"
      by (auto simp: store_has_def)
    with look have "r' = Inr b \<or> (\<exists>c. r' = Inl (OsError c))" by auto
    moreover have "\<not> invalid_credential [] (cf_credentials f)" "cf_version f = STORE_VERSION"
      using b(4) by (simp_all add: file_ok_def invalid_credential_iff)
    ultimately show ?thesis using assms rd b by (auto simp: load_def proc_defs)
  qed
qed

text \<open>Whatever fails, the store is the old one or completely the new one.\<close>

lemma save_look:
  "triple (\<lambda>s. disk_ok s \<and> look s (store_path K) = old) (save K f)
     (\<lambda>_ s. disk_ok s \<and> (\<exists>b. json_to_vec_pretty (cr_lib K) (enc_credential_file (cr_lib K) f) = Some b
        \<and> look s (store_path K) = Some (Regular b)))
     (\<lambda>_ s. disk_ok s \<and> (look s (store_path K) = old
        \<or> (\<exists>b. json_to_vec_pretty (cr_lib K) (enc_credential_file (cr_lib K) f) = Some b
          \<and> look s (store_path K) = Some (Regular b))))"
proof (cases "json_to_vec_pretty (cr_lib K) (enc_credential_file (cr_lib K) f)")
  case None
  then show ?thesis by (simp add: save_def ok_or_def) (auto intro: triple_fail)
next
  case (Some b)
  let ?old = "\<lambda>s. disk_ok s \<and> look s (store_path K) = old"
  let ?new = "\<lambda>s. disk_ok s \<and> look s (store_path K) = Some (Regular b)"
  let ?either = "\<lambda>s. disk_ok s \<and> (look s (store_path K) = old \<or> look s (store_path K) = Some (Regular b))"
  have uuid: "triple ?old (new_uuid (cr_lib K) (cr_env K)) (\<lambda>_. ?old) (\<lambda>_. ?either)"
    by (rule tripleI) (auto simp: new_uuid_def)
  have sync: "triple ?new (os_call (cr_env K)) (\<lambda>_. ?new) (\<lambda>_. ?either)"
    by (rule triple_conseq [OF keeps_look_os_call [of "\<lambda>l. l (store_path K) = Some (Regular b)"]]) auto
  have body: "triple ?old (map_err (\<lambda>_. CredIo) (
       bindR (fs_create_new (cr_env K) tmp) (\<lambda>_.
       bindR (fs_write_all (cr_env K) tmp b) (\<lambda>_.
       bindR (os_call (cr_env K)) (\<lambda>_.
       bindR (fs_rename (cr_env K) tmp (store_path K)) (\<lambda>_.
       bindR (os_call (cr_env K)) (\<lambda>_.
       bindR (os_call (cr_env K)) (\<lambda>_.
       os_call (cr_env K)))))))))
      (\<lambda>_. ?new) (\<lambda>_. ?either)" if tmp: "tmp \<noteq> store_path K" for tmp
  proof (rule triple_map_err)
    have create: "triple ?old (fs_create_new (cr_env K) tmp) (\<lambda>_. ?old) (\<lambda>_. ?either)"
      by (rule triple_conseq [OF create_new_look [OF tmp]]) auto
    have written: "triple ?old (fs_write_all (cr_env K) tmp b)
        (\<lambda>_ s. ?old s \<and> look s tmp = Some (Regular b)) (\<lambda>_. ?either)"
      by (rule triple_conseq [OF write_all_look [OF tmp]]) auto
    have synced: "triple (\<lambda>s. ?old s \<and> look s tmp = Some (Regular b)) (os_call (cr_env K))
        (\<lambda>_ s. ?old s \<and> look s tmp = Some (Regular b)) (\<lambda>_. ?either)"
      by (rule triple_conseq [OF keeps_look_os_call
          [of "\<lambda>l. l (store_path K) = old \<and> l tmp = Some (Regular b)"]]) auto
    have renamed: "triple (\<lambda>s. ?old s \<and> look s tmp = Some (Regular b))
        (fs_rename (cr_env K) tmp (store_path K)) (\<lambda>_. ?new) (\<lambda>_. ?either)"
      by (rule triple_conseq [OF rename_look [OF tmp]]) auto
    show "triple ?old (bindR (fs_create_new (cr_env K) tmp) (\<lambda>_.
       bindR (fs_write_all (cr_env K) tmp b) (\<lambda>_.
       bindR (os_call (cr_env K)) (\<lambda>_.
       bindR (fs_rename (cr_env K) tmp (store_path K)) (\<lambda>_.
       bindR (os_call (cr_env K)) (\<lambda>_.
       bindR (os_call (cr_env K)) (\<lambda>_.
       os_call (cr_env K)))))))) (\<lambda>_. ?new) (\<lambda>_. ?either)"
      by (rule triple_bind [OF create], rule triple_bind [OF written], rule triple_bind [OF synced],
          rule triple_bind [OF renamed], rule triple_bind [OF sync], rule triple_bind [OF sync], rule sync)
  qed
  have tmp: "((), ''.'' @ store_name K @ ''.'' @ u @ ''.tmp'') \<noteq> store_path K" for u
  proof
    assume "((), ''.'' @ store_name K @ ''.'' @ u @ ''.tmp'') = store_path K"
    then have "length (''.'' @ store_name K @ ''.'' @ u @ ''.tmp'') = length (store_name K)"
      by (simp add: store_path_def)
    then show False by simp
  qed
  show ?thesis
    unfolding save_def Some ok_or_def option.case bindR_ok Let_def
    by (rule triple_conseq [OF triple_bind [OF uuid body [OF tmp]]]) auto
qed

section \<open>Operations on the abstract store\<close>

text \<open>The file that reads as \<open>f\<close>, whatever its size.\<close>

definition store_reads :: "credential_store \<Rightarrow> credential_file \<Rightarrow> unit world \<Rightarrow> bool" where
  "store_reads K f s \<longleftrightarrow> (\<exists>b. look s (store_path K) = Some (Regular b)
     \<and> json_from_slice (cr_lib K) (dec_credential_file (cr_lib K)) b = Some f)"

lemma store_reads_unique: "store_reads K f s \<Longrightarrow> store_reads K g s \<Longrightarrow> f = g"
  by (auto simp: store_reads_def)

lemma store_has_reads: "store_has K f s \<Longrightarrow> store_reads K f s"
  by (auto simp: store_has_def store_reads_def)

lemma dec_i64_typed: "dec_i64 v = Some t \<Longrightarrow> time_typed t"
  using dec_i64_range [of v t] by (simp add: time_typed_def)

lemma those_in: "those xs = Some ys \<Longrightarrow> y \<in> set ys \<Longrightarrow> Some y \<in> set xs"
  by (induction xs arbitrary: ys) (auto split: option.splits)

lemma field_opt_Some: "field_opt fs n dec = Some (Some x) \<Longrightarrow> \<exists>v. dec v = Some x"
  by (auto simp: field_opt_def split: option.splits if_splits json.splits)

lemma dec_uuid_length: "token_laws C \<Longrightarrow> dec_uuid C v = Some u \<Longrightarrow> length u = 16"
  by (auto simp: dec_uuid_def token_laws_def split: Option.bind_splits)

lemma dec_stored_credential_typed:
  assumes "token_laws C" "dec_stored_credential C v = Some c"
  shows "credential_typed c"
  using assms(2) unfolding dec_stored_credential_def
  by (auto simp: credential_typed_def split: Option.bind_splits
      dest!: field_Some field_opt_Some dest: dec_i64_typed dec_uuid_length [OF assms(1)])

lemma store_reads_typed:
  assumes "token_laws (cr_lib K)" "store_reads K f s"
  shows "file_typed f"
proof -
  obtain v where "dec_credential_file (cr_lib K) v = Some f"
    using assms(2) by (auto simp: store_reads_def json_from_slice_def split: if_splits Option.bind_splits)
  then obtain w where "dec_list (dec_stored_credential (cr_lib K)) w = Some (cf_credentials f)"
    by (auto simp: dec_credential_file_def split: Option.bind_splits dest!: field_Some)
  then show ?thesis
    by (cases w) (auto simp: file_typed_def dest!: those_in
        intro: dec_stored_credential_typed [OF assms(1) sym])
qed

lemma lock_look: "keeps (\<lambda>s. disk_ok s \<and> look s (store_path K) = old) (lock_mutations K)"
proof -
  have ne: "lock_path K \<noteq> store_path K"
  proof
    assume "lock_path K = store_path K"
    then have "length (''.'' @ store_name K @ ''.lock'') = length (store_name K)"
      by (simp add: lock_path_def store_path_def)
    then show False by simp
  qed
  let ?I = "\<lambda>s. disk_ok s \<and> look s (store_path K) = old"
  have os: "keeps ?I (os_call (cr_env K))"
    using keeps_look_os_call [of "\<lambda>l. l (store_path K) = old"] .
  have meta: "keeps ?I (fs_metadata (cr_env K) p)" for p
    unfolding fs_metadata_def by (intro keeps_bind os keeps_pure)
  have create: "keeps ?I (fs_create_new (cr_env K) (lock_path K))"
    by (rule create_new_look [OF ne])
  show ?thesis
    unfolding lock_mutations_def
    by (intro keeps_bind keeps_match keeps_pure create touch_map_err os meta) (auto intro!: keeps_bind touch_map_err os meta)
qed

text \<open>
  A mutation that loads, changes and saves: on success the disk reads as the changed file;
  on an error as the old or as the changed one.
\<close>

lemma save_reads:
  assumes "json_laws (cr_lib K)" "token_laws (cr_lib K)" "file_typed f" "cf_version f = STORE_VERSION"
    and "disk_ok s" "save K f s = (Inr u, t)"
  shows "store_reads K f t" "disk_ok t"
proof -
  from triple_Inr [OF save_look _ assms(6), of "look s (store_path K)"] assms(5)
  obtain b where t: "disk_ok t" and b: "json_to_vec_pretty (cr_lib K) (enc_credential_file (cr_lib K) f) = Some b"
    "look t (store_path K) = Some (Regular b)" by auto
  show "disk_ok t" by (rule t)
  have "json_from_slice (cr_lib K) (dec_credential_file (cr_lib K)) b = Some f"
    using json_from_slice_to_vec_pretty [OF assms(1) enc_credential_file_exact [OF assms(3,4)] b(1),
        of "dec_credential_file (cr_lib K)"] dec_enc_credential_file [OF assms(2-4)] by simp
  with b show "store_reads K f t" by (auto simp: store_reads_def)
qed

text \<open>What a read of a store that reads as \<open>f\<close> can return.\<close>

lemma verify_reads:
  assumes "store_reads K f s" "fst (verify K token now s) = Inr True"
  shows "\<exists>parsed. parse_token (cr_lib K) token = Some parsed \<and> token_valid (cr_lib K) f parsed now"
proof -
  obtain parsed where p: "parse_token (cr_lib K) token = Some parsed"
    using assms(2) by (auto simp: verify_def ok_def split: option.splits)
  obtain r t where l: "load K s = (r, t)" by fastforce
  with assms(2) p obtain g where "r = Inr g" "token_valid (cr_lib K) g parsed now"
    by (auto simp: verify_def proc_defs split: sum.splits)
  moreover from this load_cases(3) [OF l] have "store_has K g s" by blast
  ultimately show ?thesis using p store_reads_unique [OF assms(1) store_has_reads] by blast
qed

lemma verify_has:
  assumes "store_has K f s" "parse_token (cr_lib K) token = Some parsed"
  shows "fst (verify K token now s) = Inr (token_valid (cr_lib K) f parsed now)
    \<or> fst (verify K token now s) = Inl CredIo"
proof -
  obtain r t where l: "load K s = (r, t)" by fastforce
  from load_cases(4) [OF l assms(1)] l assms(2) show ?thesis
    by (auto simp: verify_def proc_defs)
qed

lemma find_update_first:
  "(\<And>x. P x \<Longrightarrow> P (f x)) \<Longrightarrow> find P (update_first P f xs) = map_option f (find P xs)"
  by (induction xs) auto

lemma find_update_first_other:
  "(\<And>x. P x \<Longrightarrow> \<not> Q x) \<Longrightarrow> (\<And>x. P x \<Longrightarrow> \<not> Q (f x)) \<Longrightarrow> find Q (update_first P f xs) = find Q xs"
  by (induction xs) auto

lemma update_first_set: "x \<in> set (update_first P f xs) \<Longrightarrow> x \<in> set xs \<or> (\<exists>y \<in> set xs. P y \<and> x = f y)"
  by (induction xs) (auto split: if_splits)

lemma locked_load:
  assumes "disk_ok s" "lock_mutations K s = (Inr u, s1)" "load K s1 = (Inr f, s2)"
  shows "store_has K f s" "disk_ok s2"
proof -
  have l: "disk_ok s1" "look s1 (store_path K) = look s (store_path K)"
    using triple_Inr [OF lock_look _ assms(2), of "look s (store_path K)"] assms(1) by auto
  with load_cases(2,3) [OF assms(3)] show "store_has K f s" "disk_ok s2" by (auto simp: store_has_def)
qed

lemma file_ok_version: "store_has K f s \<Longrightarrow> cf_version f = STORE_VERSION"
  by (auto simp: store_has_def file_ok_def)

lemma revoke_reads:
  assumes laws: "json_laws (cr_lib K)" "token_laws (cr_lib K)" and "disk_ok s" "time_typed now"
    and rev: "revoke K cid now s = (Inr u, t)" and i: "uuid_parse (cr_lib K) cid = Some i"
  obtains f c where "store_has K f s" "find (\<lambda>c. sc_id c = i) (cf_credentials f) = Some c"
    "store_reads K (f\<lparr>cf_credentials := update_first (\<lambda>c. sc_id c = i) (revoked_at now) (cf_credentials f)\<rparr>) t"
proof -
  from rev i obtain s1 f s2 c where parts: "lock_mutations K s = (Inr (), s1)" "load K s1 = (Inr f, s2)"
    "find (\<lambda>c. sc_id c = i) (cf_credentials f) = Some c"
    "save K (f\<lparr>cf_credentials := update_first (\<lambda>c. sc_id c = i) (revoked_at now) (cf_credentials f)\<rparr>) s2 = (Inr u, t)"
    by (auto simp: revoke_def bindR_eq_Inr ok_or_def ok_def fail_def split: option.splits)
  note f = locked_load [OF assms(3) parts(1,2)]
  let ?f = "f\<lparr>cf_credentials := update_first (\<lambda>c. sc_id c = i) (revoked_at now) (cf_credentials f)\<rparr>"
  have "file_typed ?f"
    using store_reads_typed [OF laws(2) store_has_reads [OF f(1)]] assms(4)
    by (auto simp: file_typed_def credential_typed_def revoked_at_def dest!: update_first_set split: option.splits)
      (metis min_def)
  then have "store_reads K ?f t"
    by (rule save_reads [OF laws _ _ f(2) parts(4)]) (use file_ok_version [OF f(1)] in simp)
  with f(1) parts(3) that show thesis by blast
qed

text \<open>A token of a credential that was revoked in the store that is read.\<close>

lemma revoked_dead:
  assumes reads: "store_reads K (f\<lparr>cf_credentials := update_first (\<lambda>c. sc_id c = i) (revoked_at now) (cf_credentials f)\<rparr>) t"
    and c: "find (\<lambda>c. sc_id c = i) (cf_credentials f) = Some c"
    and token: "parse_token (cr_lib K) token = Some (i, secret)" "now \<le> later"
  shows "fst (verify K token later t) \<noteq> Inr True"
proof -
  have found: "find (\<lambda>c. sc_id c = i) (update_first (\<lambda>c. sc_id c = i) (revoked_at now) (cf_credentials f)) = Some (revoked_at now c)"
    using c by (simp add: find_update_first revoked_at_def)
  have "\<not> active_at (revoked_at now c) later"
    using token(2) by (auto simp: active_at_def revoked_at_def split: option.splits)
  with verify_reads [OF reads, of token later] token(1) found show ?thesis by (auto simp: token_valid_def)
qed

section \<open>Properties\<close>

text \<open>
  C31: a revoked credential never verifies again. Once a revocation at time \<open>now\<close> has
  returned, no token with that credential's identifier is accepted at any time from
  \<open>now\<close> on, whatever its secret and whatever the disk does; every other credential in
  the store keeps exactly its verdict at every time.
\<close>

theorem revoked_never_verifies:
  assumes laws: "json_laws (cr_lib K)" "token_laws (cr_lib K)" and disk: "disk_ok s" and now: "time_typed now"
    and rev: "revoke K cid now s = (Inr (), t)" and i: "uuid_parse (cr_lib K) cid = Some i"
  shows "(parse_token (cr_lib K) token = Some (i, secret) \<and> now \<le> later \<longrightarrow>
      fst (verify K token later t) \<noteq> Inr True) \<and>
    (\<exists>f f'. store_reads K f s \<and> store_reads K f' t \<and>
      (\<forall>parsed time. fst parsed \<noteq> i \<longrightarrow>
        token_valid (cr_lib K) f' parsed time = token_valid (cr_lib K) f parsed time))"
proof -
  obtain f c where f: "store_has K f s" and c: "find (\<lambda>c. sc_id c = i) (cf_credentials f) = Some c"
    and reads: "store_reads K (f\<lparr>cf_credentials := update_first (\<lambda>c. sc_id c = i) (revoked_at now) (cf_credentials f)\<rparr>) t"
    by (rule revoke_reads [OF laws disk now rev i])
  let ?f = "f\<lparr>cf_credentials := update_first (\<lambda>c. sc_id c = i) (revoked_at now) (cf_credentials f)\<rparr>"
  have other: "token_valid (cr_lib K) ?f parsed time = token_valid (cr_lib K) f parsed time"
    if "fst parsed \<noteq> i" for parsed time
    using that by (simp add: token_valid_def revoked_at_def find_update_first_other)
  have "fst (verify K token later t) \<noteq> Inr True"
    if "parse_token (cr_lib K) token = Some (i, secret)" "now \<le> later"
    by (rule revoked_dead [OF reads c that])
  then show ?thesis using store_has_reads [OF f] reads other by blast
qed

lemma parse_issued_token:
  assumes "token_laws C" "length i = 16" "length secret = 32"
  shows "parse_token C (''tte1.'' @ uuid_text C i @ ''.'' @ b64_encode C secret) = Some (i, secret)"
proof -
  have dot: "CHR ''.'' \<notin> set ''tte1''" "CHR ''.'' \<notin> set (uuid_text C i)" "CHR ''.'' \<notin> set (b64_encode C secret)"
    using assms by (auto simp: token_laws_def)
  have "split_on (CHR ''.'') (''tte1'' @ CHR ''.'' # uuid_text C i @ CHR ''.'' # b64_encode C secret) =
      [''tte1'', uuid_text C i, b64_encode C secret]"
    by (simp only: split_on_append [OF dot(1)] split_on_append [OF dot(2)] split_on_no_sep [OF dot(3)])
  then show ?thesis using assms by (simp add: parse_token_def token_laws_def)
qed

lemma hex_digest_ok: "digest_laws C \<Longrightarrow> length (digest_secret C i x) = 64 \<and> list_all is_lower_hex (digest_secret C i x)"
  by (simp add: digest_secret_def hex_digest_length hex_digest_lower list_all_iff)

text \<open>Issuing and saving, on whatever file the credential is added to.\<close>

lemma issue_save:
  assumes laws: "json_laws (cr_lib K)" "token_laws (cr_lib K)" "env_laws (cr_env K)"
    and g: "file_typed g" "cf_version g = STORE_VERSION" and now: "time_typed now" and disk: "disk_ok s"
    and rot: "\<And>u. rot = Some u \<Longrightarrow> length u = 16"
    and iss: "issue K label rot now ttl s = (Inr (st, public), s')"
    and sav: "save K (push_credential st g) s' = (Inr u, t)"
    and fresh: "\<And>n. fresh_uuid (cr_env K) n \<notin> sc_id ` set (cf_credentials g)"
  obtains parsed where "store_reads K (push_credential st g) t"
    "parse_token (cr_lib K) (ic_token public) = Some parsed"
    "fst parsed \<notin> sc_id ` set (cf_credentials g)"
    "\<And>time. token_valid (cr_lib K) (push_credential st g) parsed time \<longleftrightarrow> now \<le> time \<and> time < sat_add_i64 now ttl"
    "\<And>p time. fst p \<noteq> fst parsed \<Longrightarrow>
       token_valid (cr_lib K) (push_credential st g) p time = token_valid (cr_lib K) g p time"
proof
  let ?i = "fresh_uuid (cr_env K) (tick s)" and ?x = "fresh_secret (cr_env K) (tick s)"
  have st: "st = \<lparr>sc_id = ?i, sc_label = label, sc_secret_digest = digest_secret (cr_lib K) ?i ?x,
      sc_created_at_ms = now, sc_expires_at_ms = sat_add_i64 now ttl, sc_valid_until_ms = None,
      sc_revoked_at_ms = None, sc_rotation_of = rot\<rparr>"
    and tok: "ic_token public = ''tte1.'' @ uuid_text (cr_lib K) ?i @ ''.'' @ b64_encode (cr_lib K) ?x"
    and s': "disk_ok s'"
    using iss disk by (auto simp: issue_def Let_def)
  have len: "length ?i = 16" "length ?x = 32" using laws(3) by (simp_all add: env_laws_def)
  have "file_typed (push_credential st g)"
    using g(1) now len rot
    by (auto simp: file_typed_def push_credential_def st credential_typed_def time_typed_def
        sat_add_i64_def i64_min_def i64_max_def)
  then show "store_reads K (push_credential st g) t"
    by (rule save_reads [OF laws(1,2) _ _ s' sav]) (use g(2) in \<open>simp add: push_credential_def\<close>)
  show "parse_token (cr_lib K) (ic_token public) = Some (?i, ?x)"
    using parse_issued_token [OF laws(2) len] tok by simp
  show "fst (?i, ?x) \<notin> sc_id ` set (cf_credentials g)" using fresh by simp
  have new: "find (\<lambda>c. sc_id c = ?i) (cf_credentials g) = None"
    using fresh [of "tick s"] by (force simp: find_None_iff)
  have app: "find P (xs @ ys) = (case find P xs of None \<Rightarrow> find P ys | Some x \<Rightarrow> Some x)"
    for P and xs ys :: "stored_credential list" by (induction xs) auto
  show "token_valid (cr_lib K) (push_credential st g) (?i, ?x) time \<longleftrightarrow> now \<le> time \<and> time < sat_add_i64 now ttl" for time
    using new by (simp add: token_valid_def push_credential_def app st active_at_def)
  show "token_valid (cr_lib K) (push_credential st g) p time = token_valid (cr_lib K) g p time"
    if "fst p \<noteq> fst (?i, ?x)" for p time
    using that by (auto simp: token_valid_def push_credential_def app st split: option.splits)
qed


text \<open>
  C33: rotation hands over within the overlap. When a rotation returns, the new token is
  accepted in exactly its lifetime; the old credential, with its own secret, is then
  accepted exactly at the times within its original lifetime, before any revocation and
  before the end of this overlap (which replaces the end an earlier rotation had set);
  every other credential keeps its verdict.
\<close>

theorem rotation_overlap:
  assumes laws: "json_laws (cr_lib K)" "token_laws (cr_lib K)" "env_laws (cr_env K)"
    and disk: "disk_ok s" and now: "time_typed now"
    and rot: "rotate K cid now overlap ttl s = (Inr public, t)" and i: "uuid_parse (cr_lib K) cid = Some i"
    and fresh: "\<forall>f n. store_reads K f s \<longrightarrow> fresh_uuid (cr_env K) n \<notin> sc_id ` set (cf_credentials f)"
  shows "\<exists>f f' old parsed. store_reads K f s \<and> store_reads K f' t \<and>
    find (\<lambda>c. sc_id c = i) (cf_credentials f) = Some old \<and> active_at old now \<and>
    parse_token (cr_lib K) (ic_token public) = Some parsed \<and>
    (\<forall>time. token_valid (cr_lib K) f' parsed time \<longleftrightarrow> now \<le> time \<and> time < sat_add_i64 now ttl) \<and>
    (\<forall>x time. token_valid (cr_lib K) f' (i, x) time \<longleftrightarrow>
       digest_secret (cr_lib K) i x = sc_secret_digest old \<and>
       active_at (old\<lparr>sc_valid_until_ms := None\<rparr>) time \<and> time < sat_add_i64 now overlap) \<and>
    (\<forall>p time. fst p \<noteq> fst parsed \<longrightarrow> fst p \<noteq> i \<longrightarrow>
       token_valid (cr_lib K) f' p time = token_valid (cr_lib K) f p time)"
proof -
  from rot i obtain s1 f s2 old st s3 where parts: "lock_mutations K s = (Inr (), s1)" "load K s1 = (Inr f, s2)"
    "find (\<lambda>c. sc_id c = i) (cf_credentials f) = Some old" "active_at old now"
    "issue K (sc_label old) (Some (sc_id old)) now ttl s2 = (Inr (st, public), s3)"
    "save K (push_credential st (f\<lparr>cf_credentials :=
        update_first (\<lambda>c. sc_id c = i) (rotated_until now overlap) (cf_credentials f)\<rparr>)) s3 = (Inr (), t)"
    by (auto simp: rotate_def bindR_eq_Inr lift_result_def ok_def ok_or_def failIf_def fail_def
        split: prod.splits option.splits if_splits)
  note f = locked_load [OF disk parts(1,2)]
  note r = store_has_reads [OF f(1)]
  let ?g = "f\<lparr>cf_credentials := update_first (\<lambda>c. sc_id c = i) (rotated_until now overlap) (cf_credentials f)\<rparr>"
  have ids: "sc_id ` set (cf_credentials ?g) \<subseteq> sc_id ` set (cf_credentials f)"
    by (auto dest!: update_first_set simp: rotated_until_def)
  have typed: "file_typed ?g"
    using store_reads_typed [OF laws(2) r]
    by (auto simp: file_typed_def credential_typed_def rotated_until_def time_typed_def sat_add_i64_def
        i64_min_def i64_max_def dest!: update_first_set)
  have old: "old \<in> set (cf_credentials f)" "sc_id old = i"
    using parts(3) by (auto simp: find_Some_iff)
  then have oldlen: "length (sc_id old) = 16"
    using store_reads_typed [OF laws(2) r] by (auto simp: file_typed_def credential_typed_def)
  have found: "find (\<lambda>c. sc_id c = i) (cf_credentials ?g) = Some (rotated_until now overlap old)"
    using parts(3) by (simp add: find_update_first rotated_until_def)
  have other: "token_valid (cr_lib K) ?g p time = token_valid (cr_lib K) f p time" if "fst p \<noteq> i" for p time
    using that by (simp add: token_valid_def rotated_until_def find_update_first_other)
  have window: "token_valid (cr_lib K) ?g (i, x) time \<longleftrightarrow>
      digest_secret (cr_lib K) i x = sc_secret_digest old \<and>
      active_at (old\<lparr>sc_valid_until_ms := None\<rparr>) time \<and> time < sat_add_i64 now overlap" for x time
    using found old(2) by (auto simp: token_valid_def rotated_until_def active_at_def)
  have fresh': "fresh_uuid (cr_env K) n \<notin> sc_id ` set (cf_credentials ?g)" for n
    using fresh [rule_format, OF r] ids by blast
  obtain parsed where p: "store_reads K (push_credential st ?g) t"
    "parse_token (cr_lib K) (ic_token public) = Some parsed"
    "fst parsed \<notin> sc_id ` set (cf_credentials ?g)"
    "\<And>time. token_valid (cr_lib K) (push_credential st ?g) parsed time \<longleftrightarrow> now \<le> time \<and> time < sat_add_i64 now ttl"
    "\<And>q time. fst q \<noteq> fst parsed \<Longrightarrow>
       token_valid (cr_lib K) (push_credential st ?g) q time = token_valid (cr_lib K) ?g q time"
    by (rule issue_save [OF laws typed _ now f(2) _ parts(5,6) fresh'])
      (use file_ok_version [OF f(1)] oldlen in auto)
  have "fst parsed \<noteq> i"
    using p(3) found by (auto simp: find_Some_iff rotated_until_def old(2)) (metis nth_mem image_eqI old(2))
  then show ?thesis
    by (intro exI [of _ f] exI [of _ "push_credential st ?g"] exI [of _ old] exI [of _ parsed] conjI allI impI)
      (use r p parts(3,4) window other in auto)
qed

end
