(* ===== verification/Edge_Instance.thy ===== *)
theory Edge_Instance
  imports Spool_Inv Credentials
begin

text \<open>
  One concrete instance of the third-party code and of the environment, small enough to be
  evaluated, on which the theorems are applied: hexadecimal text, a checksum in place of
  SHA-256, an unencrypted frame with a 16-byte tag in place of the cipher, and a prefix
  notation in place of JSON text. It satisfies every law the theorems assume.
\<close>

section \<open>Hexadecimal\<close>

definition hex_digit :: "nat \<Rightarrow> char" where
  "hex_digit n = byte_of (if n < 10 then 48 + n else 87 + n)"

definition hex_value :: "char \<Rightarrow> nat" where
  "hex_value c = (if byte_val c < 58 then byte_val c - 48 else byte_val c - 87)"

definition toy_hex :: "bytes \<Rightarrow> string" where
  "toy_hex b = concat (map (\<lambda>c. [hex_digit (byte_val c div 16), hex_digit (byte_val c mod 16)]) b)"

fun toy_unhex :: "string \<Rightarrow> bytes option" where
  "toy_unhex [] = Some []"
| "toy_unhex [c] = None"
| "toy_unhex (c # d # s) = map_option (\<lambda>b. byte_of ((hex_value c * 16 + hex_value d) mod 256) # b) (toy_unhex s)"

lemma hex_digit_val: "n < 16 \<Longrightarrow> byte_val (hex_digit n) = (if n < 10 then 48 + n else 87 + n)"
  by (simp add: hex_digit_def byte_val_byte_of)

lemma hex_value_digit: "n < 16 \<Longrightarrow> hex_value (hex_digit n) = n"
  by (simp add: hex_value_def hex_digit_val)

lemma unhex_hex: "toy_unhex (toy_hex b) = Some b"
proof (induction b)
  case (Cons c b)
  have "byte_val c div 16 < 16" using byte_val_less [of c] by linarith
  then have "byte_of ((hex_value (hex_digit (byte_val c div 16)) * 16 + hex_value (hex_digit (byte_val c mod 16))) mod 256) = c"
    by (simp add: hex_value_digit)
  with Cons show ?case by (simp add: toy_hex_def)
qed (simp add: toy_hex_def)

lemma hex_digit_lower: "n < 16 \<Longrightarrow> is_lower_hex (hex_digit n)"
  by (auto simp: is_lower_hex_def is_ascii_digit_def hex_digit_val)

lemma toy_hex_lower: "c \<in> set (toy_hex b) \<Longrightarrow> is_lower_hex c"
proof (induction b)
  case (Cons d b)
  have "byte_val d div 16 < 16" using byte_val_less [of d] by linarith
  with Cons show ?case by (auto simp: toy_hex_def hex_digit_lower)
qed (simp add: toy_hex_def)

lemma toy_hex_length: "length (toy_hex b) = 2 * length b"
  by (induction b) (simp_all add: toy_hex_def)

lemma dot_not_hex: "\<not> is_lower_hex (CHR ''.'')"
  by (simp add: is_lower_hex_def is_ascii_digit_def byte_val_def)

lemma unhex_length: "toy_unhex s = Some b \<Longrightarrow> length s = 2 * length b"
  by (induction s arbitrary: b rule: toy_unhex.induct) auto

section \<open>Checksum and frame\<close>

definition toy_sha :: "bytes \<Rightarrow> bytes" where
  "toy_sha b = replicate 28 (CHR 0x00) @ be_bytes 4 (foldl (\<lambda>a c. (a * 31 + byte_val c) mod 1000003) 7 b)"

definition toy_tag :: bytes where
  "toy_tag = replicate 16 (CHR ''#'')"

definition toy_seal :: "bytes \<Rightarrow> bytes \<Rightarrow> bytes \<Rightarrow> bytes \<Rightarrow> bytes option" where
  "toy_seal k n m a = Some (m @ toy_tag)"

definition toy_open :: "bytes \<Rightarrow> bytes \<Rightarrow> bytes \<Rightarrow> bytes \<Rightarrow> bytes option" where
  "toy_open k n c a = strip_suffix toy_tag c"

section \<open>Text of values\<close>

definition toy_len :: "nat \<Rightarrow> bytes" where
  "toy_len n = dec_digits n @ '';''"

fun toy_json :: "json \<Rightarrow> bytes" where
  "toy_json JNull = ''n''"
| "toy_json (JBool b) = (if b then ''t'' else ''f'')"
| "toy_json (JNum (PosInt n)) = ''p'' @ toy_len n"
| "toy_json (JNum (NegInt i)) = ''m'' @ toy_len (nat (- i))"
| "toy_json (JNum (Float x)) = ''x''"
| "toy_json (JStr s) = ''s'' @ toy_len (length s) @ s"
| "toy_json (JArr vs) = ''a'' @ toy_len (length vs) @ concat (map toy_json vs)"
| "toy_json (JObj kvs) = ''o'' @ toy_len (length kvs)
     @ concat (map (\<lambda>p. toy_len (length (fst p)) @ fst p @ toy_json (snd p)) kvs)"

definition read_len :: "bytes \<Rightarrow> (nat \<times> bytes) option" where
  "read_len b = (case split_once (CHR '';'') b of
     None \<Rightarrow> None
   | Some (d, rest) \<Rightarrow> map_option (\<lambda>n. (n, rest)) (foldl dec_step (Some 0) d))"

fun read_value :: "nat \<Rightarrow> bytes \<Rightarrow> (jsrc \<times> bytes) option"
  and read_items :: "nat \<Rightarrow> nat \<Rightarrow> bytes \<Rightarrow> (jsrc list \<times> bytes) option"
  and read_entries :: "nat \<Rightarrow> nat \<Rightarrow> bytes \<Rightarrow> ((string option \<times> jsrc) list \<times> bytes) option" where
  "read_value 0 b = None"
| "read_value (Suc k) b =
     (case b of
        [] \<Rightarrow> None
      | c # r \<Rightarrow>
          if c = CHR ''n'' then Some (SNull, r)
          else if c = CHR ''t'' then Some (SBool True, r)
          else if c = CHR ''f'' then Some (SBool False, r)
          else (case read_len r of
            None \<Rightarrow> None
          | Some (n, r') \<Rightarrow>
              if c = CHR ''p'' then Some (SU64 n, r')
              else if c = CHR ''m'' then Some (SI64 (- int n), r')
              else if c = CHR ''s'' then Some (SStr (take n r'), drop n r')
              else if c = CHR ''a'' then map_option (\<lambda>(xs, r). (SSeq xs, r)) (read_items k n r')
              else if c = CHR ''o'' then map_option (\<lambda>(xs, r). (SMap xs, r)) (read_entries k n r')
              else None))"
| "read_items 0 n b = None"
| "read_items (Suc k) n b =
     (if n = 0 then Some ([], b)
      else case read_value k b of
        None \<Rightarrow> None
      | Some (x, r) \<Rightarrow> map_option (\<lambda>(xs, r'). (x # xs, r')) (read_items k (n - 1) r))"
| "read_entries 0 n b = None"
| "read_entries (Suc k) n b =
     (if n = 0 then Some ([], b)
      else case read_len b of
        None \<Rightarrow> None
      | Some (l, r) \<Rightarrow>
          (case read_value k (drop l r) of
             None \<Rightarrow> None
           | Some (x, r') \<Rightarrow> map_option (\<lambda>(xs, r''). ((Some (take l r), x) # xs, r'')) (read_entries k (n - 1) r')))"

definition toy_read :: "bytes \<Rightarrow> jsrc \<times> bool" where
  "toy_read b = (case read_value (2 * length b + 1) b of
     Some (x, r) \<Rightarrow> (x, r = []) | None \<Rightarrow> (SErr, False))"

text \<open>Values whose text would not read back are not printed.\<close>

definition toy_to_vec :: "json \<Rightarrow> bytes option" where
  "toy_to_vec v = (if json_exact v then Some (toy_json v) else None)"

definition toy_uuid_parse :: "string \<Rightarrow> bytes option" where
  "toy_uuid_parse s = (case toy_unhex s of Some u \<Rightarrow> if length u = 16 then Some u else None | None \<Rightarrow> None)"

definition toy_crates :: crates where
  "toy_crates = \<lparr>sha256 = toy_sha, hex_encode = toy_hex, jcs_to_vec = toy_json,
     json_to_vec = toy_to_vec, json_to_vec_pretty = toy_to_vec, json_read = toy_read,
     json_key_of_u64 = dec_digits, json_key_to_u64 = parse_u64,
     aead_encrypt = toy_seal, aead_decrypt = toy_open,
     b64_encode = toy_hex, b64_decode = toy_unhex, uuid_text = toy_hex, uuid_parse = toy_uuid_parse\<rparr>"

definition calm_env :: env where
  "calm_env = \<lparr>os_fault = \<lambda>_. None, torn_write = \<lambda>_. 0, dir_order = \<lambda>_ xs. xs,
     fresh_uuid = \<lambda>n. CHR 0x01 # be_bytes 15 n, fresh_nonce = \<lambda>n. be_bytes 24 n, fresh_secret = \<lambda>n. be_bytes 32 n\<rparr>"

section \<open>The text reads back\<close>

lemma semicolon_not_digit: "\<not> is_ascii_digit (CHR '';'')"
  by (simp add: is_ascii_digit_def byte_val_def)

lemma read_len_toy: "read_len (toy_len n @ r) = Some (n, r)"
proof -
  have "CHR '';'' \<notin> set (dec_digits n)" using dec_digits_digits [of n] semicolon_not_digit by blast
  then show ?thesis by (simp add: read_len_def toy_len_def split_once_append dec_step_digits)
qed

lemma toy_len_length: "2 \<le> length (toy_len n)"
  by (cases "dec_digits n") (simp_all add: toy_len_def)

lemma read_items_toy:
  assumes "\<And>v k r. v \<in> set vs \<Longrightarrow> 2 * length (toy_json v) + 1 \<le> k \<Longrightarrow>
      read_value k (toy_json v @ r) = Some (src_of v, r)"
    and "2 * length (concat (map toy_json vs)) + 2 \<le> k" "\<And>v. v \<in> set vs \<Longrightarrow> toy_json v \<noteq> []"
  shows "read_items k (length vs) (concat (map toy_json vs) @ r) = Some (map src_of vs, r)"
  using assms
proof (induction vs arbitrary: k)
  case Nil
  then show ?case by (cases k) auto
next
  case (Cons v vs)
  then obtain j where j: "k = Suc j" by (cases k) auto
  obtain m where m: "length (toy_json v) = Suc m" using Cons.prems(3) [of v] by (cases "toy_json v") auto
  have "read_items j (length vs) (concat (map toy_json vs) @ r) = Some (map src_of vs, r)"
    by (rule Cons.IH) (use Cons.prems j m in auto)
  with j m Cons.prems(1) [of v j "concat (map toy_json vs) @ r"] Cons.prems(2) show ?case by simp
qed

lemma read_entries_toy:
  assumes "\<And>p k r. p \<in> set kvs \<Longrightarrow> 2 * length (toy_json (snd p)) + 1 \<le> k \<Longrightarrow>
      read_value k (toy_json (snd p) @ r) = Some (src_of (snd p), r)"
    and "2 * length (concat (map (\<lambda>p. toy_len (length (fst p)) @ fst p @ toy_json (snd p)) kvs)) + 2 \<le> k"
  shows "read_entries k (length kvs) (concat (map (\<lambda>p. toy_len (length (fst p)) @ fst p @ toy_json (snd p)) kvs) @ r) =
    Some (map (\<lambda>p. (Some (fst p), src_of (snd p))) kvs, r)"
  using assms
proof (induction kvs arbitrary: k)
  case Nil
  then show ?case by (cases k) auto
next
  case (Cons p kvs)
  then obtain j where j: "k = Suc j" by (cases k) auto
  have "2 \<le> length (toy_len (length (fst p)))" by (rule toy_len_length)
  moreover from this have "read_entries j (length kvs) (concat (map (\<lambda>p. toy_len (length (fst p)) @ fst p @ toy_json (snd p)) kvs) @ r) =
      Some (map (\<lambda>p. (Some (fst p), src_of (snd p))) kvs, r)"
    by (intro Cons.IH) (use Cons.prems j in auto)
  ultimately show ?case using j Cons.prems by (simp add: read_len_toy)
qed

lemma toy_json_not_Nil [simp]: "toy_json v \<noteq> []"
  by (induction v rule: toy_json.induct) auto

lemma read_value_toy:
  "json_exact v \<Longrightarrow> 2 * length (toy_json v) + 1 \<le> k \<Longrightarrow> read_value k (toy_json v @ r) = Some (src_of v, r)"
proof (induction v arbitrary: k r rule: toy_json.induct)
  case (7 vs)
  then obtain j where j: "k = Suc j" by (cases k) auto
  have "read_items j (length vs) (concat (map toy_json vs) @ r) = Some (map src_of vs, r)"
    by (rule read_items_toy) (use 7 j toy_len_length [of "length vs"] in auto)
  with j show ?case by (simp add: read_len_toy)
next
  case (8 kvs)
  then obtain j where j: "k = Suc j" by (cases k) auto
  have "read_entries j (length kvs) (concat (map (\<lambda>p. toy_len (length (fst p)) @ fst p @ toy_json (snd p)) kvs) @ r) =
      Some (map (\<lambda>p. (Some (fst p), src_of (snd p))) kvs, r)"
    by (rule read_entries_toy) (use 8 j toy_len_length [of "length kvs"] in auto)
  with j show ?case by (simp add: read_len_toy case_prod_beta)
qed (case_tac k; simp add: read_len_toy)+

lemma toy_read_json: "json_exact v \<Longrightarrow> toy_read (toy_json v) = (src_of v, True)"
  using read_value_toy [of v "2 * length (toy_json v) + 1" "[]"] by (simp add: toy_read_def)

section \<open>The laws hold\<close>

lemma toy_digest_laws: "digest_laws toy_crates"
  using toy_hex_lower by (auto simp: digest_laws_def toy_crates_def toy_sha_def toy_hex_length)

lemma toy_aead_laws: "aead_laws toy_crates"
  by (auto simp: aead_laws_def toy_crates_def toy_seal_def toy_open_def strip_suffix_Some toy_tag_def)

lemma toy_json_laws: "json_laws toy_crates"
proof -
  have key: "parse_u64 (dec_digits n) = Some n" if "n \<le> u64_max" for n
    using dec_digits_digits that
    by (intro parse_u64_digits) (auto simp: dec_step_digits)
  show ?thesis
    using key by (auto simp: json_laws_def toy_crates_def toy_to_vec_def toy_read_json split: if_splits)
qed

lemma toy_token_laws: "token_laws toy_crates"
  using toy_hex_lower dot_not_hex
  by (auto simp: token_laws_def toy_crates_def unhex_hex toy_uuid_parse_def split: option.splits if_splits)

lemma calm_env_laws: "env_laws calm_env"
  by (simp add: env_laws_def calm_env_def)

section \<open>A spool and a store\<close>

definition toy_config :: spool_config where
  "toy_config = \<lparr>max_bytes = 1048576, max_records = 4, retention_ms = 60000,
     batch_max_bytes = 65536, batch_max_records = 4\<rparr>"

definition toy_ctx :: ctx where
  "toy_ctx = \<lparr>lib = toy_crates, ev = calm_env, config = toy_config, spool_key = replicate 32 (CHR ''k'')\<rparr>"

definition empty_spool :: spool where
  "empty_spool = \<lparr>files = \<lambda>_. [], tick = 0, state_of = default_state, storage_write_failed = False\<rparr>"

definition toy_envelope :: "string \<Rightarrow> receiver_envelope" where
  "toy_envelope i = \<lparr>env_version = 1, vin = ''5YJ3E1EA7KF000001'', txid = i, tx_type = ''V'',
     received_at_ms = 1700000000000, timestamp_ms = 1700000000000, payload = JObj [],
     device_client_version = None, firmware_version = None\<rparr>"

definition toy_store :: credential_store where
  "toy_store = \<lparr>cr_lib = toy_crates, cr_env = calm_env, store_name = ''c'', path_absolute = True, lock_private = True\<rparr>"

definition empty_store :: "unit world" where
  "empty_store = \<lparr>files = \<lambda>_. [], tick = 0\<rparr>"

lemma toy_ctx_ok: "ctx_ok toy_ctx"
  using toy_digest_laws by (simp add: ctx_ok_def toy_ctx_def toy_config_def u64_max_def)

lemma empty_spool_ok: "disk_ok empty_spool"
  by (simp add: disk_ok_def empty_spool_def)

lemma empty_store_ok: "disk_ok empty_store"
  by (simp add: disk_ok_def empty_store_def)

end
