(* ===== verification/Edge_Config.thy ===== *)
theory Edge_Config
  imports Spool_Inv
begin

text \<open>
  config.rs: the configuration file, its validation, the checks of the runtime files and
  the configuration of the spool. TOML reading is a parameter; the file system is a
  read-only view that answers metadata queries. The functions that write (\<open>initialize\<close>
  and \<open>rotate_receiver_token\<close>) are in \<open>Edge_Init\<close>.
\<close>

unbundle bit_operations_syntax

section \<open>Data\<close>

datatype config_error =
    InvalidToml
  | ConfUnsupportedVersion
  | ConfInvalidPath
  | UnsafeBind
  | InvalidLimit
  | MissingFile
  | UnsafePermissions
  | AlreadyInitialized
  | ConfIo

datatype ip_addr = V4 nat nat nat nat | V6 nat

record socket_addr =
  sa_ip :: ip_addr
  sa_port :: nat

record spool_limits =
  lim_max_bytes :: nat
  lim_max_records :: nat
  lim_retention_seconds :: nat
  lim_batch_max_bytes :: nat
  lim_batch_max_records :: nat

record edge_config =
  conf_version :: nat
  state_directory :: string
  receiver_bind :: socket_addr
  hub_bind :: socket_addr
  allow_local_source_run_hub_loopback :: bool
  receiver_bearer_path :: string
  spool_key_path :: string
  credential_store_path :: string
  hub_server_certificate_path :: string
  hub_server_private_key_path :: string
  hub_client_ca_path :: string
  spool_limits_of :: spool_limits

definition MAX_CONFIG_BYTES :: nat where
  "MAX_CONFIG_BYTES = 1048576"

definition MAX_SPOOL_BYTES :: nat where
  "MAX_SPOOL_BYTES = 8 * 1024 * 1024 * 1024"

definition MAX_SPOOL_RECORDS :: nat where
  "MAX_SPOOL_RECORDS = 1000000"

definition MAX_RETENTION_SECONDS :: nat where
  "MAX_RETENTION_SECONDS = 30 * 24 * 60 * 60"

definition MAX_BATCH_BYTES :: nat where
  "MAX_BATCH_BYTES = 4 * 1024 * 1024"

definition MAX_BATCH_RECORDS :: nat where
  "MAX_BATCH_RECORDS = 1024"

section \<open>Paths, addresses and text\<close>

text \<open>\<open>Path::components\<close> on Unix: a root, then the parts; a dot counts only at the start.\<close>

datatype component = RootDir | CurDir | ParentDir | Normal string

definition is_absolute :: "string \<Rightarrow> bool" where
  "is_absolute p \<longleftrightarrow> (case p of [] \<Rightarrow> False | c # _ \<Rightarrow> c = CHR ''/'')"

definition component_of :: "string \<Rightarrow> component" where
  "component_of s = (if s = ''..'' then ParentDir else Normal s)"

definition components :: "string \<Rightarrow> component list" where
  "components p =
     (let parts = filter (\<lambda>s. s \<noteq> []) (split_on (CHR ''/'') p);
          lead = (if is_absolute p then [RootDir]
                  else case parts of s # _ \<Rightarrow> if s = ''.'' then [CurDir] else [] | [] \<Rightarrow> [])
      in lead @ map component_of (filter (\<lambda>s. s \<noteq> ''.'') parts))"

text \<open>Equality of paths is equality of their components.\<close>

definition path_eq :: "string \<Rightarrow> string \<Rightarrow> bool" where
  "path_eq p q \<longleftrightarrow> components p = components q"

fun is_loopback :: "ip_addr \<Rightarrow> bool" where
  "is_loopback (V4 a b c d) \<longleftrightarrow> a = 127"
| "is_loopback (V6 n) \<longleftrightarrow> n = 1"

text \<open>\<open>std::str::from_utf8\<close>.\<close>

definition between :: "nat \<Rightarrow> char \<Rightarrow> nat \<Rightarrow> bool" where
  "between lo c hi \<longleftrightarrow> lo \<le> byte_val c \<and> byte_val c \<le> hi"

definition cont :: "char \<Rightarrow> bool" where
  "cont c \<longleftrightarrow> between 128 c 191"

fun utf8_valid :: "bytes \<Rightarrow> bool" where
  "utf8_valid [] \<longleftrightarrow> True"
| "utf8_valid (a # bs) \<longleftrightarrow>
     (if byte_val a < 128 then utf8_valid bs
      else case bs of
        [] \<Rightarrow> False
      | b # cs \<Rightarrow>
          if between 194 a 223 then cont b \<and> utf8_valid cs
          else (case cs of
            [] \<Rightarrow> False
          | c # ds \<Rightarrow>
              if byte_val a = 224 then between 160 b 191 \<and> cont c \<and> utf8_valid ds
              else if between 225 a 236 \<or> between 238 a 239 then cont b \<and> cont c \<and> utf8_valid ds
              else if byte_val a = 237 then between 128 b 159 \<and> cont c \<and> utf8_valid ds
              else (case ds of
                [] \<Rightarrow> False
              | d # es \<Rightarrow>
                  (byte_val a = 240 \<and> between 144 b 191 \<or> between 241 a 243 \<and> cont b
                     \<or> byte_val a = 244 \<and> between 128 b 143) \<and> cont c \<and> cont d \<and> utf8_valid es)))"

section \<open>Validation\<close>

text \<open>The scan of the runtime paths with the set of those seen.\<close>

fun repeated_path :: "string \<Rightarrow> component list list \<Rightarrow> string list \<Rightarrow> bool" where
  "repeated_path state seen [] \<longleftrightarrow> False"
| "repeated_path state seen (p # ps) \<longleftrightarrow>
     path_eq p state \<or> components p \<in> set seen \<or> repeated_path state (components p # seen) ps"

definition runtime_paths :: "edge_config \<Rightarrow> string list" where
  "runtime_paths c = [receiver_bearer_path c, spool_key_path c, credential_store_path c,
     hub_server_certificate_path c, hub_server_private_key_path c, hub_client_ca_path c]"

definition validate_shape :: "edge_config \<Rightarrow> config_error + unit" where
  "validate_shape c =
     (if conf_version c \<noteq> 1 then Inl ConfUnsupportedVersion
      else if \<not> list_all is_absolute (state_directory c # runtime_paths c) then Inl ConfInvalidPath
      else if repeated_path (state_directory c) [] (runtime_paths c) then Inl ConfInvalidPath
      else if \<not> is_loopback (sa_ip (receiver_bind c))
              \<or> is_loopback (sa_ip (hub_bind c)) \<noteq> allow_local_source_run_hub_loopback c
              \<or> sa_port (receiver_bind c) = 0 \<or> sa_port (hub_bind c) = 0
              \<or> sa_port (receiver_bind c) = sa_port (hub_bind c)
           then Inl UnsafeBind
      else let l = spool_limits_of c in
        if \<not> (1048576 \<le> lim_max_bytes l \<and> lim_max_bytes l \<le> MAX_SPOOL_BYTES)
           \<or> \<not> (1 \<le> lim_max_records l \<and> lim_max_records l \<le> MAX_SPOOL_RECORDS)
           \<or> \<not> (60 \<le> lim_retention_seconds l \<and> lim_retention_seconds l \<le> MAX_RETENTION_SECONDS)
           \<or> \<not> (1 \<le> lim_batch_max_bytes l \<and> lim_batch_max_bytes l \<le> MAX_BATCH_BYTES)
           \<or> \<not> (1 \<le> lim_batch_max_records l \<and> lim_batch_max_records l \<le> MAX_BATCH_RECORDS)
           \<or> lim_batch_max_bytes l > lim_max_bytes l
           \<or> lim_batch_max_records l > lim_max_records l
        then Inl InvalidLimit
        else Inr ())"

definition spool_config_of :: "edge_config \<Rightarrow> config_error + spool_config" where
  "spool_config_of c =
     (let l = spool_limits_of c in
      case Option.bind (checked_mul_u64 (lim_retention_seconds l) 1000) i64_try_from_u64 of
        None \<Rightarrow> Inl InvalidLimit
      | Some retention \<Rightarrow>
          Inr \<lparr>max_bytes = lim_max_bytes l, max_records = lim_max_records l, retention_ms = retention,
            batch_max_bytes = lim_batch_max_bytes l, batch_max_records = lim_batch_max_records l\<rparr>)"

definition from_toml :: "(string \<Rightarrow> edge_config option) \<Rightarrow> bytes \<Rightarrow> config_error + edge_config" where
  "from_toml toml_from_str b =
     (if length b > MAX_CONFIG_BYTES then Inl InvalidToml
      else if \<not> utf8_valid b then Inl InvalidToml
      else case toml_from_str b of
        None \<Rightarrow> Inl InvalidToml
      | Some c \<Rightarrow> (case validate_shape c of Inl e \<Rightarrow> Inl e | Inr _ \<Rightarrow> Inr c))"

section \<open>Files\<close>

datatype file_kind = RegularFile | Directory | Symlink | OtherKind

record metadata =
  md_kind :: file_kind
  md_uid :: nat
  md_mode :: nat
  md_len :: nat

datatype 'a lookup = Found 'a | Absent | Failed

record fs_view =
  symlink_metadata :: "component list \<Rightarrow> metadata lookup"
  follow_metadata :: "component list \<Rightarrow> metadata lookup"
  file_bytes :: "component list \<Rightarrow> bytes option"

definition parent_of :: "component list \<Rightarrow> component list option" where
  "parent_of cs = (if cs = [] \<or> last cs = RootDir then None else Some (butlast cs))"

definition trusted_system_link :: "metadata \<Rightarrow> metadata \<Rightarrow> bool" where
  "trusted_system_link link parent \<longleftrightarrow> md_uid link = 0 \<and> md_uid parent = 0 \<and> md_mode parent AND 18 = 0"

fun symlink_loop :: "fs_view \<Rightarrow> component list \<Rightarrow> component list \<Rightarrow> config_error + bool" where
  "symlink_loop V current [] = Inr False"
| "symlink_loop V current (c # cs) =
     (if c = ParentDir then Inr True
      else let current' = current @ [c] in
        case symlink_metadata V current' of
          Failed \<Rightarrow> Inl ConfIo
        | Absent \<Rightarrow> symlink_loop V current' cs
        | Found m \<Rightarrow>
            if md_kind m = Symlink then
              (case parent_of current' of
                 None \<Rightarrow> Inl ConfInvalidPath
               | Some p \<Rightarrow>
                   (case follow_metadata V p of
                      Found pm \<Rightarrow> if trusted_system_link m pm then symlink_loop V current' cs else Inr True
                    | _ \<Rightarrow> Inl ConfIo))
            else symlink_loop V current' cs)"

definition path_contains_symlink :: "fs_view \<Rightarrow> string \<Rightarrow> config_error + bool" where
  "path_contains_symlink V p = symlink_loop V [] (components p)"

definition validate_regular_file :: "fs_view \<Rightarrow> bool \<Rightarrow> string \<Rightarrow> config_error + unit" where
  "validate_regular_file V private p =
     (case path_contains_symlink V p of
        Inl e \<Rightarrow> Inl e
      | Inr True \<Rightarrow> Inl ConfInvalidPath
      | Inr False \<Rightarrow>
          (case follow_metadata V (components p) of
             Found m \<Rightarrow>
               if md_kind m \<noteq> RegularFile then Inl ConfInvalidPath
               else if private \<and> md_mode m AND 63 \<noteq> 0 then Inl UnsafePermissions
               else Inr ()
           | _ \<Rightarrow> Inl MissingFile))"

definition validate_runtime_files :: "fs_view \<Rightarrow> edge_config \<Rightarrow> config_error + unit" where
  "validate_runtime_files V c =
     (case mapM (validate_regular_file V True) [receiver_bearer_path c, spool_key_path c,
          credential_store_path c, hub_server_private_key_path c] of
        Inl e \<Rightarrow> Inl e
      | Inr _ \<Rightarrow>
          (case mapM (validate_regular_file V False) [hub_server_certificate_path c, hub_client_ca_path c] of
             Inl e \<Rightarrow> Inl e | Inr _ \<Rightarrow> Inr ()))"

definition load_config :: "(string \<Rightarrow> edge_config option) \<Rightarrow> fs_view \<Rightarrow> string \<Rightarrow> config_error + edge_config" where
  "load_config toml_from_str V p =
     (if \<not> is_absolute p then Inl ConfInvalidPath
      else case path_contains_symlink V p of
        Inl e \<Rightarrow> Inl e
      | Inr True \<Rightarrow> Inl ConfInvalidPath
      | Inr False \<Rightarrow>
          (case follow_metadata V (components p) of
             Found m \<Rightarrow>
               if md_kind m \<noteq> RegularFile \<or> md_len m > MAX_CONFIG_BYTES then Inl ConfInvalidPath
               else (case file_bytes V (components p) of
                       None \<Rightarrow> Inl ConfIo
                     | Some b \<Rightarrow> from_toml toml_from_str b)
           | _ \<Rightarrow> Inl MissingFile))"

section \<open>Facts\<close>

lemma repeated_path_iff:
  "\<not> repeated_path st seen ps \<longleftrightarrow>
     distinct (map components ps) \<and> set (map components ps) \<inter> set seen = {} \<and>
     (\<forall>p \<in> set ps. components p \<noteq> components st)"
  by (induction ps arbitrary: seen) (auto simp: path_eq_def)

text \<open>No untrusted link and no parent step on the way.\<close>

definition prefix_safe :: "fs_view \<Rightarrow> component list \<Rightarrow> bool" where
  "prefix_safe V pre \<longleftrightarrow> last pre \<noteq> ParentDir \<and>
     (\<forall>m. symlink_metadata V pre = Found m \<longrightarrow> md_kind m = Symlink \<longrightarrow>
        (\<exists>p pm. parent_of pre = Some p \<and> follow_metadata V p = Found pm \<and> trusted_system_link m pm))"

lemma symlink_loop_safe:
  "symlink_loop V cur cs = Inr False \<Longrightarrow> n < length cs \<Longrightarrow> prefix_safe V (cur @ take (Suc n) cs)"
proof (induction cs arbitrary: cur n)
  case Nil
  then show ?case by simp
next
  case (Cons c cs)
  have c: "c \<noteq> ParentDir" using Cons.prems(1) by auto
  have rest: "symlink_loop V (cur @ [c]) cs = Inr False" and here: "prefix_safe V (cur @ [c])"
    using Cons.prems(1) c
    by (auto simp: Let_def prefix_safe_def split: lookup.splits if_splits option.splits)
  show ?case
  proof (cases n)
    case 0
    with here show ?thesis by simp
  next
    case (Suc m)
    with Cons.IH [OF rest, of m] Cons.prems(2) show ?thesis by simp
  qed
qed

section \<open>The limits fit the spool\<close>

lemma from_toml_shape: "from_toml toml_from_str b = Inr c \<Longrightarrow> validate_shape c = Inr ()"
  by (auto simp: from_toml_def split: if_splits option.splits sum.splits)

lemma load_config_shape: "load_config toml_from_str V p = Inr c \<Longrightarrow> validate_shape c = Inr ()"
  by (auto simp: load_config_def split: if_splits option.splits sum.splits bool.splits lookup.splits dest: from_toml_shape)

lemma shape_fits_spool:
  assumes "validate_shape c = Inr ()"
  shows "\<exists>sc. spool_config_of c = Inr sc \<and> validate_config sc = Inr () \<and>
    retention_ms sc = 1000 * int (lim_retention_seconds (spool_limits_of c)) \<and> 0 < retention_ms sc \<and>
    max_bytes sc < u64_max \<and> max_records sc \<le> u64_max \<and> batch_max_bytes sc \<le> max_bytes sc"
proof -
  let ?l = "spool_limits_of c"
  from assms have l: "1048576 \<le> lim_max_bytes ?l" "lim_max_bytes ?l \<le> 8589934592"
    "1 \<le> lim_max_records ?l" "lim_max_records ?l \<le> 1000000"
    "60 \<le> lim_retention_seconds ?l" "lim_retention_seconds ?l \<le> 2592000"
    "1 \<le> lim_batch_max_bytes ?l" "1 \<le> lim_batch_max_records ?l"
    "lim_batch_max_bytes ?l \<le> lim_max_bytes ?l" "lim_batch_max_records ?l \<le> lim_max_records ?l"
    by (auto simp: validate_shape_def Let_def MAX_SPOOL_BYTES_def MAX_SPOOL_RECORDS_def
        MAX_RETENTION_SECONDS_def split: if_splits)
  then have "checked_mul_u64 (lim_retention_seconds ?l) 1000 = Some (lim_retention_seconds ?l * 1000)"
    "i64_try_from_u64 (lim_retention_seconds ?l * 1000) = Some (1000 * int (lim_retention_seconds ?l))"
    by (auto simp: checked_mul_u64_def i64_try_from_u64_def u64_max_def i64_max_def)
  with l show ?thesis
    by (auto simp: spool_config_of_def Let_def validate_config_def u64_max_def)
qed

section \<open>Properties\<close>

text \<open>
  C38: an accepted configuration always fits the spool. For every configuration that the
  loader accepts, deriving the spool configuration succeeds, the spool's own check accepts
  it, the retention in milliseconds is positive and exact, and the byte and record limits
  stay below the limits of their integer types, so no saturating sum over them is inexact.
\<close>

theorem accepted_config_fits_spool:
  assumes "from_toml toml_from_str b = Inr c"
  shows "\<exists>sc. spool_config_of c = Inr sc \<and> validate_config sc = Inr () \<and>
    retention_ms sc = 1000 * int (lim_retention_seconds (spool_limits_of c)) \<and> 0 < retention_ms sc \<and>
    max_bytes sc < u64_max \<and> max_records sc \<le> u64_max \<and> batch_max_bytes sc \<le> max_bytes sc"
  by (rule shape_fits_spool [OF from_toml_shape [OF assms]])

text \<open>
  C39: an accepted configuration never exposes the receiver and never shares a file. The
  receiver listens on a loopback address; the Hub listens on loopback exactly when the
  source-run flag says so; the ports are non-zero and differ; all paths are absolute, the
  six runtime files are pairwise different as paths (however they are spelled) and none is
  the state directory.
\<close>

theorem accepted_config_is_isolated:
  assumes "from_toml toml_from_str b = Inr c"
  shows "is_loopback (sa_ip (receiver_bind c)) \<and>
    (is_loopback (sa_ip (hub_bind c)) \<longleftrightarrow> allow_local_source_run_hub_loopback c) \<and>
    sa_port (receiver_bind c) \<noteq> 0 \<and> sa_port (hub_bind c) \<noteq> 0 \<and>
    sa_port (receiver_bind c) \<noteq> sa_port (hub_bind c) \<and>
    list_all is_absolute (state_directory c # runtime_paths c) \<and>
    distinct (map components (state_directory c # runtime_paths c))"
proof -
  note v = from_toml_shape [OF assms]
  then have r: "\<not> repeated_path (state_directory c) [] (runtime_paths c)"
    by (auto simp: validate_shape_def split: if_splits)
  then have "distinct (map components (state_directory c # runtime_paths c))"
    unfolding repeated_path_iff by auto
  with v show ?thesis by (auto simp: validate_shape_def split: if_splits)
qed

lemma mapM_all: "mapM f xs = Inr ys \<Longrightarrow> x \<in> set xs \<Longrightarrow> \<exists>y. f x = Inr y"
  by (induction xs arbitrary: ys) (auto split: sum.splits)

text \<open>
  The runtime check only passes private regular files. When it passes, each of the
  four secret files is a regular file that gives no permission to group and others, and on
  the way to it there is no parent step and no symbolic link but links owned by root in a
  root-owned directory that group and others cannot write.
\<close>

lemma runtime_files_private:
  assumes "validate_runtime_files V c = Inr ()"
    and "p \<in> {receiver_bearer_path c, spool_key_path c, credential_store_path c, hub_server_private_key_path c}"
  shows "(\<exists>m. follow_metadata V (components p) = Found m \<and> md_kind m = RegularFile \<and> md_mode m AND 63 = 0) \<and>
    (\<forall>n < length (components p). prefix_safe V (take (Suc n) (components p)))"
proof -
  let ?ps = "[receiver_bearer_path c, spool_key_path c, credential_store_path c, hub_server_private_key_path c]"
  obtain ys where ys: "mapM (validate_regular_file V True) ?ps = Inr ys"
    using assms(1) by (cases "mapM (validate_regular_file V True) ?ps") (auto simp: validate_runtime_files_def)
  have "p \<in> set ?ps" using assms(2) by simp
  from mapM_all [OF ys this] have v: "validate_regular_file V True p = Inr ()" by simp
  then have s: "symlink_loop V [] (components p) = Inr False"
    by (auto simp: validate_regular_file_def path_contains_symlink_def split: sum.splits bool.splits)
  with v have "\<exists>m. follow_metadata V (components p) = Found m \<and> md_kind m = RegularFile \<and> md_mode m AND 63 = 0"
    by (auto simp: validate_regular_file_def path_contains_symlink_def split: lookup.splits if_splits)
  with symlink_loop_safe [OF s] show ?thesis by simp
qed

end
