(* ===== verification/Spool_Custody.thy ===== *)
theory Spool_Custody
  imports Spool_Inv
begin

text \<open>
  Custody: every operation keeps the state invariant, and a sequence number leaves the
  spool only when it is acknowledged. The first part collects the calls that leave the
  in-memory state alone; then each operation gets a Hoare triple with the sequence
  numbers that were in custody before (\<open>L\<close>) and those that may leave (\<open>A\<close>).
\<close>

section \<open>Calls that do not change the in-memory state\<close>

named_theorems quiet \<open>operations that keep every predicate on the in-memory state\<close>

definition on :: "(spool_state \<Rightarrow> bool) \<Rightarrow> spool \<Rightarrow> bool" where
  "on P s \<longleftrightarrow> disk_ok s \<and> P (state_of s)"

lemma touches_state: "touches A s t \<Longrightarrow> state_of t = state_of (s :: spool)"
  by (auto simp: touches_def)

lemma quiet_touch:
  fixes m :: "(spool, 'e, 'a) proc"
  assumes "\<And>s0. keeps (touches UNIV s0) m"
  shows "keeps (on P) m"
proof (rule keepsI)
  fix s assume s: "on P s"
  have "touches UNIV s (snd (m s))" by (rule keepsD [OF assms]) simp
  with s show "on P (snd (m s))" by (simp add: on_def touches_disk_ok touches_state)
qed

lemma quiet_io [quiet]:
  "keeps (on P) (os_call E)" "keeps (on P) (fs_metadata E p)" "keeps (on P) (fs_read E p)"
  "keeps (on P) (fs_read_dir E d)" "keeps (on P) (fs_remove_file E p)" "keeps (on P) (fs_rename E p q)"
  by (rule quiet_touch, rule touch; simp)+

lemma quiet_spool_io [quiet]:
  "keeps (on P) (new_uuid C E)" "keeps (on P) (new_nonce E)" "keeps (on P) (sync_directory E d)"
  "keeps (on P) (write_atomic E t q b)" "keeps (on P) (quarantine_file C E p)"
  by (rule quiet_touch, rule touch; simp)+

lemma quiet_map_err [quiet]: "keeps I m \<Longrightarrow> keeps I (map_err g m)"
  by (rule triple_map_err)

lemma quiet_latch [quiet]: "keeps (on P) (modify (\<lambda>s. s\<lparr>storage_write_failed := b\<rparr>))"
  by (rule keepsI) (simp add: on_def modify_def disk_ok_def)

lemma quiet_if [quiet]: "keeps I m \<Longrightarrow> keeps I n \<Longrightarrow> keeps I (if b then m else n)"
  by simp

lemma quiet_for_fold [quiet]: "(\<And>x acc. keeps I (body acc x)) \<Longrightarrow> keeps I (for_fold xs a body)"
  by (rule triple_for_fold) simp

lemma quiet_for_each [quiet]: "(\<And>x. keeps I (body x)) \<Longrightarrow> keeps I (for_each xs body)"
  by (rule triple_for_each) simp

lemma quiet_spool_write_atomic [quiet]: "keeps (on P) (spool_write_atomic X t d b)"
  unfolding spool_write_atomic_def by (intro keeps_bind keeps_match keeps_pure quiet)

lemma quiet_spool_encrypt [quiet]: "keeps (on P) (spool_encrypt X b)"
  unfolding spool_encrypt_def by (intro keeps_bind keeps_match keeps_pure quiet)

lemma quiet_spool_decrypt [quiet]: "keeps (on P) (spool_decrypt X b)"
  unfolding spool_decrypt_def by (intro keeps_bind keeps_match keeps_pure quiet)

lemma quiet_temporary_path [quiet]: "keeps (on P) (temporary_path X)"
  unfolding temporary_path_def by (intro keeps_bind keeps_match keeps_pure quiet)

lemma quiet_persist_sequence_state [quiet]: "keeps (on P) (persist_sequence_state X n t b c)"
  unfolding persist_sequence_state_def by (intro keeps_bind keeps_match keeps_pure quiet)

lemma quiet_persist_current [quiet]: "keeps (on P) (persist_current X)"
  unfolding persist_current_def by (intro keeps_bind keeps_match keeps_pure quiet)

lemma quiet_read_entry [quiet]: "keeps (on P) (read_entry X e)"
  unfolding read_entry_def by (intro keeps_bind keeps_match keeps_pure quiet)

lemma quiet_path_exists [quiet]: "keeps (on P) (path_exists X p)"
  unfolding path_exists_def by (intro keeps_bind keeps_match keeps_pure quiet)

lemma quiet_ensure_quarantine_capacity [quiet]: "keeps (on P) (ensure_quarantine_capacity X n b)"
  unfolding ensure_quarantine_capacity_def by (auto intro!: keeps_bind keeps_match keeps_pure quiet split: prod.split)

lemma quiet_quarantine_file_bounded [quiet]: "keeps (on P) (quarantine_file_bounded X p)"
  unfolding quarantine_file_bounded_def by (intro keeps_bind keeps_match keeps_pure quiet)

lemma quiet_remove_if_present [quiet]: "keeps (on P) (remove_if_present X p)"
  unfolding remove_if_present_def by (intro keeps_bind keeps_match keeps_pure quiet)

lemma quiet_sequence_state [quiet]: "keeps (on P) (recover_sequence_state X)"
  unfolding recover_sequence_state_def by (intro keeps_bind keeps_match keeps_pure quiet)

lemma triple_upd_state: "(\<And>st. P st \<Longrightarrow> Q (f st)) \<Longrightarrow> triple (on P) (upd_state f) (\<lambda>_. on Q) E"
  unfolding upd_state_def by (rule triple_modify) (simp add: on_def disk_ok_def)

text \<open>Reading the state fixes it until the next update.\<close>

lemma triple_gets_state:
  "(\<And>st. P st \<Longrightarrow> triple (on (\<lambda>x. x = st)) (g st) Q E) \<Longrightarrow> triple (on P) (bindR (gets state_of) g) Q E"
  by (auto simp: triple_def bindR_def gets_def on_def)

lemma triple_quiet_bind:
  "keeps (on P) m \<Longrightarrow> (\<And>x. triple (on P) (f x) Q E) \<Longrightarrow> (\<And>e s. on P s \<Longrightarrow> E e s) \<Longrightarrow>
     triple (on P) (bindR m f) Q E"
  by (rule triple_bind [where R = "\<lambda>_. on P"]) (auto elim: triple_conseq)

lemma triple_failIf_bind:
  "(\<not> b \<Longrightarrow> triple P m Q E) \<Longrightarrow> (\<And>s. P s \<Longrightarrow> b \<Longrightarrow> E e s) \<Longrightarrow> triple P (bindR (failIf b e) (\<lambda>_. m)) Q E"
  by (cases b) (auto simp: failIf_def intro: hoare)

lemma triple_ok_or_bind:
  "(\<And>v. x = Some v \<Longrightarrow> triple P (f v) Q E) \<Longrightarrow> (\<And>s. P s \<Longrightarrow> E e s) \<Longrightarrow> triple P (bindR (ok_or x e) f) Q E"
  by (cases x) (auto simp: ok_or_def intro: hoare)

lemma triple_lift_bind:
  "(\<And>v. r = Inr v \<Longrightarrow> triple P (f v) Q E) \<Longrightarrow> (\<And>e s. P s \<Longrightarrow> E e s) \<Longrightarrow> triple P (bindR (lift_result r) f) Q E"
  by (cases r) (auto simp: triple_def bindR_def lift_result_def)

section \<open>Custody of sequence numbers\<close>

text \<open>
  The notice identifiers an entry or a gap of the state has or can get, with their
  sequence numbers. Two sequence numbers with one identifier would be a SHA-256
  collision; \<open>collision_free\<close> says that the state at hand has none.
\<close>

definition notice_ids :: "crates \<Rightarrow> spool_state \<Rightarrow> (rid \<times> nat) set" where
  "notice_ids C st =
     {(gap_notice_id (gap_notice C e 0 r), e_spool_seq e) | e r. e \<in> set (bt_values (entries st))}
     \<union> (\<lambda>g. (gap_notice_id (g_notice g), gap_spool_seq (g_notice g))) ` set (bt_values (gaps st))"

definition collision_free :: "crates \<Rightarrow> spool_state \<Rightarrow> bool" where
  "collision_free C st \<longleftrightarrow> single_valued (notice_ids C st)"

lemma notice_ids_cong: "entries st' = entries st \<Longrightarrow> gaps st' = gaps st \<Longrightarrow> notice_ids C st' = notice_ids C st"
  by (simp add: notice_ids_def)

text \<open>
  From \<open>st0\<close> to \<open>st\<close> entries were only removed, and of the sequence numbers
  in custody only those in \<open>A\<close> may have left. Where every number may leave, no
  freedom from collisions is needed: that case only carries the invariant.
\<close>

definition custody :: "ctx \<Rightarrow> spool_state \<Rightarrow> nat set \<Rightarrow> spool_state \<Rightarrow> bool" where
  "custody X st0 A st \<longleftrightarrow> base_inv X st \<and> base_inv X st0 \<and> (collision_free (lib X) st0 \<or> A = UNIV)
     \<and> notice_ids (lib X) st \<subseteq> notice_ids (lib X) st0
     \<and> next_spool_sequence st = next_spool_sequence st0
     \<and> bt_get (entries st) \<subseteq>\<^sub>m bt_get (entries st0)
     \<and> live_seqs st \<subseteq> live_seqs st0 \<and> live_seqs st0 \<subseteq> live_seqs st \<union> A"

lemma custody_refl: "base_inv X st \<Longrightarrow> collision_free (lib X) st \<or> A = UNIV \<Longrightarrow> custody X st A st"
  by (auto simp: custody_def)

lemma custody_notice_ids: "custody X st0 A st \<Longrightarrow> (n, q) \<in> notice_ids (lib X) st \<Longrightarrow> (n, q) \<in> notice_ids (lib X) st0"
  by (auto simp: custody_def)

lemma custody_base: "custody X st0 A st \<Longrightarrow> base_inv X st"
  by (simp add: custody_def)

lemma custody_mono: "custody X st0 A st \<Longrightarrow> A \<subseteq> B \<Longrightarrow> custody X st0 B st"
  by (auto simp: custody_def)

lemma custody_cong:
  assumes "custody X st0 A st" "base_inv X st'" "entries st' = entries st" "gaps st' = gaps st"
    "next_spool_sequence st' = next_spool_sequence st"
  shows "custody X st0 A st'"
  using assms notice_ids_cong [of st' st] live_seqs_cong [of st' st]
  by (simp add: custody_def)

lemma custody_uncount: "custody X st0 A st \<Longrightarrow> custody X st0 A (uncount q st)"
  by (rule custody_cong, assumption, rule base_inv_uncount, rule custody_base) (auto simp: uncount_def)

lemma custody_corrupt:
  "custody X st0 A st \<Longrightarrow> custody X st0 A (st\<lparr>corrupt_records := n\<rparr>)"
  by (rule custody_cong, assumption, rule base_inv_cong)
    (auto dest!: custody_base simp: base_inv_def maps_ok_def)

lemma notice_ids_drop: "notice_ids C (drop_entry e st) \<subseteq> notice_ids C st"
  by (force simp: notice_ids_def drop_entry_def bt_values_def bt_remove_def)

lemma notice_ids_remove_gap: "notice_ids C (remove_gap g k st) \<subseteq> notice_ids C st"
  by (force simp: notice_ids_def remove_gap_def bt_values_def bt_remove_def)

definition has_gap :: "nat \<Rightarrow> spool_state \<Rightarrow> bool" where
  "has_gap q st \<longleftrightarrow> (\<exists>k g. bt_get (gaps st) k = Some g \<and> gap_spool_seq (g_notice g) = q)"

lemma custody_drop:
  assumes "custody X st0 A st" "bt_get (entries st) (e_record_id e) = Some e"
    and "e_spool_seq e \<in> A \<or> has_gap (e_spool_seq e) st"
  shows "custody X st0 A (drop_entry e st)"
proof -
  have inv: "base_inv X st" using assms(1) by (rule custody_base)
  note live = live_drop_entry [OF inv assms(2)]
  have "live_seqs st0 \<subseteq> live_seqs (drop_entry e st) \<union> A"
  proof (cases "has_gap (e_spool_seq e) st")
    case True
    then have "live_seqs (drop_entry e st) = live_seqs st" by (intro live(3)) (simp add: has_gap_def)
    with assms(1) show ?thesis by (auto simp: custody_def)
  next
    case False
    with assms(1,3) live(2) show ?thesis by (auto simp: custody_def)
  qed
  moreover have "next_spool_sequence (drop_entry e st) = next_spool_sequence st"
    by (simp add: drop_entry_def)
  moreover have "bt_get (entries (drop_entry e st)) \<subseteq>\<^sub>m bt_get (entries st)"
    by (auto simp: map_le_def drop_entry_def)
  ultimately show ?thesis
    using assms(1) live(1) base_inv_drop_entry [OF inv assms(2)]
      notice_ids_drop [of "lib X" e st] map_le_trans
    unfolding custody_def by (metis (no_types, lifting) subset_trans)
qed

lemma custody_remove_gap:
  assumes "custody X st0 A st" "bt_get (gaps st) k = Some g" "gap_spool_seq (g_notice g) \<in> A"
  shows "custody X st0 A (remove_gap g k st)"
proof -
  have inv: "base_inv X st" using assms(1) by (rule custody_base)
  note live = live_remove_gap [OF inv assms(2)]
  have "next_spool_sequence (remove_gap g k st) = next_spool_sequence st"
    "entries (remove_gap g k st) = entries st"
    by (simp_all add: remove_gap_def)
  then show ?thesis
    using assms(1,3) live base_inv_remove_gap [OF inv assms(2)]
      notice_ids_remove_gap [of "lib X" g k st]
    unfolding custody_def by auto
qed

subsection \<open>Gap notices\<close>

text \<open>
  Persisting the gap of a pending entry keeps custody; afterwards a gap with that sequence
  number exists.
\<close>

text \<open>What holds of an entry whose gap is persisted: it is pending, or nothing pending has its number.\<close>

definition gap_source :: "entry \<Rightarrow> spool_state \<Rightarrow> bool" where
  "gap_source e st \<longleftrightarrow> 0 < e_spool_seq e \<and>
     (\<forall>k e'. bt_get (entries st) k = Some e' \<longrightarrow> e_spool_seq e' = e_spool_seq e \<longrightarrow>
        e_record_id e' = e_record_id e \<longrightarrow> e_stable_record_id e' = e_stable_record_id e)"

lemma gap_notice_id_identity:
  "e_spool_seq e = e_spool_seq e' \<Longrightarrow> e_stable_record_id e = e_stable_record_id e' \<Longrightarrow>
     gap_notice_id (gap_notice C e t r) = gap_notice_id (gap_notice C e' t' r)"
  by (simp add: gap_notice_def gap_notice_for_identity_def Let_def)

lemma persist_gap_update:
  assumes X: "ctx_ok X" and inv: "base_inv X st" and src: "gap_source e st"
    and n: "n = gap_notice (lib X) e t r"
    and new: "\<not> bt_contains (gaps st) (gap_notice_id n)"
    and fresh: "\<not> list_ex (\<lambda>g. gap_spool_seq (g_notice g) = e_spool_seq e) (bt_values (gaps st))"
    and other: "\<not> list_ex (\<lambda>p. e_spool_seq p = e_spool_seq e \<and> e_record_id p \<noteq> e_record_id e)
      (bt_values (entries st))"
    and room: "\<not> max_records (config X) \<le> length (gaps st)"
      "\<not> max_bytes (config X) < sat_add_u64 (pending_gap_bytes st) b"
  shows "base_inv X (insert_gap n b (Gaps, gap_file_name (e_spool_seq e) (gap_notice_id n)) st)"
    and "live_seqs (insert_gap n b p st) = insert (e_spool_seq e) (live_seqs st)"
    and "has_gap (e_spool_seq e) (insert_gap n b p st)"
proof -
  from inv have m: "maps_ok st" by (simp add: base_inv_def)
  from new have none: "bt_get (gaps st) (gap_notice_id n) = None" by (simp add: bt_contains_def)
  have derived: "gap_of_entry (lib X) n e'" if "bt_get (entries st) k = Some e'"
    "e_spool_seq e' = gap_spool_seq n" for k e'
  proof -
    from that(1) m have "e' \<in> set (bt_values (entries st))" by (auto simp: bt_values_iff maps_ok_def)
    with other that(2) n have rid: "e_record_id e' = e_record_id e" by (auto simp: list_ex_iff)
    with src that n have "e_stable_record_id e' = e_stable_record_id e" by (auto simp: gap_source_def)
    with that(2) show ?thesis unfolding gap_of_entry_def n gap_notice_simps
      by (intro gap_notice_id_identity) auto
  qed
  show "base_inv X (insert_gap n b (Gaps, gap_file_name (e_spool_seq e) (gap_notice_id n)) st)"
    by (rule base_inv_insert_gap [OF inv X])
      (use src X none fresh derived room n valid_gap_notice_gap_notice in
        \<open>auto simp: gap_source_def ctx_ok_def\<close>)
  show "live_seqs (insert_gap n b p st) = insert (e_spool_seq e) (live_seqs st)"
    using live_insert_gap [OF m none, of b p] n by simp
  show "has_gap (e_spool_seq e) (insert_gap n b p st)"
    using m n unfolding has_gap_def
    by (intro exI [of _ "gap_notice_id n"]) (simp add: insert_gap_def bt_get_insert maps_ok_def)
qed

text \<open>The effect on the state: none on an error; otherwise the gap is there.\<close>

lemma persist_gap_cases:
  assumes "ctx_ok X" "base_inv X st" "gap_source e st"
  shows "triple (on (\<lambda>x. x = st)) (persist_gap_locked X e t r)
    (\<lambda>_. on (\<lambda>st'. st' = st \<and> bt_contains (gaps st) (gap_notice_id (gap_notice (lib X) e t r))
       \<or> (\<exists>b p. st' = insert_gap (gap_notice (lib X) e t r) b p st \<and> base_inv X st'
           \<and> live_seqs st' = insert (e_spool_seq e) (live_seqs st) \<and> has_gap (e_spool_seq e) st')))
    (\<lambda>_. on (\<lambda>x. x = st))"
proof -
  let ?n = "gap_notice (lib X) e t r"
  let ?Q = "\<lambda>st'. st' = st \<and> bt_contains (gaps st) (gap_notice_id ?n)
       \<or> (\<exists>b p. st' = insert_gap ?n b p st \<and> base_inv X st'
           \<and> live_seqs st' = insert (e_spool_seq e) (live_seqs st) \<and> has_gap (e_spool_seq e) st')"
  show ?thesis
    unfolding persist_gap_locked_def Let_def
  proof (rule triple_gets_state, hypsubst, rule triple_if, goal_cases)
    case 1
    then show ?case by (intro hoare) (simp add: on_def)
  next
    case 2
    have fin: "triple (on (\<lambda>x. x = st)) (bindR (upd_state (insert_gap ?n b
        (Gaps, gap_file_name (e_spool_seq e) (gap_notice_id ?n)))) (\<lambda>_. ok z)) (\<lambda>_. on ?Q) (\<lambda>_. on (\<lambda>x. x = st))"
      if "\<not> list_ex (\<lambda>g. gap_spool_seq (g_notice g) = e_spool_seq e) (bt_values (gaps st))"
        "\<not> list_ex (\<lambda>p. e_spool_seq p = e_spool_seq e \<and> e_record_id p \<noteq> e_record_id e) (bt_values (entries st))"
        "\<not> max_records (config X) \<le> length (gaps st)"
        "\<not> max_bytes (config X) < sat_add_u64 (pending_gap_bytes st) b"
      for b and z :: "rid \<times> bool"
    proof -
      note upd = persist_gap_update [OF assms refl 2 that(1-4)]
      show ?thesis
        by (rule triple_bind, rule triple_upd_state [where Q = ?Q], use upd in blast)
          (auto intro: hoare)
    qed
    show ?case
      by (intro triple_failIf_bind triple_ok_or_bind triple_quiet_bind quiet fin; simp?)
  qed
qed

lemma triple_on: "(\<And>st. P st \<Longrightarrow> triple (on (\<lambda>x. x = st)) m Q F) \<Longrightarrow> triple (on P) m Q F"
proof (rule tripleI)
  fix s x t
  assume t: "\<And>st. P st \<Longrightarrow> triple (on (\<lambda>x. x = st)) m Q F" and s: "on P s" "m s = (Inr x, t)"
  have "on (\<lambda>x. x = state_of s) s" "P (state_of s)" using s by (simp_all add: on_def)
  then show "Q x t" using triple_Inr [OF t] s(2) by blast
next
  fix s e t
  assume t: "\<And>st. P st \<Longrightarrow> triple (on (\<lambda>x. x = st)) m Q F" and s: "on P s" "m s = (Inl e, t)"
  have "on (\<lambda>x. x = state_of s) s" "P (state_of s)" using s by (simp_all add: on_def)
  then show "F e t" using triple_Inl [OF t] s(2) by blast
qed

lemma keeps_eq_on: "(\<And>st. P st \<Longrightarrow> keeps (on (\<lambda>x. x = st)) m) \<Longrightarrow> keeps (on P) m"
proof (rule triple_on)
  fix st assume "P st" and k: "\<And>st. P st \<Longrightarrow> keeps (on (\<lambda>x. x = st)) m"
  then show "triple (on (\<lambda>x. x = st)) m (\<lambda>_. on P) (\<lambda>_. on P)"
    by (intro triple_conseq [OF k [of st]]) (auto simp: on_def)
qed

text \<open>An entry of \<open>st0\<close> that is still pending is that entry.\<close>

lemma custody_get:
  assumes "custody X st0 A st" "bt_get (entries st0) (e_record_id e) = Some e" "bt_contains (entries st) (e_record_id e)"
  shows "bt_get (entries st) (e_record_id e) = Some e"
  using assms by (auto simp: custody_def bt_contains_def map_le_def dom_def)

lemma entry_facts:
  assumes inv: "base_inv X st" and e: "bt_get (entries st) (e_record_id e) = Some e"
  shows "0 < e_spool_seq e" "e_spool_seq e \<in> live_seqs st" "e \<in> set (bt_values (entries st))"
    "(gap_notice_id (gap_notice C e t r), e_spool_seq e) \<in> notice_ids C st"
proof -
  from inv have m: "maps_ok st" and ei: "entries_inv st" by (simp_all add: base_inv_def)
  show v: "e \<in> set (bt_values (entries st))"
    using e m by (auto simp: bt_values_iff maps_ok_def)
  show "e_spool_seq e \<in> live_seqs st" using e live_seqs_iff [OF m] by blast
  show "0 < e_spool_seq e" using ei e by (auto simp: entries_inv_def entry_ok_def)
  show "(gap_notice_id (gap_notice C e t r), e_spool_seq e) \<in> notice_ids C st"
    using v gap_notice_id_time [of C e t r 0] unfolding notice_ids_def by blast
qed

lemma gap_facts:
  assumes inv: "base_inv X st" and g: "bt_get (gaps st) n = Some g"
  shows "(n, gap_spool_seq (g_notice g)) \<in> notice_ids C st" "gap_spool_seq (g_notice g) \<in> live_seqs st"
proof -
  from inv have m: "maps_ok st" by (simp add: base_inv_def)
  from g m have v: "g \<in> set (bt_values (gaps st))" by (auto simp: bt_values_iff maps_ok_def)
  moreover from inv g have "gap_notice_id (g_notice g) = n"
    by (auto simp: base_inv_def gaps_inv_def gap_ok_def)
  ultimately show "(n, gap_spool_seq (g_notice g)) \<in> notice_ids C st" unfolding notice_ids_def by blast
  show "gap_spool_seq (g_notice g) \<in> live_seqs st" using v by (simp add: live_seqs_def)
qed

lemma custody_gap_source:
  assumes c: "custody X st0 A st" and e: "bt_get (entries st0) (e_record_id e) = Some e"
  shows "gap_source e st"
  unfolding gap_source_def
proof (intro conjI allI impI)
  show "0 < e_spool_seq e" using c e by (auto simp: custody_def dest: entry_facts)
  fix k e' assume e': "bt_get (entries st) k = Some e'" "e_record_id e' = e_record_id e"
  have "k = e_record_id e'"
    using custody_base [OF c] e'(1) by (simp add: base_inv_def entries_inv_def entry_ok_def)
  then have "k = e_record_id e" using e'(2) by (rule trans)
  with e'(1) have "bt_contains (entries st) (e_record_id e)" by (simp add: bt_contains_def)
  from custody_get [OF c e this] \<open>k = e_record_id e\<close> e'(1) have "e' = e" by (metis option.inject)
  then show "e_stable_record_id e' = e_stable_record_id e" by (rule arg_cong)
qed

lemma persist_gap_custody:
  assumes X: "ctx_ok X" and e: "bt_get (entries st0) (e_record_id e) = Some e"
  shows "triple (on (\<lambda>st. custody X st0 A st \<and> R (entries st))) (persist_gap_locked X e t r)
    (\<lambda>_. on (\<lambda>st. custody X st0 A st \<and> R (entries st) \<and> (e_spool_seq e \<in> A \<or> has_gap (e_spool_seq e) st)))
    (\<lambda>_. on (\<lambda>st. custody X st0 A st \<and> R (entries st)))"
proof (rule triple_on, elim conjE, goal_cases)
  case (1 st)
  let ?n = "gap_notice (lib X) e t r"
  have inv: "base_inv X st" and inv0: "base_inv X st0" using 1(1) by (simp_all add: custody_def)
  then have m: "maps_ok st" by (simp add: base_inv_def)
  note ent = entry_facts [OF inv0 e]
  have have_gap: "e_spool_seq e \<in> A \<or> has_gap (e_spool_seq e) st"
    if c: "bt_contains (gaps st) (gap_notice_id ?n)"
  proof (cases "A = UNIV")
    case False
    obtain g where g: "bt_get (gaps st) (gap_notice_id ?n) = Some g" using c by (auto simp: bt_contains_def)
    have "(gap_notice_id ?n, gap_spool_seq (g_notice g)) \<in> notice_ids (lib X) st0"
      using custody_notice_ids [OF 1(1) gap_facts(1) [OF inv g]] .
    with ent(4) 1(1) False have "gap_spool_seq (g_notice g) = e_spool_seq e"
      unfolding custody_def collision_free_def single_valued_def by blast
    with g show ?thesis by (auto simp: has_gap_def)
  qed simp
  have step: "custody X st0 A st' \<and> R (entries st')"
    if "st' = insert_gap ?n b p st" "base_inv X st'"
      "live_seqs st' = insert (e_spool_seq e) (live_seqs st)" for st' b p
  proof -
    have "entries st' = entries st" "next_spool_sequence st' = next_spool_sequence st"
      using that(1) by (simp_all add: insert_gap_def)
    moreover have "notice_ids (lib X) st' \<subseteq> insert (gap_notice_id ?n, e_spool_seq e) (notice_ids (lib X) st)"
      using that(1) m by (force simp: notice_ids_def insert_gap_def bt_values_def set_bt_insert maps_ok_def)
    ultimately show ?thesis using 1 that(2,3) ent(2) ent(4) [of "lib X" t r]
      unfolding custody_def by auto
  qed
  show ?case
    by (rule triple_conseq [OF persist_gap_cases [OF X inv custody_gap_source [OF 1(1) e]]])
      (use 1 have_gap step in \<open>auto simp: on_def\<close>)
qed

subsection \<open>Removing entries and gaps\<close>

lemma triple_weak: "triple P' m Q F \<Longrightarrow> (\<And>s. P s \<Longrightarrow> P' s) \<Longrightarrow> triple P m Q F"
  by (rule triple_conseq)

lemma on_mono: "on P s \<Longrightarrow> (\<And>st. P st \<Longrightarrow> Q st) \<Longrightarrow> on Q s"
  by (simp add: on_def)

lemma quiet_err: "keeps (on P) m \<Longrightarrow> (\<And>st. P st \<Longrightarrow> R st) \<Longrightarrow> triple (on P) m (\<lambda>_. on P) (\<lambda>_. on R)"
  by (erule triple_conseq) (auto elim: on_mono)

lemma triple_from: "triple (on P) m Q F \<Longrightarrow> P st \<Longrightarrow> triple (on (\<lambda>x. x = st)) m Q F"
  by (erule triple_weak) (auto elim: on_mono)

lemma drop_custody:
  "triple (on (\<lambda>st. custody X st0 A st \<and> bt_get (entries st) (e_record_id e) = Some e
       \<and> (e_spool_seq e \<in> A \<or> has_gap (e_spool_seq e) st)))
     (upd_state (drop_entry e)) (\<lambda>_. on (custody X st0 A)) F"
  by (rule triple_upd_state) (auto intro: custody_drop)

lemma uncount_custody [quiet]: "keeps (on (custody X st0 A)) (upd_state (uncount q))"
  by (rule triple_upd_state) (rule custody_uncount)

lemma quarantine_custody [quiet]:
  assumes "ctx_ok X" "bt_get (entries st0) (e_record_id e) = Some e"
  shows "keeps (on (custody X st0 A)) (quarantine_runtime_entry X e)"
  unfolding quarantine_runtime_entry_def
proof (rule triple_gets_state, rule triple_if, goal_cases)
  case (1 st)
  then show ?case by (intro hoare) (auto simp: on_def)
next
  case (2 st)
  let ?R = "\<lambda>es. bt_get es (e_record_id e) = Some e"
  let ?here = "\<lambda>st. custody X st0 A st \<and> ?R (entries st)"
  let ?gap = "\<lambda>st. custody X st0 A st \<and> ?R (entries st)
    \<and> (e_spool_seq e \<in> A \<or> has_gap (e_spool_seq e) st)"
  have here: "?here st" using 2 custody_get [OF 2(1) assms(2)] by simp
  have gap: "triple (on ?here) (persist_gap_locked X e (e_admitted_at_ms e) IntegrityQuarantine)
      (\<lambda>_. on ?gap) (\<lambda>_. on (custody X st0 A))"
    by (rule triple_conseq [OF persist_gap_custody [OF assms, where R = ?R]]) (auto elim: on_mono)
  have moved: "triple (on ?gap) (matchR (quarantine_file_bounded X (e_path e)) (\<lambda>_. ok ())
      (\<lambda>error. if error \<noteq> Io then fail error
         else bindR (path_exists X (e_path e)) (\<lambda>present.
           if present then fail error else sync_directory (ev X) Pending)))
      (\<lambda>_. on ?gap) (\<lambda>_. on (custody X st0 A))"
    by (rule quiet_err) (intro keeps_match keeps_bind keeps_pure quiet, simp)
  have drop: "triple (on ?gap) (upd_state (drop_entry e)) (\<lambda>_. on (custody X st0 A)) (\<lambda>_. on (custody X st0 A))"
    by (rule triple_weak [OF drop_custody]) (auto elim: on_mono)
  show ?case
    by (rule triple_from [where P = ?here, OF _ here], rule triple_bind [OF gap],
        rule triple_bind [OF moved], rule triple_bind [OF drop], rule triple_upd_state, rule custody_corrupt)
qed

lemma admitted_entry_Some:
  "admitted_entry st a = Some e \<Longrightarrow> bt_get (entries st) (e_record_id e) = Some e
     \<and> e_spool_seq e = ra_spool_seq a \<and> e_stable_record_id e = ra_stable_record_id a"
  by (auto simp: admitted_entry_def split: option.splits if_splits)

lemma remove_admitted_custody:
  "triple (on (\<lambda>st. custody X st0 A st \<and> (ra_spool_seq a \<in> A \<or> has_gap (ra_spool_seq a) st)))
     (remove_admitted_record X a) (\<lambda>_. on (custody X st0 A)) (\<lambda>_. on (custody X st0 A))"
  unfolding remove_admitted_record_def Let_def
proof (rule triple_gets_state, goal_cases)
  case (1 st)
  have un: "keeps (on (custody X st0 A)) (if b then upd_state (uncount q) else ok ())" for b q
    by (intro quiet keeps_pure)
  show ?case
  proof (cases "admitted_entry st a")
    case None
    show ?thesis unfolding None option.case
      by (rule triple_from [OF keeps_bind [OF un keeps_pure(1)]]) (use 1 in simp)
  next
    case (Some e)
    note e = admitted_entry_Some [OF Some]
    have rm: "triple (on (\<lambda>x. x = st)) (remove_if_present X (e_path e)) (\<lambda>_. on (\<lambda>x. x = st))
        (\<lambda>_. on (custody X st0 A))"
      by (rule quiet_err [OF quiet_remove_if_present]) (use 1 in simp)
    have dr: "triple (on (\<lambda>x. x = st)) (upd_state (drop_entry e)) (\<lambda>_. on (custody X st0 A))
        (\<lambda>_. on (custody X st0 A))"
      by (rule triple_from [OF drop_custody]) (use 1 e in auto)
    show ?thesis unfolding Some option.case
      by (rule triple_bind [OF rm], rule triple_bind [OF dr], rule keeps_bind [OF un], rule keeps_pure)
  qed
qed

lemma find_Some: "find P xs = Some x \<Longrightarrow> x \<in> set xs \<and> P x"
  by (induction xs) (auto split: if_splits)

text \<open>The sequence numbers a receipt accepts, against the state it was issued for.\<close>

definition receipt_seqs :: "crates \<Rightarrow> spool_state \<Rightarrow> ack_receipt \<Rightarrow> nat set" where
  "receipt_seqs C st r = set (map ra_spool_seq (rc_accepted_admissions r))
     \<union> {q. \<exists>n \<in> set (rc_accepted_gap_notice_ids r). (n, q) \<in> notice_ids C st}"

lemma complete_gap_custody:
  assumes "\<And>q. (n, q) \<in> notice_ids (lib X) st0 \<Longrightarrow> q \<in> A"
  shows "keeps (on (custody X st0 A)) (complete_gap X fl n)"
  unfolding complete_gap_def
proof (rule triple_gets_state, goal_cases)
  case (1 st)
  have inv: "base_inv X st" using 1 by (rule custody_base)
  then have m: "maps_ok st" by (simp add: base_inv_def)
  show ?case
  proof (cases "bt_get (gaps st) n")
    case (Some g)
    have A: "gap_spool_seq (g_notice g) \<in> A"
      using assms custody_notice_ids [OF 1 gap_facts(1) [OF inv Some]] by blast
    have rm: "triple (on (\<lambda>x. x = st)) (remove_if_present X (g_path g)) (\<lambda>_. on (\<lambda>x. x = st))
        (\<lambda>_. on (custody X st0 A))"
      by (rule quiet_err [OF quiet_remove_if_present]) (use 1 in simp)
    show ?thesis unfolding Some option.case
      by (rule triple_bind [OF rm], rule triple_bind [OF triple_upd_state [where Q = "custody X st0 A"]])
        (use 1 A Some custody_remove_gap in auto)
  next
    case None
    have "triple (on (\<lambda>x. x = st)) (remove_expired_gap_backing X n) (\<lambda>_. on (custody X st0 A))
        (\<lambda>_. on (custody X st0 A))"
      unfolding remove_expired_gap_backing_def
    proof (rule triple_gets_state, hypsubst, goal_cases)
      case 1
      show ?case
      proof (cases "find (\<lambda>e. bt_contains (counted_pending_expirations st) (e_spool_seq e)
            \<and> gap_notice_id (gap_notice (lib X) e (e_expires_at_ms e) RetentionExpired) = n)
          (bt_values (entries st))")
        case None
        show ?thesis unfolding None option.case
          by (rule triple_ok) (use \<open>custody X st0 A st\<close> in \<open>auto simp: on_def\<close>)
      next
        case (Some e)
        then have "e \<in> set (bt_values (entries st))" "gap_notice_id (gap_notice (lib X) e 0 RetentionExpired) = n"
          using find_Some [OF Some] gap_notice_id_time by auto
        then have "(n, e_spool_seq e) \<in> notice_ids (lib X) st" unfolding notice_ids_def by blast
        then have "e_spool_seq e \<in> A" using assms custody_notice_ids [OF \<open>custody X st0 A st\<close>] by blast
        then show ?thesis unfolding Some option.case
          by (intro triple_bind [OF triple_from [OF remove_admitted_custody]] keeps_bind quiet keeps_pure)
            (use \<open>custody X st0 A st\<close> in \<open>auto simp: admission_of_def\<close>)
      qed
    qed
    then show ?thesis unfolding None option.case by (rule triple_bind) (rule keeps_pure)
  qed
qed

lemma complete_removals_custody:
  assumes "receipt_seqs (lib X) st0 r \<subseteq> A"
  shows "keeps (on (custody X st0 A)) (complete_removals X r fl)"
  unfolding complete_removals_def
proof (rule keeps_bind)
  have a: "ra_spool_seq a \<in> A" if "a \<in> set (rc_accepted_admissions r)" for a
    using assms that by (auto simp: receipt_seqs_def)
  show "keeps (on (custody X st0 A)) (for_fold (rc_accepted_admissions r) fl (\<lambda>fl a.
      bindR (remove_admitted_record X a) (\<lambda>removed. ok (fst fl \<or> removed, snd fl))))"
    by (rule triple_for_fold, rule triple_bind [OF triple_weak [OF remove_admitted_custody] keeps_pure(1)])
      (auto elim: on_mono simp: a)
  fix fl'
  show "keeps (on (custody X st0 A)) (for_fold (rc_accepted_gap_notice_ids r) fl' (complete_gap X))"
    using assms by (intro triple_for_fold complete_gap_custody) (auto simp: receipt_seqs_def)
qed

lemma complete_receipt_custody:
  "receipt_seqs (lib X) st0 r \<subseteq> A \<Longrightarrow> keeps (on (custody X st0 A)) (complete_receipt X r)"
  unfolding complete_receipt_def
  by (intro keeps_bind complete_removals_custody quiet keeps_pure)

section \<open>Expiry\<close>

lemma due_entries_set: "e \<in> set (due_entries st now) \<Longrightarrow> e \<in> set (bt_values (entries st))"
  by (simp add: due_entries_def)

lemma count_expired_ok: "bt_ok counted \<Longrightarrow> bt_ok (fst (count_expired st es counted n))"
  by (induction es arbitrary: counted n) auto

lemma expire_entry_custody:
  assumes X: "ctx_ok X" and e: "bt_get (entries st0) (e_record_id e) = Some e"
  shows "keeps (on (custody X st0 A)) (expire_entry X b e)"
proof -
  have gap: "triple (on (custody X st0 A)) (persist_gap_locked X e t r)
      (\<lambda>_. on (\<lambda>st. custody X st0 A st \<and> (e_spool_seq e \<in> A \<or> has_gap (e_spool_seq e) st))) (\<lambda>_. on (custody X st0 A))" for t r
    using persist_gap_custody [OF X e, where R = "\<lambda>_. True"] by simp
  have rm: "triple (on (\<lambda>st. custody X st0 A st \<and> (e_spool_seq e \<in> A \<or> has_gap (e_spool_seq e) st)))
      (remove_admitted_record X (admission_of e)) (\<lambda>_. on (custody X st0 A)) (\<lambda>_. on (custody X st0 A))"
    by (rule triple_weak [OF remove_admitted_custody]) (auto simp: admission_of_def elim: on_mono)
  show ?thesis
    unfolding expire_entry_def
    by (rule triple_match [OF gap], rule triple_bind [OF rm]) (intro keeps_bind keeps_pure quiet)+
qed

lemma expire_due_custody:
  assumes X: "ctx_ok X" and c: "base_inv X st0" "collision_free (lib X) st0 \<or> A = UNIV"
  shows "triple (on (\<lambda>x. x = st0)) (expire_due X now) (\<lambda>_. on (custody X st0 A)) (\<lambda>_. on (custody X st0 A))"
  unfolding expire_due_def Let_def
proof (rule triple_gets_state, hypsubst, goal_cases)
  case 1
  obtain counted n where cn: "count_expired st0 (due_entries st0 now) (counted_pending_expirations st0) 0 = (counted, n)"
    by fastforce
  have ok: "bt_ok counted"
    using count_expired_ok [of "counted_pending_expirations st0" st0 "due_entries st0 now" 0] cn c(1)
    by (simp add: base_inv_def maps_ok_def)
  have upd: "custody X st0 A (st\<lparr>expired_records := total, counted_pending_expirations := counted\<rparr>)"
    if "custody X st0 A st" for st total
    by (rule custody_cong [OF that base_inv_cong [OF _ _ _ _ _ _ _ _ custody_base [OF that]]]) (use ok in auto)
  have e: "bt_get (entries st0) (e_record_id e) = Some e" if "e \<in> set (due_entries st0 now)" for e
    using entry_get [OF c(1) due_entries_set [OF that]] .
  show ?case
    unfolding cn prod.case
    by (rule triple_from [where P = "custody X st0 A"],
        intro keeps_bind quiet keeps_pure triple_upd_state upd triple_for_fold expire_entry_custody X e custody_refl c)
      (use c in \<open>auto intro: custody_refl\<close>)
qed

end
