(* ===== verification/Spool_Safety.thy ===== *)
theory Spool_Safety
  imports Spool_Custody
begin

text \<open>
  Custody of the remaining operations: both batch builders, both acknowledgements and the
  pruning of receipts; the two loops return. From these, one step relation over a whole
  spool with its invariant, as an interpretation of \<open>invariant_system\<close>.
\<close>

section \<open>Sequencing\<close>

lemma collision_free_custody:
  "custody X st0 A st \<Longrightarrow> collision_free (lib X) st \<or> A = UNIV"
  unfolding custody_def collision_free_def by (blast intro: single_valued_subset)

lemma custody_trans: "custody X st0 A st \<Longrightarrow> custody X st A st' \<Longrightarrow> custody X st0 A st'"
  using map_le_trans unfolding custody_def by (auto 0 3)

text \<open>
  An operation keeps custody from any state with the invariant: nothing leaves but what
  may leave anyway.
\<close>

definition safe :: "ctx \<Rightarrow> 'a spool_proc \<Rightarrow> bool" where
  "safe X m \<longleftrightarrow> (\<forall>st0 A. base_inv X st0 \<longrightarrow> collision_free (lib X) st0 \<or> A = UNIV \<longrightarrow>
     triple (on (\<lambda>x. x = st0)) m (\<lambda>_. on (custody X st0 A)) (\<lambda>_. on (custody X st0 A)))"

lemma safeD:
  "safe X m \<Longrightarrow> base_inv X st0 \<Longrightarrow> collision_free (lib X) st0 \<or> A = UNIV \<Longrightarrow>
     triple (on (\<lambda>x. x = st0)) m (\<lambda>_. on (custody X st0 A)) (\<lambda>_. on (custody X st0 A))"
  unfolding safe_def by blast

text \<open>From inside a custody phase, a safe operation continues it.\<close>

lemma safe_keeps: "safe X m \<Longrightarrow> keeps (on (custody X st0 A)) m"
proof (rule triple_on, goal_cases)
  case (1 st)
  then have "triple (on (\<lambda>x. x = st)) m (\<lambda>_. on (custody X st A)) (\<lambda>_. on (custody X st A))"
    by (intro safeD) (auto intro: custody_base dest: collision_free_custody)
  then show ?case by (rule triple_conseq) (auto elim!: on_mono intro: custody_trans [OF 1(2)])
qed

lemma safeI:
  "(\<And>st0 A. base_inv X st0 \<Longrightarrow> collision_free (lib X) st0 \<or> A = UNIV \<Longrightarrow>
     triple (on (\<lambda>x. x = st0)) m (\<lambda>_. on (custody X st0 A)) (\<lambda>_. on (custody X st0 A))) \<Longrightarrow> safe X m"
  unfolding safe_def by blast

lemma safe_from_keeps: "(\<And>st0 A. keeps (on (custody X st0 A)) m) \<Longrightarrow> safe X m"
proof (rule safeI, goal_cases)
  case (1 st0 A)
  show ?case by (rule triple_from [OF 1(1)]) (rule custody_refl [OF 1(2,3)])
qed

lemma safe_expire_due: "ctx_ok X \<Longrightarrow> safe X (expire_due X now)"
  by (rule safeI, rule expire_due_custody)

section \<open>Batches\<close>

lemma batch_v1_loop_custody:
  assumes X: "ctx_ok X" and es: "\<And>e. e \<in> set es \<Longrightarrow> bt_get (entries st0) (e_record_id e) = Some e"
  shows "keeps (on (custody X st0 A)) (batch_v1_loop X es records n)"
  using es
proof (induction es arbitrary: records n)
  case Nil
  show ?case unfolding batch_v1_loop.simps by (rule keeps_pure)
next
  case (Cons e es)
  have IH: "keeps (on (custody X st0 A)) (batch_v1_loop X es records n)" for records n
    using Cons by simp
  have e: "bt_get (entries st0) (e_record_id e) = Some e" using Cons.prems by simp
  show ?case
    unfolding batch_v1_loop.simps Let_def
    by (intro quiet keeps_bind keeps_match keeps_pure IH quarantine_custody [OF X e])
qed

lemma safe_build_batch: "ctx_ok X \<Longrightarrow> safe X (build_batch X)"
proof (rule safeI, goal_cases)
  case (1 st0 A)
  have e: "bt_get (entries st0) (e_record_id e) = Some e"
    if "e \<in> set (sort_key (\<lambda>e. (e_admitted_at_ms e, e_record_id e)) (bt_values (entries st0)))" for e
    using that by (intro entry_get [OF 1(2)]) simp
  show ?case
    unfolding build_batch_def
    by (rule triple_gets_state, hypsubst, rule triple_from [where P = "custody X st0 A"])
      (intro keeps_bind keeps_pure batch_v1_loop_custody 1(1) e custody_refl 1(2,3); assumption)+
qed

lemma safe_next_batch: "ctx_ok X \<Longrightarrow> safe X (next_batch X now)"
  unfolding next_batch_def
  by (rule safe_from_keeps, intro keeps_bind keeps_pure safe_keeps safe_expire_due safe_build_batch)

lemma candidate_item_custody:
  assumes X: "ctx_ok X" and c: "\<And>e. c = CandRecord e \<Longrightarrow> bt_get (entries st0) (e_record_id e) = Some e"
  shows "keeps (on (custody X st0 A)) (candidate_item X counted c)"
proof (cases c)
  case (CandRecord e)
  show ?thesis unfolding candidate_item_def CandRecord batch_candidate_v2.case
    by (intro quiet keeps_bind keeps_match keeps_pure quarantine_custody [OF X c [OF CandRecord]])
next
  case (CandGap g)
  show ?thesis unfolding candidate_item_def CandGap batch_candidate_v2.case by (rule keeps_pure)
qed

lemma batch_v2_loop_custody:
  assumes X: "ctx_ok X"
    and cs: "\<And>e. CandRecord e \<in> set cs \<Longrightarrow> bt_get (entries st0) (e_record_id e) = Some e"
  shows "keeps (on (custody X st0 A)) (batch_v2_loop X counted cs a)"
  using cs
proof (induction cs arbitrary: a)
  case Nil
  show ?case unfolding batch_v2_loop.simps by (rule keeps_pure)
next
  case (Cons c cs)
  have IH: "keeps (on (custody X st0 A)) (batch_v2_loop X counted cs a)" for a
    using Cons by simp
  have item: "keeps (on (custody X st0 A)) (candidate_item X counted c)"
    by (rule candidate_item_custody [OF X]) (use Cons.prems in auto)
  show ?case
    unfolding batch_v2_loop.simps
    by (intro quiet keeps_bind keeps_pure item) (auto split: option.split intro!: keeps_bind IH)
qed

lemma batch_candidates_record:
  "CandRecord e \<in> set (batch_candidates st) \<longleftrightarrow> e \<in> set (bt_values (entries st))"
  by (auto simp: batch_candidates_def)

lemma batch_candidates_gap:
  "CandGap n \<in> set (batch_candidates st) \<longleftrightarrow> (\<exists>g \<in> set (bt_values (gaps st)). g_notice g = n)"
  by (auto simp: batch_candidates_def)

lemma safe_build_batch_v2_once: "ctx_ok X \<Longrightarrow> safe X (build_batch_v2_once X)"
proof (rule safeI, goal_cases)
  case (1 st0 A)
  have e: "bt_get (entries st0) (e_record_id e) = Some e"
    if "CandRecord e \<in> set (batch_candidates st0)" for e
    using that entry_get [OF 1(2)] by (simp add: batch_candidates_record)
  show ?case
    unfolding build_batch_v2_once_def Let_def
    by (rule triple_gets_state, hypsubst, rule triple_from [where P = "custody X st0 A"])
      (intro keeps_bind keeps_pure quiet batch_v2_loop_custody 1(1) e custody_refl 1(2,3); assumption)+
qed

lemma keeps_loopR: "keeps I body \<Longrightarrow> keeps I (loopR fuel stuck body)"
  by (rule triple_loopR) (auto elim!: triple_conseq split: option.split)

lemma safe_build_batch_v2: "ctx_ok X \<Longrightarrow> safe X (build_batch_v2 X)"
  unfolding build_batch_v2_def
  by (rule safe_from_keeps, rule keeps_loopR, rule safe_keeps, rule safe_build_batch_v2_once)

lemma safe_next_batch_v2: "ctx_ok X \<Longrightarrow> safe X (next_batch_v2 X now)"
  unfolding next_batch_v2_def
  by (rule safe_from_keeps, intro keeps_bind safe_keeps safe_expire_due safe_build_batch_v2)

section \<open>Receipts\<close>

lemma oldest_receipt_in: "oldest_receipt m = Some r \<Longrightarrow> r \<in> set (bt_values m)"
proof -
  have fold: "foldl (\<lambda>best x. if f x < f best then x else best) r rs \<in> insert r (set rs)"
    for r :: receipt_entry and rs and f :: "receipt_entry \<Rightarrow> nat"
  proof (induction rs arbitrary: r)
    case (Cons x rs)
    show ?case using Cons.IH [of x] Cons.IH [of r] by (simp split: if_split) blast
  qed simp
  assume "oldest_receipt m = Some r"
  then show ?thesis
    using fold [of "\<lambda>r. rc_sequence (re_receipt r)"]
    by (auto simp: oldest_receipt_def split: list.splits)
qed

lemma custody_receipts:
  "custody X st0 A st \<Longrightarrow> custody X st0 A (st\<lparr>receipts := bt_remove k (receipts st)\<rparr>)"
  by (rule custody_cong) (auto intro: base_inv_remove_receipt custody_base)

lemma custody_pruned: "custody X st0 A st \<Longrightarrow> custody X st0 A (st\<lparr>v1_ack_history_pruned := b\<rparr>)"
  by (rule custody_cong, assumption, rule base_inv_cong)
    (auto dest!: custody_base simp: base_inv_def maps_ok_def)

lemma prune_custody: "keeps (on (custody X st0 A)) (prune_receipts X)"
  unfolding prune_receipts_def prune_once_def
  by (rule keeps_loopR) (intro keeps_bind keeps_pure quiet triple_upd_state custody_receipts custody_pruned)

lemma take_sequence_custody:
  "triple (on (custody X st0 A)) take_receipt_sequence
     (\<lambda>n. on (\<lambda>st. custody X st0 A st \<and> n < next_receipt_sequence st)) (\<lambda>_. on (custody X st0 A))"
proof (rule tripleI, goal_cases)
  case (1 s n t)
  let ?st = "(state_of s)\<lparr>next_receipt_sequence := Suc n\<rparr>"
  from 1 have t: "state_of t = ?st" "disk_ok t" "n = next_receipt_sequence (state_of s)"
    by (auto simp: take_receipt_sequence_def upd_state_def proc_defs on_def disk_ok_def checked_add_u64_def
        split: if_splits)
  have c: "custody X st0 A (state_of s)" using 1 by (simp add: on_def)
  have "custody X st0 A ?st"
    by (rule custody_cong [OF c base_inv_cong [OF _ _ _ _ _ _ _ _ custody_base [OF c]]])
      (use custody_base [OF c] t in \<open>auto simp: base_inv_def maps_ok_def\<close>)
  with t show ?case by (simp add: on_def)
next
  case (2 s e t)
  then show ?case
    by (auto simp: take_receipt_sequence_def upd_state_def proc_defs checked_add_u64_def split: if_splits)
qed

lemma store_receipt_custody:
  "triple (on (\<lambda>st. custody X st0 A st \<and> rc_sequence r < next_receipt_sequence st)) (store_receipt X r)
     (\<lambda>_. on (custody X st0 A)) (\<lambda>_. on (custody X st0 A))"
proof -
  have upd: "custody X st0 A (st\<lparr>receipts := bt_insert (rc_batch_id r)
      \<lparr>re_receipt = r, re_path = (Receipts, receipt_file_name (rc_sequence r) (rc_batch_id r))\<rparr> (receipts st)\<rparr>)"
    if "custody X st0 A st \<and> rc_sequence r < next_receipt_sequence st" for st
    by (rule custody_cong [OF conjunct1 [OF that] base_inv_insert_receipt])
      (use that custody_base in auto)
  show ?thesis
    unfolding store_receipt_def Let_def
    by (intro triple_ok_or_bind triple_failIf_bind triple_quiet_bind quiet triple_upd_state upd)
      (auto elim: on_mono)
qed

section \<open>Acknowledgements\<close>

text \<open>
  The sequence numbers an acknowledgement releases: those of the stored receipt when the
  batch was acknowledged before, otherwise those of the pending records and notices it names.
\<close>

definition acked_v1 :: "ctx \<Rightarrow> spool_state \<Rightarrow> hub_ack_v1 \<Rightarrow> nat set" where
  "acked_v1 X st a = (case bt_get (receipts st) (a1_batch_id a) of
     Some prior \<Rightarrow> receipt_seqs (lib X) st (re_receipt prior)
   | None \<Rightarrow> {e_spool_seq e | e. e \<in> set (bt_values (entries st))
       \<and> e_record_id e \<in> set (a1_accepted_record_ids a)})"

definition acked_v2 :: "ctx \<Rightarrow> spool_state \<Rightarrow> hub_ack_v2 \<Rightarrow> nat set" where
  "acked_v2 X st a = (case bt_get (receipts st) (a2_batch_id a) of
     Some prior \<Rightarrow> receipt_seqs (lib X) st (re_receipt prior)
   | None \<Rightarrow> {e_spool_seq e | e. e \<in> set (bt_values (entries st))
         \<and> e_stable_record_id e \<in> set (a2_accepted_record_ids a)}
       \<union> {q. \<exists>n \<in> set (a2_accepted_gap_notice_ids a). (n, q) \<in> notice_ids (lib X) st})"

lemma custody_values:
  assumes "custody X st0 A st" "bt_get (entries st) k = Some e"
  shows "e \<in> set (bt_values (entries st0))" "e_record_id e = k"
proof -
  from assms have "bt_get (entries st0) k = Some e" by (auto simp: custody_def map_le_def dom_def)
  moreover from assms have "maps_ok st0" by (simp add: custody_def base_inv_def)
  ultimately show "e \<in> set (bt_values (entries st0))" by (auto simp: bt_values_iff maps_ok_def)
  show "e_record_id e = k"
    using custody_base [OF assms(1)] assms(2) by (simp add: base_inv_def entries_inv_def entry_ok_def)
qed

lemma admissions_v1_seqs:
  assumes c: "custody X st0 A st" and "receipt_admissions_v1 st d a = Inr adm"
  shows "ra_spool_seq ` set adm \<subseteq> {e_spool_seq e | e. e \<in> set (bt_values (entries st0))
    \<and> e_record_id e \<in> set (a1_accepted_record_ids a)}"
proof
  fix q assume "q \<in> ra_spool_seq ` set adm"
  then obtain ad where ad: "ad \<in> set adm" "q = ra_spool_seq ad" by blast
  obtain r :: hub_batch_record_v1 where r1: "b1_record_id r \<in> set (a1_accepted_record_ids a)"
    "(case bt_get (entries st) (b1_record_id r) of None \<Rightarrow> Inl InvalidAcknowledgement
      | Some e \<Rightarrow> Inr (admission_of e)) = Inr ad"
    using mapM_Inr_set [OF assms(2) [unfolded receipt_admissions_v1_def] ad(1)] by auto
  then obtain e where r: "bt_get (entries st) (b1_record_id r) = Some e" "ad = admission_of e"
    by (auto split: option.splits)
  with ad r1(1) custody_values [OF c r(1)] show "q \<in> {e_spool_seq e | e. e \<in> set (bt_values (entries st0))
      \<and> e_record_id e \<in> set (a1_accepted_record_ids a)}"
    by (auto simp: admission_of_def)
qed

lemma admissions_v2_seqs:
  assumes c: "custody X st0 A st" and "receipt_admissions_v2 st d a = Inr adm"
  shows "ra_spool_seq ` set adm \<subseteq> {e_spool_seq e | e. e \<in> set (bt_values (entries st0))
    \<and> e_stable_record_id e \<in> set (a2_accepted_record_ids a)}"
proof
  fix q assume "q \<in> ra_spool_seq ` set adm"
  then obtain ad where ad: "ad \<in> set adm" "q = ra_spool_seq ad" by blast
  obtain r :: hub_batch_record_v2 where r1: "b2_record_id r \<in> set (a2_accepted_record_ids a)"
    "(case bt_get (entries st) (b2_legacy_record_id r) of None \<Rightarrow> Inl InvalidAcknowledgement
      | Some e \<Rightarrow> if e_spool_seq e \<noteq> b2_spool_seq r \<or> e_stable_record_id e \<noteq> b2_record_id r
          then Inl InvalidAcknowledgement
          else Inr \<lparr>ra_spool_seq = b2_spool_seq r, ra_stable_record_id = b2_record_id r,
            ra_legacy_record_id = b2_legacy_record_id r\<rparr>) = Inr ad"
    using mapM_Inr_set [OF assms(2) [unfolded receipt_admissions_v2_def] ad(1)] by auto
  then obtain e where r: "bt_get (entries st) (b2_legacy_record_id r) = Some e" "e_spool_seq e = q"
    "e_stable_record_id e = b2_record_id r"
    using ad(2) by (auto split: option.splits if_splits)
  with r1(1) custody_values [OF c r(1)] show "q \<in> {e_spool_seq e | e. e \<in> set (bt_values (entries st0))
      \<and> e_stable_record_id e \<in> set (a2_accepted_record_ids a)}"
    by (intro CollectI exI [of _ e]) simp
qed

lemma receipt_tail_custody:
  assumes "receipt_seqs (lib X) st0 r \<subseteq> A"
  shows "triple (on (\<lambda>st. custody X st0 A st \<and> rc_sequence r < next_receipt_sequence st))
    (bindR (store_receipt X r) (\<lambda>_. bindR (complete_receipt X r) (\<lambda>_. bindR (prune_receipts X) (\<lambda>_. ok z))))
    (\<lambda>_. on (custody X st0 A)) (\<lambda>_. on (custody X st0 A))"
  by (rule triple_bind [OF store_receipt_custody],
      intro keeps_bind complete_receipt_custody assms prune_custody keeps_pure)

lemma acknowledge_v2_custody:
  assumes X: "ctx_ok X" and c: "base_inv X st0" "collision_free (lib X) st0"
  shows "triple (on (\<lambda>x. x = st0)) (acknowledge_v2 X a) (\<lambda>_. on (custody X st0 (acked_v2 X st0 a)))
    (\<lambda>_. on (custody X st0 (acked_v2 X st0 a)))"
proof -
  let ?A = "acked_v2 X st0 a"
  let ?I = "custody X st0 ?A"
  have refl: "?I st0" using c by (simp add: custody_refl)
  have err: "on ?I s" if "on (\<lambda>x. x = st0) s" for s using that refl by (auto elim: on_mono)
  show ?thesis
    unfolding acknowledge_v2_def
  proof (rule triple_failIf_bind, rule triple_gets_state, hypsubst, goal_cases)
    case 1
    show ?case
    proof (cases "bt_get (receipts st0) (a2_batch_id a)")
      case (Some prior)
      then have "receipt_seqs (lib X) st0 (re_receipt prior) \<subseteq> ?A" by (simp add: acked_v2_def)
      then show ?thesis unfolding Some option.case
        by (intro triple_from [where P = ?I, OF _ refl] keeps_bind keeps_pure complete_receipt_custody)
    next
      case None
      have seqs: "receipt_seqs (lib X) st0 \<lparr>rc_version = 2, rc_sequence = n, rc_batch_id = a2_batch_id a,
          rc_accepted_record_ids = [], rc_accepted_stable_record_ids = a2_accepted_record_ids a,
          rc_accepted_gap_notice_ids = a2_accepted_gap_notice_ids a, rc_accepted_admissions = adm\<rparr> \<subseteq> ?A"
        if "?I st" "receipt_admissions_v2 st d a = Inr adm" for st d adm n
        using admissions_v2_seqs [OF that] None by (auto simp: receipt_seqs_def acked_v2_def)
      show ?thesis unfolding None option.case Let_def
      proof (rule triple_from [where P = ?I, OF _ refl], rule triple_bind,
          rule safe_keeps [OF safe_build_batch_v2 [OF X]], rule triple_failIf_bind, rule triple_on, goal_cases)
        case (1 d st)
        show ?case
          by (rule triple_gets_state, hypsubst, rule triple_lift_bind, rule triple_bind,
              rule triple_from [OF take_sequence_custody 1(2)], rule triple_weak,
              rule receipt_tail_custody [OF seqs [OF 1(2)]])
            (use 1(2) in \<open>auto elim: on_mono\<close>)
      qed
    qed
  qed (rule err)
qed

lemma acknowledge_v1_custody:
  assumes X: "ctx_ok X" and c: "base_inv X st0" "collision_free (lib X) st0"
  shows "triple (on (\<lambda>x. x = st0)) (acknowledge X a) (\<lambda>_. on (custody X st0 (acked_v1 X st0 a)))
    (\<lambda>_. on (custody X st0 (acked_v1 X st0 a)))"
proof -
  let ?A = "acked_v1 X st0 a"
  let ?I = "custody X st0 ?A"
  have refl: "?I st0" using c by (simp add: custody_refl)
  have err: "on ?I s" if "on (\<lambda>x. x = st0) s" for s using that refl by (auto elim: on_mono)
  show ?thesis
    unfolding acknowledge_def
  proof (rule triple_failIf_bind, rule triple_gets_state, hypsubst, goal_cases)
    case 1
    show ?case
    proof (cases "bt_get (receipts st0) (a1_batch_id a)")
      case (Some prior)
      then have "receipt_seqs (lib X) st0 (re_receipt prior) \<subseteq> ?A" by (simp add: acked_v1_def)
      then show ?thesis unfolding Some option.case
        by (intro triple_from [where P = ?I, OF _ refl] keeps_bind keeps_pure complete_receipt_custody)
    next
      case None
      have seqs: "receipt_seqs (lib X) st0 \<lparr>rc_version = 1, rc_sequence = n, rc_batch_id = a1_batch_id a,
          rc_accepted_record_ids = a1_accepted_record_ids a, rc_accepted_stable_record_ids = [],
          rc_accepted_gap_notice_ids = [], rc_accepted_admissions = adm\<rparr> \<subseteq> ?A"
        if "?I st" "receipt_admissions_v1 st d a = Inr adm" for st d adm n
        using admissions_v1_seqs [OF that] None by (auto simp: receipt_seqs_def acked_v1_def)
      show ?thesis unfolding None option.case Let_def
      proof (rule triple_failIf_bind, rule triple_from [where P = ?I, OF _ refl], rule triple_bind,
          rule safe_keeps [OF safe_build_batch [OF X]], rule triple_failIf_bind, rule triple_on, goal_cases)
        case (1 d st)
        show ?case
          by (rule triple_gets_state, hypsubst, rule triple_lift_bind, rule triple_bind,
              rule triple_from [OF take_sequence_custody 1(3)], rule triple_weak,
              rule receipt_tail_custody [OF seqs [OF 1(3)]])
            (use 1(3) in \<open>auto elim: on_mono\<close>)
      qed (use err in auto)
    qed
  qed (rule err)
qed

section \<open>Admission\<close>

text \<open>
  No identifier of the new record collides with one in the state: equal record
  identifiers mean equal stable identifiers, and its gap notices are new.
\<close>

definition enqueue_distinct :: "ctx \<Rightarrow> spool_state \<Rightarrow> receiver_envelope \<Rightarrow> bool" where
  "enqueue_distinct X st envelope \<longleftrightarrow>
     (\<forall>e. bt_get (entries st) (record_id (lib X) envelope) = Some e \<longrightarrow>
        e_stable_record_id e = stable_record_id (lib X) envelope) \<and>
     (\<forall>r q. (gap_notice_id (gap_notice_for_identity (lib X) (next_spool_sequence st)
        (stable_record_id (lib X) envelope) 0 r), q) \<notin> notice_ids (lib X) st)"

definition new_entry :: "ctx \<Rightarrow> spool_state \<Rightarrow> receiver_envelope \<Rightarrow> int \<Rightarrow> nat \<Rightarrow> entry" where
  "new_entry X st envelope now n =
     \<lparr>e_record_id = record_id (lib X) envelope, e_stable_record_id = stable_record_id (lib X) envelope,
      e_spool_seq = next_spool_sequence st, e_admitted_at_ms = now,
      e_expires_at_ms = sat_add_i64 now (retention_ms (config X)), e_encrypted_bytes = n,
      e_path = (Pending, pending_file_name (next_spool_sequence st) (record_id (lib X) envelope))\<rparr>"

lemma admit_base_inv:
  assumes "ctx_ok X" "state_inv X st" "collision_free (lib X) st" "enqueue_distinct X st envelope"
    and none: "bt_get (stable_index st) (stable_record_id (lib X) envelope) = None"
    and room: "sat_add_u64 (length (entries st)) (length (gaps st)) < max_records (config X)"
      "sat_add_u64 (pending_bytes st) n \<le> max_bytes (config X)"
    and e_def: "e = new_entry X st envelope now n"
  shows "state_inv X (admit_entry e st)" "collision_free (lib X) (admit_entry e st)"
    "live_seqs (admit_entry e st) = insert (next_spool_sequence st) (live_seqs st)"
proof -
  have inv: "base_inv X st" and below: "\<forall>q \<in> live_seqs st. q < next_spool_sequence st"
    and pos: "0 < next_spool_sequence st"
    using assms(2) by (simp_all add: state_inv_def)
  then have m: "maps_ok st" and ei: "entries_inv st" by (simp_all add: base_inv_def)
  have e: "e_record_id e = record_id (lib X) envelope" "e_stable_record_id e = stable_record_id (lib X) envelope"
    "e_spool_seq e = next_spool_sequence st" "e_encrypted_bytes e = n"
    "e_path e = (Pending, pending_file_name (e_spool_seq e) (e_record_id e))"
    by (simp_all add: e_def new_entry_def)
  have fresh: "bt_get (entries st) (e_record_id e) = None"
  proof (rule ccontr)
    assume "bt_get (entries st) (e_record_id e) \<noteq> None"
    then obtain e' where e': "bt_get (entries st) (e_record_id e) = Some e'" by blast
    with assms(4) e have "e_stable_record_id e' = stable_record_id (lib X) envelope"
      by (simp add: enqueue_distinct_def)
    moreover from e' ei have "bt_get (stable_index st) (e_stable_record_id e') = Some (e_record_id e)"
      by (simp add: entries_inv_def entry_ok_def)
    ultimately show False using none by simp
  qed
  have free: "entry_free st e" using fresh none below e by (auto simp: entry_free_def)
  have len: "length (entries st) < max_records (config X)"
    using room(1) assms(1) by (auto simp: sat_add_u64_def ctx_ok_def)
  have base: "base_inv X (index_entry e st)"
    by (rule base_inv_index_entry [OF inv assms(1) free]) (use e pos len room(2) in auto)
  have live: "live_seqs (index_entry e st) = insert (next_spool_sequence st) (live_seqs st)"
    using live_index_entry [OF m fresh] e by simp
  have same: "base_inv X (admit_entry e st)" "live_seqs (admit_entry e st) = live_seqs (index_entry e st)"
    "notice_ids (lib X) (admit_entry e st) = notice_ids (lib X) (index_entry e st)"
    unfolding admit_entry_index
    by (rule base_inv_cong [OF _ _ _ _ _ _ _ _ base])
      (use base in \<open>auto simp: base_inv_def maps_ok_def live_seqs_def notice_ids_def\<close>)
  show "live_seqs (admit_entry e st) = insert (next_spool_sequence st) (live_seqs st)"
    using same live by simp
  then show "state_inv X (admit_entry e st)"
    using same(1) below e by (auto simp: state_inv_def admit_entry_def)
  have ids: "notice_ids (lib X) (index_entry e st) \<subseteq> notice_ids (lib X) st \<union>
      {(gap_notice_id (gap_notice (lib X) e 0 r), e_spool_seq e) | r. True}"
    using m by (force simp: notice_ids_def index_entry_def bt_values_def set_bt_insert maps_ok_def)
  have new: "(gap_notice_id (gap_notice (lib X) e 0 r), q) \<notin> notice_ids (lib X) st" for r q
    using assms(4) e by (simp add: enqueue_distinct_def gap_notice_def)
  have "single_valued (notice_ids (lib X) st \<union>
      {(gap_notice_id (gap_notice (lib X) e 0 r), e_spool_seq e) | r. True})"
    using assms(3) new unfolding collision_free_def single_valued_def by blast
  then show "collision_free (lib X) (admit_entry e st)"
    unfolding collision_free_def same(3) using ids by (rule single_valued_subset [rotated])
qed

text \<open>Admission leaves the state as it was, or with exactly the new entry in it.\<close>

definition admitted :: "ctx \<Rightarrow> receiver_envelope \<Rightarrow> int \<Rightarrow> spool_state \<Rightarrow> spool_state \<Rightarrow> bool" where
  "admitted X envelope now st st' \<longleftrightarrow>
     (\<exists>n. st' = admit_entry (new_entry X st envelope now n) st) \<and> state_inv X st'
     \<and> collision_free (lib X) st' \<and> live_seqs st' = insert (next_spool_sequence st) (live_seqs st)"

lemma enqueue_new_state:
  assumes "ctx_ok X" "state_inv X st0" "collision_free (lib X) st0" "enqueue_distinct X st0 envelope"
    and none: "bt_get (stable_index st0) (stable_record_id (lib X) envelope) = None"
  shows "triple (on (\<lambda>x. x = st0)) (enqueue_new X envelope now)
    (\<lambda>r. on (\<lambda>st. r = Stored (record_id (lib X) envelope) \<and> admitted X envelope now st0 st))
    (\<lambda>_. on (\<lambda>st. st = st0 \<or> admitted X envelope now st0 st))"
proof -
  have adm: "admitted X envelope now st0 (admit_entry (new_entry X st0 envelope now n) st0)"
    if "\<not> (max_records (config X) \<le> sat_add_u64 (length (entries st0)) (length (gaps st0)) \<or>
         max_bytes (config X) < sat_add_u64 (pending_bytes st0) m)"
      "\<not> max_bytes (config X) < sat_add_u64 (pending_bytes st0) n" for n m
    using admit_base_inv [OF assms _ _ refl, of n now] that by (auto simp: admitted_def)
  have fin: "triple (on (\<lambda>x. x = st0))
      (bindR (upd_state (admit_entry e)) (\<lambda>_. bindR (persist_sequence_state X a b c d)
        (\<lambda>_. ok (Stored (record_id (lib X) envelope)))))
      (\<lambda>r. on (\<lambda>st. r = Stored (record_id (lib X) envelope) \<and> admitted X envelope now st0 st))
      (\<lambda>_. on (\<lambda>st. st = st0 \<or> admitted X envelope now st0 st))"
    if "admitted X envelope now st0 (admit_entry e st0)" for e a b c d
    by (rule triple_bind, rule triple_upd_state [where Q = "admitted X envelope now st0"],
        use that in simp, rule triple_bind, rule quiet_err [OF quiet_persist_sequence_state])
      (auto intro!: hoare elim: on_mono)
  show ?thesis
    unfolding enqueue_new_def Let_def
    by (rule triple_gets_state, hypsubst,
        intro triple_ok_or_bind triple_failIf_bind triple_quiet_bind quiet fin)
      (auto simp: adm [unfolded new_entry_def] elim: on_mono)
qed

lemma enqueue_state:
  assumes "ctx_ok X" "state_inv X st0" "collision_free (lib X) st0" "enqueue_distinct X st0 envelope"
  shows "triple (on (\<lambda>x. x = st0)) (enqueue X envelope now)
    (\<lambda>r. on (\<lambda>st. r = Stored (record_id (lib X) envelope) \<and> admitted X envelope now st0 st
       \<or> (\<exists>k. r = AlreadyPresent k \<and> st = st0
           \<and> bt_get (stable_index st0) (stable_record_id (lib X) envelope) = Some k)))
    (\<lambda>_. on (\<lambda>st. st = st0 \<or> admitted X envelope now st0 st))"
proof -
  have latch: "triple (on (\<lambda>x. x = st0)) (gets storage_write_failed) (\<lambda>_. on (\<lambda>x. x = st0)) F" for F
    by (rule triple_gets) simp
  show ?thesis
    unfolding enqueue_def
  proof (intro triple_lift_bind triple_bind [OF latch] triple_failIf_bind triple_gets_state, hypsubst, goal_cases)
    case 1
    show ?case
    proof (cases "bt_get (stable_index st0) (stable_record_id (lib X) envelope)")
      case None
      show ?thesis unfolding None option.case
        by (rule triple_conseq [OF enqueue_new_state [OF assms None]]) (auto elim: on_mono)
    next
      case (Some k)
      then show ?thesis by (auto intro!: hoare elim: on_mono)
    qed
  qed (auto elim: on_mono)
qed

end
