(* ===== verification/Spool_Reopen.thy ===== *)
theory Spool_Reopen
  imports Spool_Safety
begin

text \<open>
  Opening a spool on an arbitrary disk: whatever files are there, a successful
  \<open>Spool::open\<close> leaves a state with the invariant, with the next sequence number above
  every number on the disk. Then the step relation of a whole spool, with admission,
  delivery, acknowledgement, expiry, reopening and outside damage to the files, and its
  invariant on every reachable state.
\<close>

section \<open>Phases before the first record\<close>

definition empty_inv :: "ctx \<Rightarrow> spool_state \<Rightarrow> bool" where
  "empty_inv X st \<longleftrightarrow> base_inv X st \<and> entries st = []"

lemma quiet_dir_entry [quiet]: "keeps (on P) (dir_entry X p)"
  unfolding dir_entry_def by (intro quiet keeps_bind)

lemma quiet_read_dir [quiet]: "keeps (on P) (read_dir X d)"
  unfolding read_dir_def by (intro quiet)

lemma base_inv_corrupt: "base_inv X st \<Longrightarrow> base_inv X (st\<lparr>corrupt_records := n\<rparr>)"
  by (rule base_inv_cong [of _ st]) (auto simp: base_inv_def maps_ok_def)

lemma bump_corrupt_base [quiet]: "keeps (on (base_inv X)) bump_corrupt"
  unfolding bump_corrupt_def by (rule triple_upd_state) (rule base_inv_corrupt)

lemma bump_corrupt_empty [quiet]: "keeps (on (empty_inv X)) bump_corrupt"
  unfolding bump_corrupt_def by (rule triple_upd_state) (simp add: empty_inv_def base_inv_corrupt)

lemma recover_prepare_empty [quiet]: "keeps (on (empty_inv X)) (recover_prepare X)"
  unfolding recover_prepare_def by (intro keeps_bind keeps_pure quiet)

lemma empty_insert_gap:
  assumes "ctx_ok X" "empty_inv X st" "valid_gap_notice (lib X) n"
    and "\<not> bt_contains (gaps st) (gap_notice_id n)"
    and "\<not> list_ex (\<lambda>g. gap_spool_seq (g_notice g) = gap_spool_seq n) (bt_values (gaps st))"
    and "name = gap_file_name (gap_spool_seq n) (gap_notice_id n)"
    and "length (gaps st) < max_records (config X)" "sat_add_u64 (pending_gap_bytes st) b \<le> max_bytes (config X)"
  shows "empty_inv X (insert_gap n b (Gaps, name) st)"
  using assms unfolding empty_inv_def
  by (intro conjI base_inv_insert_gap)
    (auto simp: valid_gap_notice_def bt_contains_def insert_gap_def)

lemma recover_gap_empty:
  assumes X: "ctx_ok X"
  shows "keeps (on (empty_inv X)) (recover_gap X name)"
proof -
  have fin: "keeps (on (empty_inv X)) (bindR (gets state_of) (\<lambda>st.
     bindR (failIf (\<not> valid_gap_notice (lib X) n
        \<or> name \<noteq> gap_file_name (gap_spool_seq n) (gap_notice_id n)
        \<or> bt_contains (gaps st) (gap_notice_id n)
        \<or> list_ex (\<lambda>g. gap_spool_seq (g_notice g) = gap_spool_seq n) (bt_values (gaps st)))
        CorruptRecord) (\<lambda>_.
     bindR (failIf (length (gaps st) \<ge> max_records (config X)
        \<or> sat_add_u64 (pending_gap_bytes st) b > max_bytes (config X)) CapacityExceeded) (\<lambda>_.
     upd_state (insert_gap n b (Gaps, name))))))" for n b
    by (rule triple_gets_state, intro triple_failIf_bind triple_upd_state)
      (use empty_insert_gap [OF X] in \<open>auto simp: on_def\<close>)
  show ?thesis unfolding recover_gap_def by (intro keeps_bind keeps_pure quiet fin)
qed

lemma recover_gaps_empty: "ctx_ok X \<Longrightarrow> keeps (on (empty_inv X)) (recover_gaps X)"
  unfolding recover_gaps_def by (intro keeps_bind quiet recover_gap_empty)

lemma parse_pending_pos: "parse_v2_pending_file_name name = Some (q, r) \<Longrightarrow> 0 < q"
  by (auto simp: parse_v2_pending_file_name_def split: option.splits prod.splits if_splits sum.splits
      Option.bind_splits)

lemma quarantine_recovered_empty:
  assumes X: "ctx_ok X"
  shows "keeps (on (empty_inv X)) (quarantine_recovered_pending X name now)"
proof (cases "parse_v2_pending_file_name name")
  case None
  then show ?thesis by (simp add: quarantine_recovered_pending_def)
next
  case (Some qr)
  obtain q r where qr: "qr = (q, r)" by fastforce
  have gap: "keeps (on (empty_inv X)) (persist_gap_locked X e t R)" if "e_spool_seq e = q" for e t R
  proof (rule triple_on, goal_cases)
    case (1 st)
    then have inv: "base_inv X st" "gap_source e st"
      using parse_pending_pos [OF Some [unfolded qr]] that by (auto simp: empty_inv_def gap_source_def)
    show ?case
      by (rule triple_conseq [OF persist_gap_cases [OF X inv]])
        (use 1 in \<open>auto simp: on_def empty_inv_def insert_gap_def\<close>)
  qed
  show ?thesis
    unfolding quarantine_recovered_pending_def Some qr option.case prod.case
    by (intro keeps_bind keeps_match keeps_pure quiet gap) simp
qed

text \<open>The records found so far are valid.\<close>

definition found_ok :: "ctx \<Rightarrow> recovered list \<Rightarrow> bool" where
  "found_ok X found \<longleftrightarrow> (\<forall>r \<in> set found. valid_stored_record (lib X) (fst r))"

lemma recover_pending_file_empty:
  assumes X: "ctx_ok X" and f: "found_ok X found"
  shows "triple (on (empty_inv X)) (recover_pending_file X now found name)
    (\<lambda>found'. on (\<lambda>st. empty_inv X st \<and> found_ok X found')) (\<lambda>_. on (empty_inv X))"
proof -
  have okf: "triple (on (empty_inv X)) (ok g) (\<lambda>found'. on (\<lambda>st. empty_inv X st \<and> found_ok X found'))
      (\<lambda>_. on (empty_inv X))" if "found_ok X g" for g
    using that by (intro triple_ok) (simp add: on_def)
  have skip: "triple (on (empty_inv X)) (bindR (quarantine_recovered_pending X name now) (\<lambda>_. ok found))
      (\<lambda>found'. on (\<lambda>st. empty_inv X st \<and> found_ok X found')) (\<lambda>_. on (empty_inv X))"
    by (rule triple_bind [OF quarantine_recovered_empty [OF X] okf [OF f]])
  have snoc: "found_ok X (found @ [(stored, p, n)])" if "valid_stored_record (lib X) stored" for stored p n
    using f that by (auto simp: found_ok_def)
  have dec: "triple (on (empty_inv X)) (case decrypt (lib X) (spool_key X) encrypted of
       Inl KeyMismatch \<Rightarrow> fail SpoolKeyMismatch
     | Inl InvalidCiphertext \<Rightarrow> bindR (quarantine_recovered_pending X name now) (\<lambda>_. ok found)
     | Inr plaintext \<Rightarrow>
         (case json_from_slice (lib X) dec_stored_record plaintext of
            None \<Rightarrow> bindR (quarantine_recovered_pending X name now) (\<lambda>_. ok found)
          | Some stored \<Rightarrow>
              if \<not> valid_stored_record (lib X) stored
                 \<or> \<not> ends_with (''-'' @ sr_record_id stored @ PENDING_SUFFIX) name
              then bindR (quarantine_recovered_pending X name now) (\<lambda>_. ok found)
              else bindR (ok_or (u64_try_from (length encrypted)) CapacityExceeded) (\<lambda>n.
                ok (found @ [(stored, (Pending, name), n)]))))
      (\<lambda>found'. on (\<lambda>st. empty_inv X st \<and> found_ok X found')) (\<lambda>_. on (empty_inv X))" for encrypted
    by (auto split: sum.split crypto_error.split option.split intro!: skip triple_ok_or_bind okf snoc triple_fail)
  show ?thesis
    unfolding recover_pending_file_def Let_def
    by (intro triple_quiet_bind quiet triple_if skip dec)
qed

section \<open>Indexing the records\<close>

lemma valid_stored_seq: "valid_stored_record C r \<Longrightarrow> sr_spool_seq r = Some q \<Longrightarrow> 0 < q"
  by (auto simp: valid_stored_record_def split: if_splits)

lemma migrate_record_ok:
  assumes "0 < nxt" "valid_stored_record (lib X) (fst r)"
  shows "triple (on P) (migrate_record X nxt r)
    (\<lambda>z. on (\<lambda>st. P st \<and> (\<forall>q. sr_spool_seq (fst z) = Some q \<longrightarrow> 0 < q) \<and> 0 < snd (snd z))) (\<lambda>_. on P)"
proof -
  obtain stored p n where r: "r = (stored, p, n)" by (cases r) auto
  show ?thesis
    unfolding migrate_record_def r prod.case Let_def
    by (intro triple_if triple_ok_or_bind triple_quiet_bind quiet triple_ok)
      (use assms r valid_stored_seq in \<open>auto simp: on_def checked_add_u64_Some\<close>)
qed

lemma quiet_canonical_rename [quiet]: "keeps (on P) (canonical_rename X p q)"
  unfolding canonical_rename_def by (intro quiet keeps_bind keeps_pure)

lemma admit_recovered_base:
  assumes X: "ctx_ok X" and r: "valid_stored_record (lib X) (fst r)" and n: "0 < nxt"
  shows "triple (on (base_inv X)) (admit_recovered X nxt r) (\<lambda>nxt'. on (\<lambda>st. base_inv X st \<and> 0 < nxt'))
    (\<lambda>_. on (base_inv X))"
proof -
  have idx: "base_inv X (index_entry \<lparr>e_record_id = sr_record_id stored, e_stable_record_id = sid,
      e_spool_seq = q, e_admitted_at_ms = t, e_expires_at_ms = t', e_encrypted_bytes = b,
      e_path = (Pending, pending_file_name q (sr_record_id stored))\<rparr> st)"
    if "base_inv X st" "0 < q"
      "\<not> list_ex (\<lambda>g. gap_spool_seq (g_notice g) = q) (bt_values (gaps st))"
      "\<not> (bt_contains (entries st) (sr_record_id stored) \<or> bt_contains (stable_index st) sid
        \<or> list_ex (\<lambda>e. e_spool_seq e = q) (bt_values (entries st))
        \<or> max_records (config X) \<le> length (entries st)
        \<or> max_bytes (config X) < sat_add_u64 (pending_bytes st) b)"
    for st q sid t t' b and stored :: stored_record
    by (rule base_inv_index_entry [OF that(1) X])
      (use that in \<open>auto simp: entry_free_def bt_contains_def live_seqs_def list_ex_iff\<close>)
  show ?thesis
    unfolding admit_recovered_def
  proof (rule triple_bind [OF migrate_record_ok [OF n r]], rule triple_on, elim conjE, goal_cases)
    case (1 z st)
    obtain stored m nxt' where z: "z = (stored, m, nxt')" by (cases z) auto
    show ?case
      unfolding z prod.case Let_def
    proof (intro triple_ok_or_bind triple_gets_state triple_if, goal_cases)
      case (1 sid q st')
      then show ?case
        using \<open>base_inv X st\<close> \<open>0 < snd (snd z)\<close> z
        by (intro triple_from [where P = "base_inv X"] triple_quiet_bind quiet triple_ok) (auto simp: on_def)
    next
      case (2 sid q st')
      then show ?case
        using 1 z idx
        by (intro triple_quiet_bind quiet triple_failIf_bind triple_bind [OF triple_upd_state [where Q = "base_inv X"]]
            triple_ok) (auto simp: on_def)
    qed (use 1 in \<open>auto simp: on_def\<close>)
  qed
qed

lemma recover_pending_base:
  assumes X: "ctx_ok X"
  shows "triple (on (empty_inv X)) (recover_pending X now) (\<lambda>_. on (base_inv X)) (\<lambda>_. on (base_inv X))"
proof -
  have weak: "on (base_inv X) s" if "on (empty_inv X) s" for s
    using that by (auto simp: on_def empty_inv_def)
  have files: "triple (on (empty_inv X)) (for_fold names [] (recover_pending_file X now))
      (\<lambda>found. on (\<lambda>st. empty_inv X st \<and> found_ok X found)) (\<lambda>_. on (base_inv X))" for names
  proof (rule triple_weak [where P' = "on (\<lambda>st. empty_inv X st \<and> found_ok X [])"],
      rule triple_for_fold, rule triple_on, elim conjE, goal_cases)
    case (1 name found st)
    show ?case
      by (rule triple_conseq [OF triple_from [OF recover_pending_file_empty [OF X 1(3)] 1(2)]])
        (auto intro: weak)
  qed (auto simp: on_def found_ok_def)
  have admit: "triple (on (base_inv X)) (for_fold rs start (admit_recovered X))
      (\<lambda>_. on (base_inv X)) (\<lambda>_. on (base_inv X))" if "found_ok X rs" "0 < start" for rs start
  proof (rule triple_conseq [where P' = "on (\<lambda>st. base_inv X st \<and> 0 < start)"
        and Q' = "\<lambda>n. on (\<lambda>st. base_inv X st \<and> 0 < n)" and E' = "\<lambda>_. on (base_inv X)"],
      rule triple_for_fold, rule triple_on, elim conjE, goal_cases)
    case (1 r n st)
    with that have "valid_stored_record (lib X) (fst r)" by (simp add: found_ok_def)
    from triple_from [OF admit_recovered_base [OF X this 1(3)] 1(2)] show ?case .
  qed (use that in \<open>auto simp: on_def\<close>)
  show ?thesis
    unfolding recover_pending_def
  proof (rule triple_bind [OF quiet_err [OF quiet_read_dir]], simp add: empty_inv_def,
      rule triple_bind [OF files], rule triple_gets_state, elim conjE,
      intro triple_ok_or_bind, goal_cases)
    case (1 names found st start)
    have "found_ok X (sort_recovered found)" using 1 by (simp add: found_ok_def sort_recovered_def)
    moreover have "0 < start" using 1 by (auto simp: migration_start_def checked_add_u64_Some)
    ultimately show ?case
      using 1 by (intro triple_from [where P = "base_inv X"] triple_bind [OF admit] triple_ok)
        (auto simp: empty_inv_def)
  qed (auto simp: on_def empty_inv_def)
qed

section \<open>Counters and receipts\<close>

lemma le_max_of: "x \<in> set xs \<Longrightarrow> x \<le> max_of xs"
proof -
  have mono: "a \<le> foldl max a xs" for a :: nat and xs
    by (induction xs arbitrary: a) (auto intro: order_trans max.cobounded1)
  have "x \<in> set xs \<Longrightarrow> x \<le> foldl max a xs" for a
  proof (induction xs arbitrary: a)
    case (Cons y ys)
    show ?case
    proof (cases "x = y")
      case True
      then show ?thesis using mono [of "max a y" ys] by simp
    next
      case False
      with Cons show ?thesis by simp
    qed
  qed simp
  then show "x \<in> set xs \<Longrightarrow> x \<le> max_of xs" by (simp add: max_of_def)
qed

lemma dec_counted_ok: "dec_counted C v = Some m \<Longrightarrow> bt_ok m"
  by (cases v) (auto intro: bt_ok_of_list)

lemma dec_sequence_state_ok:
  assumes "dec_sequence_state C v = Some q"
  shows "bt_ok (sq_counted_pending_expirations q)"
  using assms
  by (auto simp: dec_sequence_state_def field_default_def split: Option.bind_splits option.splits
      dest: dec_counted_ok)

lemma recover_sequence_state_ok:
  "triple (on P) (recover_sequence_state X)
     (\<lambda>q. on (\<lambda>st. P st \<and> (\<forall>v. q = Some v \<longrightarrow> bt_ok (sq_counted_pending_expirations v)))) (\<lambda>_. on P)"
proof -
  have dec: "bt_ok (sq_counted_pending_expirations v)"
    if "json_from_slice (lib X) (dec_sequence_state (lib X)) b = Some v" for b v
    using that
    by (auto simp: json_from_slice_def split: if_splits Option.bind_splits intro: dec_sequence_state_ok)
  show ?thesis
    unfolding recover_sequence_state_def
    by (rule triple_match [OF quiet_io(2)],
        intro triple_failIf_bind triple_quiet_bind quiet triple_ok_or_bind triple_ok)
      (auto simp: on_def dec intro!: triple_if triple_ok triple_fail)
qed

lemma recover_counters_state:
  "triple (on (base_inv X)) (recover_counters X) (\<lambda>_. on (state_inv X)) (\<lambda>_. on (base_inv X))"
  unfolding recover_counters_def
proof (rule triple_bind [OF recover_sequence_state_ok], rule triple_gets_state, elim conjE,
    intro triple_ok_or_bind, goal_cases)
  case (1 q st a b)
  let ?st = "apply_sequence_state q a b st"
  have base: "base_inv X ?st"
    by (rule base_inv_cong [OF _ _ _ _ _ _ _ _ 1(1)])
      (use 1(2) in \<open>auto simp: apply_sequence_state_def split: option.split\<close>)
  have live: "live_seqs ?st = live_seqs st"
    by (rule live_seqs_cong) (simp_all add: apply_sequence_state_def)
  have "n < next_spool_sequence ?st" if "n \<in> live_seqs st" for n
  proof -
    from that consider (e) "n \<in> set (map e_spool_seq (bt_values (entries st)))"
      | (g) "n \<in> set (map (\<lambda>g. gap_spool_seq (g_notice g)) (bt_values (gaps st)))"
      by (auto simp: live_seqs_def)
    then have "n < a \<or> n < b"
    proof cases
      case e
      from le_max_of [OF this] 1(3) show ?thesis by (simp add: checked_add_u64_Some)
    next
      case g
      from le_max_of [OF this] 1(4) show ?thesis by (simp add: checked_add_u64_Some)
    qed
    then show ?thesis by (auto simp: apply_sequence_state_def)
  qed
  moreover have "0 < next_spool_sequence ?st"
    using 1(3) by (auto simp: apply_sequence_state_def checked_add_u64_Some)
  ultimately have inv: "state_inv X ?st" using base live by (simp add: state_inv_def)
  show ?case
    by (rule triple_bind [OF triple_upd_state [where Q = "\<lambda>st. state_inv X st"]])
      (use inv in \<open>auto simp: state_inv_def on_def intro!: triple_gets_state triple_failIf\<close>)
qed (auto simp: on_def)

lemma custody_state_inv: "state_inv X st0 \<Longrightarrow> custody X st0 A st \<Longrightarrow> state_inv X st"
  by (auto simp: state_inv_def custody_def)

lemma state_inv_cong:
  assumes "state_inv X st" "base_inv X st'" "entries st' = entries st" "gaps st' = gaps st"
    "next_spool_sequence st' = next_spool_sequence st"
  shows "state_inv X st'"
  using assms by (simp add: state_inv_def live_seqs_def)

lemma bump_corrupt_state [quiet]: "keeps (on (state_inv X)) bump_corrupt"
  unfolding bump_corrupt_def
  by (rule triple_upd_state, rule state_inv_cong) (auto intro: base_inv_corrupt simp: state_inv_def)

lemma state_inv_index_receipt:
  assumes "state_inv X st" "rc_sequence r \<noteq> u64_max" "rc_sequence r \<le> u64_max"
    "p = (Receipts, receipt_file_name (rc_sequence r) (rc_batch_id r))"
  shows "state_inv X (index_receipt r p st)"
proof (rule state_inv_cong [OF assms(1)])
  have inv: "base_inv X st" using assms(1) by (simp add: state_inv_def)
  have "base_inv X (st\<lparr>next_receipt_sequence := max (next_receipt_sequence st) (sat_add_u64 (rc_sequence r) 1)\<rparr>)"
    by (rule base_inv_cong [OF _ _ _ _ _ _ _ _ inv]) (use inv in \<open>auto simp: base_inv_def maps_ok_def\<close>)
  from base_inv_insert_receipt [OF this, of r] show "base_inv X (index_receipt r p st)"
    using assms(2-4) by (simp add: index_receipt_def sat_add_u64_def)
qed (simp_all add: index_receipt_def)

lemma dec_receipt_sequence: "dec_receipt v = Some r \<Longrightarrow> rc_sequence r \<le> u64_max"
  by (auto simp: dec_receipt_def field_def split: Option.bind_splits option.splits dest: dec_u64_le)

lemma recover_receipt_file_state: "keeps (on (state_inv X)) (recover_receipt_file X name)"
proof -
  have skip: "keeps (on (state_inv X)) (bindR (quarantine_file_bounded X (Receipts, name)) (\<lambda>_. bump_corrupt))"
    by (intro keeps_bind quiet)
  have idx: "keeps (on (state_inv X)) (bindR (gets state_of) (\<lambda>st.
      if \<not> valid_receipt r name st
      then bindR (quarantine_file_bounded X (Receipts, name)) (\<lambda>_. bump_corrupt)
      else upd_state (index_receipt r (Receipts, name))))"
    if "json_from_slice (lib X) dec_receipt b = Some r" for b r
  proof (rule triple_gets_state, rule triple_if, goal_cases)
    case (1 st)
    then show ?case by (intro triple_from [OF skip])
  next
    case (2 st)
    from that have "rc_sequence r \<le> u64_max"
      by (auto simp: json_from_slice_def split: if_splits Option.bind_splits intro: dec_receipt_sequence)
    with 2 show ?case
      by (intro triple_upd_state) (auto intro!: state_inv_index_receipt simp: valid_receipt_def)
  qed
  have dec: "keeps (on (state_inv X)) (case decrypt (lib X) (spool_key X) encrypted of
       Inl KeyMismatch \<Rightarrow> fail SpoolKeyMismatch
     | Inl InvalidCiphertext \<Rightarrow> bindR (quarantine_file_bounded X (Receipts, name)) (\<lambda>_. bump_corrupt)
     | Inr plaintext \<Rightarrow>
         (case json_from_slice (lib X) dec_receipt plaintext of
            None \<Rightarrow> bindR (quarantine_file_bounded X (Receipts, name)) (\<lambda>_. bump_corrupt)
          | Some r \<Rightarrow>
              bindR (gets state_of) (\<lambda>st.
              if \<not> valid_receipt r name st
              then bindR (quarantine_file_bounded X (Receipts, name)) (\<lambda>_. bump_corrupt)
              else upd_state (index_receipt r (Receipts, name)))))" for encrypted
    by (auto split: sum.split crypto_error.split option.split intro!: skip idx)
  show ?thesis
    unfolding recover_receipt_file_def Let_def
    by (intro keeps_bind keeps_pure quiet skip dec)
qed

lemma state_custody_UNIV:
  assumes "\<And>st0. keeps (on (custody X st0 UNIV)) m"
  shows "keeps (on (state_inv X)) m"
proof (rule triple_on, goal_cases)
  case (1 st)
  have "base_inv X st" using 1 by (simp add: state_inv_def)
  then have c: "custody X st UNIV st" by (rule custody_refl) simp
  show ?case
    by (rule triple_conseq [OF triple_from [OF assms c]]) (auto elim!: on_mono intro: custody_state_inv [OF 1])
qed

lemma recover_receipts_state: "keeps (on (state_inv X)) (recover_receipts X)"
proof -
  have rm: "keeps (on (state_inv X)) (for_fold rs fl (\<lambda>fl r. complete_removals X r fl))" for rs fl
    by (rule state_custody_UNIV) (intro triple_for_fold complete_removals_custody subset_UNIV)
  show ?thesis
    unfolding recover_receipts_def
    by (intro keeps_bind quiet recover_receipt_file_state rm keeps_pure)
      (auto split: prod.split intro!: keeps_bind quiet)
qed

lemma recover_finish_state: "ctx_ok X \<Longrightarrow> keeps (on (state_inv X)) (recover_finish X now)"
proof -
  assume X: "ctx_ok X"
  have filt: "state_inv X (st\<lparr>counted_pending_expirations :=
      filter P (counted_pending_expirations st)\<rparr>)" if "state_inv X st" for st P
    by (rule state_inv_cong [OF that], rule base_inv_cong [of _ st])
      (use that in \<open>auto simp: state_inv_def base_inv_def maps_ok_def bt_ok_def sorted_wrt_map intro: sorted_wrt_filter\<close>)
  show ?thesis
    unfolding recover_finish_def
    by (intro keeps_bind keeps_pure quiet triple_upd_state filt state_custody_UNIV
        safe_keeps [OF safe_expire_due [OF X]] prune_custody)
qed

section \<open>Opening\<close>

lemma recover_state:
  assumes X: "ctx_ok X"
  shows "triple (on (empty_inv X)) (recover X now) (\<lambda>_. on (state_inv X)) (\<lambda>_. on (base_inv X))"
proof -
  have w1: "on (base_inv X) s" if "on (empty_inv X) s" for s using that by (simp add: on_def empty_inv_def)
  have w2: "on (base_inv X) s" if "on (state_inv X) s" for s using that by (simp add: on_def state_inv_def)
  have e: "triple (on (empty_inv X)) m (\<lambda>_. on (empty_inv X)) (\<lambda>_. on (base_inv X))"
    if "keeps (on (empty_inv X)) m" for m :: "unit spool_proc"
    by (rule triple_conseq [OF that]) (auto intro: w1)
  have s: "triple (on (state_inv X)) m (\<lambda>_. on (state_inv X)) (\<lambda>_. on (base_inv X))"
    if "keeps (on (state_inv X)) m" for m :: "unit spool_proc"
    by (rule triple_conseq [OF that]) (auto intro: w2)
  show ?thesis
    unfolding recover_def
    by (rule triple_bind [OF e [OF recover_prepare_empty]], rule triple_bind [OF e [OF recover_gaps_empty [OF X]]],
        rule triple_bind [OF recover_pending_base [OF X]], rule triple_bind [OF recover_counters_state],
        rule triple_bind [OF s [OF recover_receipts_state]], rule s [OF recover_finish_state [OF X]])
qed

text \<open>What recovery establishes from the empty state, opening establishes.\<close>

lemma spool_open_from:
  assumes start: "\<And>b. P (default_state\<lparr>v1_ack_history_pruned := b\<rparr>)"
    and recover: "triple (on P) (recover X now) (\<lambda>_. on Q) (\<lambda>_. on R)"
  shows "triple disk_ok (spool_open X lock_held now) (\<lambda>_. on Q) (\<lambda>_. disk_ok)"
proof -
  have pre: "on (\<lambda>_. True) s = disk_ok s" for s by (simp add: on_def)
  have t: "disk_ok s" if "on P s" for P s using that by (simp add: on_def)
  have err: "triple (on P) m Q (\<lambda>_. disk_ok)" if "triple (on P) m Q (\<lambda>_. on R)"
    for P R Q and m :: "'a spool_proc"
    by (rule triple_conseq [OF that]) (auto intro: t)
  have k: "triple (on P) m (\<lambda>_. on P) (\<lambda>_. disk_ok)" if "keeps (on P) m" for P and m :: "'a spool_proc"
    using err [OF that] .
  have lock: "keeps (on P) (acquire_spool_lock X lock_held)" for P
    unfolding acquire_spool_lock_def by (intro keeps_bind keeps_pure quiet)
  have dirs: "keeps (on P) (create_directories X)" for P
    unfolding create_directories_def by (intro keeps_bind keeps_pure quiet)
  have marker: "keeps (on P) (read_spool_format_marker X)" for P
    unfolding read_spool_format_marker_def by (intro keeps_bind keeps_match keeps_pure quiet)
  have previous: "keeps (on P) (reject_ambiguous_previous_receipts X)" for P
    unfolding reject_ambiguous_previous_receipts_def by (intro keeps_bind keeps_pure quiet)
  have current: "keeps (on P) (write_current_spool_format_marker X f)" for P f
    unfolding write_current_spool_format_marker_def by (intro keeps_bind keeps_pure quiet)
  have reset: "triple (on (\<lambda>_. True)) (modify (\<lambda>s. s\<lparr>state_of := default_state\<lparr>v1_ack_history_pruned := b\<rparr>,
      storage_write_failed := False\<rparr>)) (\<lambda>_. on P) (\<lambda>_. disk_ok)" for b
    by (rule triple_modify) (use start in \<open>simp add: on_def disk_ok_def\<close>)
  show ?thesis
    unfolding spool_open_def
    by (rule triple_weak [where P' = "on (\<lambda>_. True)"], rule triple_bind [OF k], rule keeps_pure, rule triple_bind [OF k [OF lock]],
        rule triple_bind [OF k [OF dirs]], rule triple_bind [OF k [OF marker]],
        rule triple_bind [OF k], intro quiet keeps_pure previous, rule triple_bind [OF reset],
        rule triple_bind [OF k], intro quiet keeps_bind keeps_pure,
        rule triple_bind [OF err [OF recover]], rule k, intro quiet keeps_pure current)
      (simp add: pre)
qed

lemma spool_open_state:
  assumes X: "ctx_ok X"
  shows "triple disk_ok (spool_open X lock_held now) (\<lambda>_. on (state_inv X)) (\<lambda>_. disk_ok)"
proof (rule spool_open_from [OF _ recover_state [OF X]])
  show "empty_inv X (default_state\<lparr>v1_ack_history_pruned := b\<rparr>)" for b
    using base_inv_default [of X b] by (simp add: empty_inv_def default_state_def)
qed

end
