(* ===== verification/Services.thy ===== *)
theory Services
  imports Spool_Batch Credentials
begin

text \<open>
  health.rs, metrics.rs, admission.rs and delivery.rs: the two HTTP services as functions
  from a request to a response and a new state. A handler runs without suspension, so one
  request is one step; the number of admissions running at that moment is an argument.
  The routes and body limits are in \<open>Edge_Http\<close>; JSON framing is the web framework's.
\<close>

section \<open>HTTP\<close>

datatype body = NoBody | JsonBody json | TextBody string

record response =
  status :: nat
  resp_body :: body

text \<open>The value of the first \<open>Authorization\<close> header, if any.\<close>

type_synonym auth_header = "bytes option"

definition header_text :: "bytes \<Rightarrow> string option" where
  "header_text b = (if list_all (\<lambda>c. 32 \<le> byte_val c \<and> byte_val c < 127 \<or> byte_val c = 9) b then Some b else None)"

definition bearer_from_headers :: "auth_header \<Rightarrow> string option" where
  "bearer_from_headers h = do {
     value \<leftarrow> h;
     txt \<leftarrow> header_text value;
     token \<leftarrow> strip_prefix ''Bearer '' txt;
     if token = [] then None else Some token }"

definition error_response :: "nat \<Rightarrow> string \<Rightarrow> response" where
  "error_response code error = \<lparr>status = code, resp_body = JsonBody (JObj [(''error'', JStr error)])\<rparr>"

section \<open>Health and metrics\<close>

definition health_json :: "spool_snapshot \<Rightarrow> json" where
  "health_json n = JObj
     [(''status'', JStr (if ss_degraded n then ''degraded'' else ''ok'')),
      (''queue'', JObj [(''records'', enc_u64 (ss_pending_records n)), (''bytes'', enc_u64 (ss_pending_bytes n)),
         (''oldest_age_seconds'', enc_u64 (ss_oldest_age_seconds n))]),
      (''corrupt_records'', enc_u64 (ss_corrupt_records n)),
      (''expired_records'', enc_u64 (ss_expired_records n)),
      (''pending_gap_notices'', enc_u64 (ss_pending_gap_notices n)),
      (''capacity_exhausted'', JBool (ss_capacity_exhausted n))]"

record metrics =
  m_admitted :: nat
  m_duplicates :: nat
  m_rejected_auth :: nat
  m_rejected_invalid :: nat
  m_rejected_capacity :: nat
  m_rejected_storage :: nat
  m_rejected_internal :: nat

text \<open>\<open>fetch_add(1)\<close> on a 64-bit counter wraps around.\<close>

definition bump :: "nat \<Rightarrow> nat" where
  "bump n = (n + 1) mod (u64_max + 1)"

definition count_admitted :: "metrics \<Rightarrow> metrics" where
  "count_admitted m = m\<lparr>m_admitted := bump (m_admitted m)\<rparr>"

definition count_duplicate :: "metrics \<Rightarrow> metrics" where
  "count_duplicate m = m\<lparr>m_duplicates := bump (m_duplicates m)\<rparr>"

definition count_rejected_auth :: "metrics \<Rightarrow> metrics" where
  "count_rejected_auth m = m\<lparr>m_rejected_auth := bump (m_rejected_auth m)\<rparr>"

definition count_rejected_invalid :: "metrics \<Rightarrow> metrics" where
  "count_rejected_invalid m = m\<lparr>m_rejected_invalid := bump (m_rejected_invalid m)\<rparr>"

definition count_rejected_capacity :: "metrics \<Rightarrow> metrics" where
  "count_rejected_capacity m = m\<lparr>m_rejected_capacity := bump (m_rejected_capacity m)\<rparr>"

definition count_rejected_storage :: "metrics \<Rightarrow> metrics" where
  "count_rejected_storage m = m\<lparr>m_rejected_storage := bump (m_rejected_storage m)\<rparr>"

definition count_rejected_internal :: "metrics \<Rightarrow> metrics" where
  "count_rejected_internal m = m\<lparr>m_rejected_internal := bump (m_rejected_internal m)\<rparr>"

lemmas count_defs = count_admitted_def count_duplicate_def count_rejected_auth_def
  count_rejected_invalid_def count_rejected_capacity_def count_rejected_storage_def count_rejected_internal_def

definition typed_metric :: "string \<Rightarrow> string \<Rightarrow> nat \<Rightarrow> string" where
  "typed_metric name metric_type value =
     ''# TYPE '' @ name @ '' '' @ metric_type @ [CHR 0x0A] @ name @ '' '' @ dec_digits value @ [CHR 0x0A]"

definition render_metrics :: "metrics \<Rightarrow> spool_snapshot \<Rightarrow> string" where
  "render_metrics m n =
     typed_metric ''teslatlas_edge_build_info'' ''gauge'' 1
     @ typed_metric ''teslatlas_edge_spool_records'' ''gauge'' (ss_pending_records n)
     @ typed_metric ''teslatlas_edge_spool_bytes'' ''gauge'' (ss_pending_bytes n)
     @ typed_metric ''teslatlas_edge_spool_oldest_age_seconds'' ''gauge'' (ss_oldest_age_seconds n)
     @ typed_metric ''teslatlas_edge_spool_corrupt_records'' ''gauge'' (ss_corrupt_records n)
     @ typed_metric ''teslatlas_edge_spool_expired_records_total'' ''counter'' (ss_expired_records n)
     @ typed_metric ''teslatlas_edge_spool_gap_notices'' ''gauge'' (ss_pending_gap_notices n)
     @ typed_metric ''teslatlas_edge_spool_gap_bytes'' ''gauge'' (ss_pending_gap_bytes n)
     @ typed_metric ''teslatlas_edge_receiver_admitted_total'' ''counter'' (m_admitted m)
     @ typed_metric ''teslatlas_edge_receiver_duplicates_total'' ''counter'' (m_duplicates m)
     @ typed_metric ''teslatlas_edge_receiver_rejected_auth_total'' ''counter'' (m_rejected_auth m)
     @ typed_metric ''teslatlas_edge_receiver_rejected_invalid_total'' ''counter'' (m_rejected_invalid m)
     @ typed_metric ''teslatlas_edge_receiver_rejected_capacity_total'' ''counter'' (m_rejected_capacity m)
     @ typed_metric ''teslatlas_edge_receiver_rejected_storage_total'' ''counter'' (m_rejected_storage m)
     @ typed_metric ''teslatlas_edge_receiver_rejected_internal_total'' ''counter'' (m_rejected_internal m)"

section \<open>Receiver bearer and admission\<close>

definition MAX_CONCURRENT_ADMISSIONS :: nat where
  "MAX_CONCURRENT_ADMISSIONS = 32"

text \<open>\<open>ReceiverBearer::new\<close>: \<open>None\<close> is the error.\<close>

definition receiver_bearer :: "string \<Rightarrow> string option" where
  "receiver_bearer value =
     (if 16 \<le> length value \<and> length value \<le> 4096 \<and> list_all is_visible_ascii value then Some value else None)"

definition bearer_matches :: "string \<Rightarrow> string \<Rightarrow> bool" where
  "bearer_matches bearer candidate \<longleftrightarrow> length candidate = length bearer \<and> candidate = bearer"

type_synonym admission_state = "spool \<times> metrics"

definition reply :: "response \<Rightarrow> (metrics \<Rightarrow> metrics) \<Rightarrow> admission_state \<Rightarrow> response \<times> admission_state" where
  "reply r count = (\<lambda>(s, m). (r, (s, count m)))"

text \<open>The response to the outcome of \<open>Spool::enqueue\<close>.\<close>

definition enqueue_response :: "spool_error + enqueue_outcome \<Rightarrow> response \<times> (metrics \<Rightarrow> metrics)" where
  "enqueue_response outcome =
     (case outcome of
        Inr (Stored _) \<Rightarrow> (\<lparr>status = 204, resp_body = NoBody\<rparr>, count_admitted)
      | Inr (AlreadyPresent _) \<Rightarrow> (\<lparr>status = 204, resp_body = NoBody\<rparr>, count_duplicate)
      | Inl CapacityExceeded \<Rightarrow> (error_response 507 ''spool_capacity_exceeded'', count_rejected_capacity)
      | Inl StorageFull \<Rightarrow> (error_response 507 ''storage_full'', count_rejected_storage)
      | Inl BatchItemTooLarge \<Rightarrow> (error_response 413 ''record_exceeds_delivery_limit'', count_rejected_invalid)
      | Inl _ \<Rightarrow> (error_response 503 ''spool_unavailable'', count_rejected_internal))"

definition admit_receiver_envelope ::
  "ctx \<Rightarrow> string \<Rightarrow> nat \<Rightarrow> int \<Rightarrow> auth_header \<Rightarrow> bytes \<Rightarrow> admission_state \<Rightarrow> response \<times> admission_state" where
  "admit_receiver_envelope X bearer in_flight now_ms headers request_body =
     (case bearer_from_headers headers of
        None \<Rightarrow> reply (error_response 401 ''receiver_authentication_failed'') count_rejected_auth
      | Some candidate \<Rightarrow>
          if \<not> bearer_matches bearer candidate
          then reply (error_response 401 ''receiver_authentication_failed'') count_rejected_auth
          else if in_flight \<ge> MAX_CONCURRENT_ADMISSIONS
          then reply (error_response 503 ''receiver_busy'') count_rejected_internal
          else (case parse_at (lib X) request_body now_ms of
             Inl InputTooLarge \<Rightarrow> reply (error_response 413 ''receiver_body_too_large'') count_rejected_invalid
           | Inl _ \<Rightarrow> reply (error_response 400 ''invalid_receiver_envelope'') count_rejected_invalid
           | Inr envelope \<Rightarrow> (\<lambda>(s, m).
               (case enqueue X envelope now_ms s of (outcome, s') \<Rightarrow>
                 (case enqueue_response outcome of (r, count) \<Rightarrow> (r, (s', count m)))))))"

definition liveness :: "ctx \<Rightarrow> int \<Rightarrow> admission_state \<Rightarrow> response" where
  "liveness X now_ms st = \<lparr>status = 200, resp_body = JsonBody (health_json (snapshot X now_ms (fst st)))\<rparr>"

definition readiness :: "ctx \<Rightarrow> int \<Rightarrow> admission_state \<Rightarrow> response" where
  "readiness X now_ms st =
     (let n = snapshot X now_ms (fst st)
      in \<lparr>status = (if ss_degraded n then 503 else 200), resp_body = JsonBody (health_json n)\<rparr>)"

definition metrics_page :: "ctx \<Rightarrow> int \<Rightarrow> admission_state \<Rightarrow> response" where
  "metrics_page X now_ms st =
     \<lparr>status = 200, resp_body = TextBody (render_metrics (snd st) (snapshot X now_ms (fst st)))\<rparr>"

section \<open>Delivery\<close>

type_synonym delivery_state = "spool \<times> unit world"

datatype authorization_failure = Rejected | Unavailable

definition authorize ::
  "credential_store \<Rightarrow> int \<Rightarrow> auth_header \<Rightarrow> unit world \<Rightarrow> (authorization_failure + unit) \<times> unit world" where
  "authorize K now_ms headers w =
     (case bearer_from_headers headers of
        None \<Rightarrow> (Inl Rejected, w)
      | Some token \<Rightarrow>
          (case verify K token now_ms w of
             (Inr True, w') \<Rightarrow> (Inr (), w')
           | (Inr False, w') \<Rightarrow> (Inl Rejected, w')
           | (Inl _, w') \<Rightarrow> (Inl Unavailable, w')))"

fun authorization_error :: "authorization_failure \<Rightarrow> response" where
  "authorization_error Rejected = error_response 401 ''hub_authentication_failed''"
| "authorization_error Unavailable = error_response 503 ''credential_store_unavailable''"

text \<open>Every handler authorizes first and then works on the spool.\<close>

definition authorized ::
  "credential_store \<Rightarrow> int \<Rightarrow> auth_header \<Rightarrow> (spool \<Rightarrow> response \<times> spool) \<Rightarrow> delivery_state \<Rightarrow> response \<times> delivery_state" where
  "authorized K now_ms headers handler = (\<lambda>(s, w).
     case authorize K now_ms headers w of
       (Inl failure, w') \<Rightarrow> (authorization_error failure, (s, w'))
     | (Inr _, w') \<Rightarrow> (case handler s of (r, s') \<Rightarrow> (r, (s', w'))))"

definition enc_batch_v1 :: "hub_batch_v1 \<Rightarrow> json" where
  "enc_batch_v1 b = JObj [(''version'', enc_u64 (bv1_version b)), (''batch_id'', JStr (bv1_batch_id b)),
     (''records'', JArr (map enc_batch_record_v1 (bv1_records b)))]"

definition enc_batch_v2 :: "hub_batch_v2 \<Rightarrow> json" where
  "enc_batch_v2 b = JObj [(''version'', enc_u64 (bv2_version b)), (''batch_id'', JStr (bv2_batch_id b)),
     (''records'', JArr (map enc_batch_record_v2 (bv2_records b))),
     (''gaps'', JArr (map enc_gap_notice (bv2_gaps b)))]"

definition enc_ack_result_v1 :: "hub_ack_result_v1 \<Rightarrow> json" where
  "enc_ack_result_v1 r = JObj [(''version'', enc_u64 (ar1_version r)),
     (''acknowledged_record_ids'', enc_record_ids (ar1_acknowledged_record_ids r)),
     (''unknown_record_ids'', enc_record_ids (ar1_unknown_record_ids r))]"

definition enc_ack_result_v2 :: "hub_ack_result_v2 \<Rightarrow> json" where
  "enc_ack_result_v2 r = JObj [(''version'', enc_u64 (ar2_version r)),
     (''acknowledged_record_ids'', enc_record_ids (ar2_acknowledged_record_ids r)),
     (''acknowledged_gap_notice_ids'', enc_record_ids (ar2_acknowledged_gap_notice_ids r)),
     (''unknown_record_ids'', enc_record_ids (ar2_unknown_record_ids r)),
     (''unknown_gap_notice_ids'', enc_record_ids (ar2_unknown_gap_notice_ids r))]"

definition json_ok :: "json \<Rightarrow> response" where
  "json_ok v = \<lparr>status = 200, resp_body = JsonBody v\<rparr>"

definition hub_next_batch ::
  "ctx \<Rightarrow> credential_store \<Rightarrow> int \<Rightarrow> auth_header \<Rightarrow> delivery_state \<Rightarrow> response \<times> delivery_state" where
  "hub_next_batch X K now_ms headers = authorized K now_ms headers (\<lambda>s.
     case next_batch X now_ms s of
       (Inr batch, s') \<Rightarrow> (json_ok (enc_batch_v1 batch), s')
     | (Inl ProtocolUpgradeRequired, s') \<Rightarrow> (error_response 409 ''protocol_upgrade_required'', s')
     | (Inl _, s') \<Rightarrow> (error_response 503 ''spool_unavailable'', s'))"

definition hub_next_batch_v2 ::
  "ctx \<Rightarrow> credential_store \<Rightarrow> int \<Rightarrow> auth_header \<Rightarrow> delivery_state \<Rightarrow> response \<times> delivery_state" where
  "hub_next_batch_v2 X K now_ms headers = authorized K now_ms headers (\<lambda>s.
     case next_batch_v2 X now_ms s of
       (Inr batch, s') \<Rightarrow> (json_ok (enc_batch_v2 batch), s')
     | (Inl _, s') \<Rightarrow> (error_response 503 ''spool_unavailable'', s'))"

fun acknowledgement_error :: "spool_error \<Rightarrow> response" where
  "acknowledgement_error InvalidAcknowledgement = error_response 400 ''invalid_acknowledgement''"
| "acknowledgement_error V1AcknowledgementHistoryPruned = error_response 409 ''protocol_upgrade_required''"
| "acknowledgement_error _ = error_response 503 ''spool_unavailable''"

definition hub_acknowledge ::
  "ctx \<Rightarrow> credential_store \<Rightarrow> int \<Rightarrow> auth_header \<Rightarrow> bytes \<Rightarrow> delivery_state \<Rightarrow> response \<times> delivery_state" where
  "hub_acknowledge X K now_ms headers request_body = authorized K now_ms headers (\<lambda>s.
     case parse_ack_v1 (lib X) request_body of
       Inl _ \<Rightarrow> (error_response 400 ''invalid_acknowledgement'', s)
     | Inr a \<Rightarrow>
         (case acknowledge X a s of
            (Inr result, s') \<Rightarrow> (json_ok (enc_ack_result_v1 result), s')
          | (Inl error, s') \<Rightarrow> (acknowledgement_error error, s')))"

definition hub_acknowledge_v2 ::
  "ctx \<Rightarrow> credential_store \<Rightarrow> int \<Rightarrow> auth_header \<Rightarrow> bytes \<Rightarrow> delivery_state \<Rightarrow> response \<times> delivery_state" where
  "hub_acknowledge_v2 X K now_ms headers request_body = authorized K now_ms headers (\<lambda>s.
     case parse_ack_v2 (lib X) request_body of
       Inl _ \<Rightarrow> (error_response 400 ''invalid_acknowledgement'', s)
     | Inr a \<Rightarrow>
         (case acknowledge_v2 X a s of
            (Inr result, s') \<Rightarrow> (json_ok (enc_ack_result_v2 result), s')
          | (Inl InvalidAcknowledgement, s') \<Rightarrow> (error_response 400 ''invalid_acknowledgement'', s')
          | (Inl _, s') \<Rightarrow> (error_response 503 ''spool_unavailable'', s')))"

section \<open>Facts\<close>

lemma verify_look:
  assumes "verify K token now w = (r, w')"
  shows "look w' = look w"
  using assms load_cases(1) [of K w]
  by (auto simp: verify_def proc_defs split: option.splits sum.splits prod.splits)

lemma authorized_rejects:
  assumes "fst (authorize K now h w) = Inl failure"
  shows "authorized K now h handler (s, w) = (authorization_error failure, (s, snd (authorize K now h w)))"
  using assms by (cases "authorize K now h w") (simp add: authorized_def)

lemma authorize_ok:
  assumes "fst (authorize K now h w) = Inr ()"
  shows "\<exists>token. bearer_from_headers h = Some token \<and> fst (verify K token now w) = Inr True"
  using assms by (auto simp: authorize_def split: option.splits prod.splits sum.splits bool.splits)

end
