(* ===== verification/Edge_Runtime.thy ===== *)
theory Edge_Runtime
  imports Edge_Config Spool_Reopen Services
begin

text \<open>
  runtime.rs and main.rs: the checks before serving, the order in which the parts are
  opened, how the results of the listener tasks become the result of the process, and the
  credential commands. Whether the TLS files are accepted is a parameter here
  (\<open>Edge_Tls\<close> defines it); the listener tasks appear as the values they return. The
  whole of \<open>run_until_shutdown\<close> and the commands are in \<open>Edge_Main\<close>.
\<close>

section \<open>Errors\<close>

datatype tls_error =
    InvalidServerCertificate
  | InvalidServerPrivateKey
  | InvalidClientAuthority
  | InvalidConfiguration

datatype runtime_error =
    RtConfig config_error
  | RtSpool spool_error
  | RtCredential credential_error
  | RtTls tls_error
  | InvalidSecret
  | RtIo
  | RtBind
  | Listener
  | ListenerStopped
  | Task

definition MAX_SECRET_BYTES :: nat where
  "MAX_SECRET_BYTES = 1048576"

section \<open>Secrets\<close>

definition read_bounded :: "fs_view \<Rightarrow> string \<Rightarrow> runtime_error + bytes" where
  "read_bounded V p =
     (case file_bytes V (components p) of
        None \<Rightarrow> Inl RtIo
      | Some b \<Rightarrow> if b = [] \<or> length b > MAX_SECRET_BYTES then Inl InvalidSecret else Inr b)"

definition read_key :: "fs_view \<Rightarrow> edge_config \<Rightarrow> runtime_error + bytes" where
  "read_key V c =
     (case read_bounded V (spool_key_path c) of
        Inl e \<Rightarrow> Inl e
      | Inr b \<Rightarrow> if length b = 32 then Inr b else Inl InvalidSecret)"

definition read_bearer :: "fs_view \<Rightarrow> edge_config \<Rightarrow> runtime_error + string" where
  "read_bearer V c =
     (case read_bounded V (receiver_bearer_path c) of
        Inl e \<Rightarrow> Inl e
      | Inr b \<Rightarrow>
          if \<not> utf8_valid b then Inl InvalidSecret
          else (case receiver_bearer b of None \<Rightarrow> Inl InvalidSecret | Some t \<Rightarrow> Inr t))"

type_synonym mtls = "bytes \<Rightarrow> bytes \<Rightarrow> bytes \<Rightarrow> tls_error + unit"

definition read_tls :: "mtls \<Rightarrow> fs_view \<Rightarrow> edge_config \<Rightarrow> runtime_error + unit" where
  "read_tls mtls_server_config V c =
     (case read_bounded V (hub_server_certificate_path c) of
        Inl e \<Rightarrow> Inl e
      | Inr certificate \<Rightarrow>
          (case read_bounded V (hub_server_private_key_path c) of
             Inl e \<Rightarrow> Inl e
           | Inr key \<Rightarrow>
               (case read_bounded V (hub_client_ca_path c) of
                  Inl e \<Rightarrow> Inl e
                | Inr ca \<Rightarrow>
                    (case mtls_server_config certificate key ca of
                       Inl e \<Rightarrow> Inl (RtTls e) | Inr u \<Rightarrow> Inr u))))"

section \<open>Doctor and start\<close>

definition doctor ::
  "mtls \<Rightarrow> fs_view \<Rightarrow> credential_store \<Rightarrow> edge_config \<Rightarrow> unit world \<Rightarrow> (runtime_error + unit) \<times> unit world" where
  "doctor mtls_server_config V K c w =
     (case validate_runtime_files V c of
        Inl e \<Rightarrow> (Inl (RtConfig e), w)
      | Inr _ \<Rightarrow>
          (case read_key V c of
             Inl e \<Rightarrow> (Inl e, w)
           | Inr _ \<Rightarrow>
               (case read_bearer V c of
                  Inl e \<Rightarrow> (Inl e, w)
                | Inr _ \<Rightarrow>
                    (case store_open K w of
                       (Inl e, w') \<Rightarrow> (Inl (RtCredential e), w')
                     | (Inr _, w') \<Rightarrow> (read_tls mtls_server_config V c, w')))))"

text \<open>
  \<open>run_until_shutdown\<close> up to the listeners: files, key and bearer, then the spool, then
  the credential store, then TLS. The result is the context and bearer the services run
  with.
\<close>

definition start ::
  "mtls \<Rightarrow> fs_view \<Rightarrow> crates \<Rightarrow> env \<Rightarrow> credential_store \<Rightarrow> edge_config \<Rightarrow> bool \<Rightarrow> int \<Rightarrow>
     spool \<times> unit world \<Rightarrow> (runtime_error + ctx \<times> string) \<times> spool \<times> unit world" where
  "start mtls_server_config V C E K c lock_held now_ms = (\<lambda>(s, w).
     case validate_runtime_files V c of
       Inl e \<Rightarrow> (Inl (RtConfig e), s, w)
     | Inr _ \<Rightarrow>
         (case read_key V c of
            Inl e \<Rightarrow> (Inl e, s, w)
          | Inr key \<Rightarrow>
              (case read_bearer V c of
                 Inl e \<Rightarrow> (Inl e, s, w)
               | Inr bearer \<Rightarrow>
                   (case spool_config_of c of
                      Inl e \<Rightarrow> (Inl (RtConfig e), s, w)
                    | Inr sc \<Rightarrow>
                        let X = \<lparr>lib = C, ev = E, config = sc, spool_key = key\<rparr> in
                        (case spool_open X lock_held now_ms s of
                           (Inl e, s') \<Rightarrow> (Inl (RtSpool e), s', w)
                         | (Inr _, s') \<Rightarrow>
                             (case store_open K w of
                                (Inl e, w') \<Rightarrow> (Inl (RtCredential e), s', w')
                              | (Inr _, w') \<Rightarrow>
                                  (case read_tls mtls_server_config V c of
                                     Inl e \<Rightarrow> (Inl e, s', w')
                                   | Inr _ \<Rightarrow> (Inr (X, bearer), s', w'))))))))"

section \<open>Listener tasks\<close>

datatype join = Finished "runtime_error + unit" | Cancelled | Panicked

fun flatten_join :: "join \<Rightarrow> runtime_error + unit" where
  "flatten_join (Finished r) = r"
| "flatten_join Cancelled = Inr ()"
| "flatten_join Panicked = Inl Task"

fun drain :: "join list \<Rightarrow> runtime_error + unit" where
  "drain [] = Inr ()"
| "drain (j # js) = (case flatten_join j of Inl e \<Rightarrow> Inl e | Inr _ \<Rightarrow> drain js)"

text \<open>
  After the shutdown signal or the first task that ended (\<open>early_exit\<close>), the other tasks
  are drained or run into the deadline (\<open>None\<close>); the spool is synced in every case.
\<close>

definition finish ::
  "ctx \<Rightarrow> join option \<Rightarrow> join list option \<Rightarrow> spool \<Rightarrow> (runtime_error + unit) \<times> spool" where
  "finish X early_exit remaining s =
     (case spool_sync X s of
        (Inl e, s') \<Rightarrow> (Inl (RtSpool e), s')
      | (Inr _, s') \<Rightarrow>
          ((case early_exit of
              Some joined \<Rightarrow> (case flatten_join joined of Inl e \<Rightarrow> Inl e | Inr _ \<Rightarrow> Inl ListenerStopped)
            | None \<Rightarrow> (case remaining of None \<Rightarrow> Inr () | Some js \<Rightarrow> drain js)), s'))"

section \<open>Credential commands of main.rs\<close>

datatype credential_command =
    EnrolCommand string nat
  | RotateCommand string nat nat
  | RevokeCommand string

datatype command_error = DurationTooLarge | CommandCredential credential_error

datatype command_output = Issued string string | Revoked

definition seconds_to_ms :: "nat \<Rightarrow> command_error + int" where
  "seconds_to_ms seconds =
     (case Option.bind (checked_mul_u64 seconds 1000) i64_try_from_u64 of
        None \<Rightarrow> Inl DurationTooLarge | Some v \<Rightarrow> Inr v)"

definition print_issued :: "issued_credential \<Rightarrow> command_output" where
  "print_issued i = Issued (ic_credential_id i) (ic_token i)"

definition manage_credential ::
  "credential_store \<Rightarrow> int \<Rightarrow> credential_command \<Rightarrow> (unit world, command_error, command_output) proc" where
  "manage_credential K now_ms command =
     bindR (map_err CommandCredential (store_open K)) (\<lambda>_.
     case command of
       EnrolCommand label ttl_seconds \<Rightarrow>
         bindR (lift_result (seconds_to_ms ttl_seconds)) (\<lambda>ttl.
         bindR (map_err CommandCredential (enrol K label now_ms ttl)) (\<lambda>issued.
         ok (print_issued issued)))
     | RotateCommand credential_id overlap_seconds ttl_seconds \<Rightarrow>
         bindR (lift_result (seconds_to_ms overlap_seconds)) (\<lambda>overlap.
         bindR (lift_result (seconds_to_ms ttl_seconds)) (\<lambda>ttl.
         bindR (map_err CommandCredential (rotate K credential_id now_ms overlap ttl)) (\<lambda>issued.
         ok (print_issued issued))))
     | RevokeCommand credential_id \<Rightarrow>
         bindR (map_err CommandCredential (revoke K credential_id now_ms)) (\<lambda>_.
         ok Revoked))"

end
