(* ===== verification/Edge_Witnesses.thy ===== *)
theory Edge_Witnesses
  imports Edge_Instance Edge_Runtime
begin

text \<open>
  Concrete runs: the theorems applied on the instance of \<open>Edge_Instance\<close>, with their
  hypotheses discharged there.
\<close>

section \<open>Running procedures where no call fails\<close>

lemma calm_call [simp]: "os_call calm_env s = (Inr (), s\<lparr>tick := Suc (tick s)\<rparr>)"
  by (simp add: os_call_def calm_env_def)

lemma run_bind: "bindR m f s = (case m s of (r, t) \<Rightarrow> case r of Inl e \<Rightarrow> (Inl e, t) | Inr x \<Rightarrow> f x t)"
  by (simp add: bindR_def split: sum.splits prod.splits)

lemma run_match: "matchR m f h s = (case m s of (r, t) \<Rightarrow> case r of Inl e \<Rightarrow> h e t | Inr x \<Rightarrow> f x t)"
  by (simp add: matchR_def split: sum.splits prod.splits)

lemma run_map_err: "map_err g m s = (case m s of (r, t) \<Rightarrow> case r of Inl e \<Rightarrow> (Inl (g e), t) | Inr x \<Rightarrow> (Inr x, t))"
  by (simp add: map_err_def split: sum.splits prod.splits)

lemma run_bind_cong: "m = m' \<Longrightarrow> s = s' \<Longrightarrow> bindR m f s = bindR m' f s'"
  by simp

lemma run_match_cong: "m = m' \<Longrightarrow> s = s' \<Longrightarrow> matchR m f h s = matchR m' f h s'"
  by simp

lemmas run_simps = run_bind run_match run_map_err ok_def fail_def gets_def modify_def failIf_def ok_or_def
  lift_result_def fs_metadata_def fs_read_def fs_create_new_def fs_write_all_def fs_remove_file_def
  fs_rename_def fs_read_dir_def new_uuid_def new_nonce_def look_put look_del

section \<open>A store with one credential\<close>

definition toy_id :: bytes where
  "toy_id = replicate 16 (CHR 0x00)"

definition toy_secret :: bytes where
  "toy_secret = be_bytes 32 77"

definition toy_credential :: stored_credential where
  "toy_credential = \<lparr>sc_id = toy_id, sc_label = ''hub'', sc_secret_digest = digest_secret toy_crates toy_id toy_secret,
     sc_created_at_ms = 1700000000000, sc_expires_at_ms = 1700000600000, sc_valid_until_ms = None,
     sc_revoked_at_ms = None, sc_rotation_of = None\<rparr>"

definition toy_file :: credential_file where
  "toy_file = \<lparr>cf_version = 1, cf_credentials = [toy_credential]\<rparr>"

definition one_store :: "unit world" where
  "one_store = put_file (store_path toy_store) (Regular (toy_json (enc_credential_file toy_crates toy_file))) empty_store"

lemma one_store_ok [simp]: "disk_ok one_store"
  by (simp add: one_store_def empty_store_ok)

lemma toy_id_text: "uuid_parse toy_crates (uuid_text toy_crates toy_id) = Some toy_id"
  by (simp add: toy_crates_def toy_uuid_parse_def unhex_hex toy_id_def)

lemma toy_file_typed: "file_typed toy_file" "file_ok toy_file" "cf_version toy_file = STORE_VERSION"
  using toy_digest_laws
  by (auto simp: file_typed_def toy_file_def toy_credential_def credential_typed_def time_typed_def i64_min_def
      i64_max_def toy_id_def file_ok_def STORE_VERSION_def credential_ok_def validate_label_def byte_val_def
      digest_laws_def digest_secret_def list_all_iff)

lemma toy_print: "file_typed f \<Longrightarrow> cf_version f = STORE_VERSION \<Longrightarrow>
    json_to_vec_pretty toy_crates (enc_credential_file toy_crates f) = Some (toy_json (enc_credential_file toy_crates f))"
  using enc_credential_file_exact [of f toy_crates] by (simp add: toy_crates_def toy_to_vec_def)

lemma toy_file_reads:
  assumes "file_typed f" "cf_version f = STORE_VERSION"
  shows "json_from_slice toy_crates (dec_credential_file toy_crates) (toy_json (enc_credential_file toy_crates f)) = Some f"
  using json_from_slice_to_vec_pretty [OF toy_json_laws enc_credential_file_exact toy_print, OF assms assms,
      where dec = "dec_credential_file toy_crates"] dec_enc_credential_file [OF toy_token_laws assms] by simp

lemma toy_load:
  assumes "file_typed f" "file_ok f" "look s ((), ''c'') = Some (Regular (toy_json (enc_credential_file toy_crates f)))"
    "length (toy_json (enc_credential_file toy_crates f)) \<le> MAX_STORE_BYTES"
  shows "load toy_store s = (Inr f, s\<lparr>tick := Suc (tick s)\<rparr>)"
proof -
  have v: "cf_version f = STORE_VERSION" using assms(2) by (simp add: file_ok_def)
  with assms toy_file_reads [OF assms(1) v] show ?thesis
    by (simp add: load_def run_simps toy_store_def store_path_def file_ok_def invalid_credential_iff)
qed

lemma toy_texts: "length (uuid_text toy_crates u) = 2 * length u" "length (digest_secret toy_crates i x) = 64"
  by (simp_all add: toy_crates_def toy_hex_length digest_secret_def toy_sha_def)

lemma toy_file_small: "length (toy_json (enc_credential_file toy_crates toy_file)) \<le> MAX_STORE_BYTES"
  by (simp add: enc_credential_file_def enc_stored_credential_def toy_file_def toy_credential_def enc_u64_def
      enc_i64_def number_from_i64_def enc_option_def toy_len_def toy_texts MAX_STORE_BYTES_def toy_id_def dec_digits.simps)

lemma toy_lock:
  assumes "disk_ok s" "look s ((), ''.c.lock'') = None"
  shows "\<exists>t. lock_mutations toy_store s = (Inr (), t) \<and> disk_ok t \<and>
    look t = (look s)(((), ''.c.lock'') \<mapsto> Regular [])"
  using assms
  by (auto simp: lock_mutations_def run_simps lock_path_def toy_store_def fun_eq_iff
      cong: run_bind_cong run_match_cong)

lemma toy_save:
  assumes "file_typed f" "cf_version f = STORE_VERSION" "disk_ok s" "\<And>x. look s ((), ''.c.'' @ x @ ''.tmp'') = None"
    and "look s ((), ''c'') = Some (Regular b)"
  shows "\<exists>t. save toy_store f s = (Inr (), t)"
  using assms toy_print [OF assms(1,2)]
  by (simp add: save_def run_simps store_path_def toy_store_def Let_def cong: run_bind_cong run_match_cong)

lemma look_one_store: "look one_store p = (if p = ((), ''c'')
    then Some (Regular (toy_json (enc_credential_file toy_crates toy_file))) else None)"
  by (simp add: one_store_def look_put empty_store_ok store_path_def toy_store_def)
    (simp add: look_def empty_store_def bt_get_def)

lemma toy_mutation:
  "\<exists>t. lock_mutations toy_store one_store = (Inr (), t) \<and>
    load toy_store t = (Inr toy_file, t\<lparr>tick := Suc (tick t)\<rparr>) \<and>
    (\<forall>f n. file_typed f \<longrightarrow> cf_version f = STORE_VERSION \<longrightarrow> (\<exists>u. save toy_store f (t\<lparr>tick := n\<rparr>) = (Inr (), u)))"
proof -
  note one = look_one_store
  obtain t where t: "lock_mutations toy_store one_store = (Inr (), t)" "disk_ok t"
    "look t = (look one_store)(((), ''.c.lock'') \<mapsto> Regular [])"
    using toy_lock [OF one_store_ok] one by auto
  have name: "look t ((), ''c'') = Some (Regular (toy_json (enc_credential_file toy_crates toy_file)))"
    "look t ((), ''.c.'' @ x @ ''.tmp'') = None" for x
  proof -
    have "''.c.'' @ x @ ''.tmp'' \<noteq> ''.c.lock''"
      using arg_cong [of "''.c.'' @ x @ ''.tmp''" "''.c.lock''" rev] by auto
    then show "look t ((), ''.c.'' @ x @ ''.tmp'') = None" by (simp add: t(3) one)
  qed (simp add: t(3) one)
  have "load toy_store t = (Inr toy_file, t\<lparr>tick := Suc (tick t)\<rparr>)"
    by (rule toy_load [OF toy_file_typed(1,2) name(1) toy_file_small])
  moreover have "\<exists>u. save toy_store f (t\<lparr>tick := n\<rparr>) = (Inr (), u)" if "file_typed f" "cf_version f = STORE_VERSION" for f n
    by (rule toy_save [OF that]) (use t(2) name in auto)
  ultimately show ?thesis using t(1) by blast
qed

lemma revoked_typed: "file_typed (toy_file\<lparr>cf_credentials := update_first (\<lambda>c. sc_id c = toy_id)
     (revoked_at 1700000001000) (cf_credentials toy_file)\<rparr>)"
  using toy_file_typed(1)
  by (simp add: toy_file_def toy_credential_def file_typed_def revoked_at_def credential_typed_def time_typed_def
      i64_min_def i64_max_def)

lemma toy_store_sel [simp]: "cr_lib toy_store = toy_crates" "cr_env toy_store = calm_env"
  by (simp_all add: toy_store_def)

lemma toy_find: "find (\<lambda>c. sc_id c = toy_id) (cf_credentials toy_file) = Some toy_credential"
  by (simp add: toy_file_def toy_credential_def)

definition toy_token :: string where
  "toy_token = ''tte1.'' @ uuid_text toy_crates toy_id @ ''.'' @ b64_encode toy_crates toy_secret"

lemma toy_token_parses: "parse_token toy_crates toy_token = Some (toy_id, toy_secret)"
  unfolding toy_token_def by (rule parse_issued_token [OF toy_token_laws]) (simp_all add: toy_id_def toy_secret_def)

lemma toy_revoke_runs: "\<exists>t. revoke toy_store (uuid_text toy_crates toy_id) 1700000001000 one_store = (Inr (), t)"
proof -
  obtain t u where t: "lock_mutations toy_store one_store = (Inr (), t)"
    "load toy_store t = (Inr toy_file, t\<lparr>tick := Suc (tick t)\<rparr>)"
    "save toy_store (toy_file\<lparr>cf_credentials := update_first (\<lambda>c. sc_id c = toy_id)
     (revoked_at 1700000001000) (cf_credentials toy_file)\<rparr>) (t\<lparr>tick := Suc (tick t)\<rparr>) = (Inr (), u)"
    using toy_mutation revoked_typed toy_file_typed(3) by fastforce
  then show ?thesis by (simp add: revoke_def toy_id_text toy_find run_simps cong: run_bind_cong)
qed

theorem revoked_never_verifies_witness:
  "\<exists>t. revoke toy_store (uuid_text toy_crates toy_id) 1700000001000 one_store = (Inr (), t) \<and>
    parse_token toy_crates toy_token = Some (toy_id, toy_secret) \<and>
    fst (verify toy_store toy_token 1700000002000 t) \<noteq> Inr True"
proof -
  let ?id = "uuid_text toy_crates toy_id"
  obtain u where run: "revoke toy_store ?id 1700000001000 one_store = (Inr (), u)" using toy_revoke_runs by blast
  have "fst (verify toy_store toy_token 1700000002000 u) \<noteq> Inr True"
    using revoked_never_verifies [of toy_store one_store 1700000001000 ?id u toy_id toy_token toy_secret 1700000002000]
      run toy_token_parses toy_json_laws toy_token_laws toy_id_text by (simp add: time_typed_def i64_min_def i64_max_def)
  with run toy_token_parses show ?thesis by blast
qed

lemma one_store_reads: "store_reads toy_store f one_store \<Longrightarrow> f = toy_file"
  using toy_file_reads [OF toy_file_typed(1,3)]
  by (auto simp: store_reads_def store_path_def look_one_store toy_store_def)

lemma toy_fresh: "\<forall>f n. store_reads toy_store f one_store \<longrightarrow> fresh_uuid calm_env n \<notin> sc_id ` set (cf_credentials f)"
proof (intro allI impI)
  fix f n
  assume "store_reads toy_store f one_store"
  then have "f = toy_file" by (rule one_store_reads)
  moreover have "hd (fresh_uuid calm_env n) \<noteq> hd toy_id" by (simp add: calm_env_def toy_id_def)
  ultimately show "fresh_uuid calm_env n \<notin> sc_id ` set (cf_credentials f)" by (auto simp: toy_file_def toy_credential_def)
qed

lemma issued_typed:
  assumes "file_typed g" "time_typed now" "issue toy_store label rot now ttl s = (Inr (st, public), s')"
    "\<And>u. rot = Some u \<Longrightarrow> length u = 16"
  shows "file_typed (push_credential st g)" "cf_version (push_credential st g) = cf_version g"
  using assms
  by (auto simp: issue_def Let_def push_credential_def file_typed_def credential_typed_def time_typed_def calm_env_def
      sat_add_i64_def i64_min_def i64_max_def)


theorem rotation_overlap_witness:
  "\<exists>public t f. rotate toy_store (uuid_text toy_crates toy_id) 1700000001000 5000 60000 one_store = (Inr public, t) \<and>
    store_reads toy_store f t \<and>
    token_valid toy_crates f (toy_id, toy_secret) 1700000005999 \<and> \<not> token_valid toy_crates f (toy_id, toy_secret) 1700000006000"
proof -
  obtain t where t: "lock_mutations toy_store one_store = (Inr (), t)"
    "load toy_store t = (Inr toy_file, t\<lparr>tick := Suc (tick t)\<rparr>)"
    "\<forall>f n. file_typed f \<longrightarrow> cf_version f = STORE_VERSION \<longrightarrow> (\<exists>u. save toy_store f (t\<lparr>tick := n\<rparr>) = (Inr (), u))"
    using toy_mutation by blast
  let ?g = "toy_file\<lparr>cf_credentials := update_first (\<lambda>c. sc_id c = toy_id) (rotated_until 1700000001000 5000) (cf_credentials toy_file)\<rparr>"
  have now: "time_typed 1700000001000" by (simp add: time_typed_def i64_min_def i64_max_def)
  have g: "file_typed ?g" "cf_version ?g = STORE_VERSION"
    using toy_file_typed(1,3)
    by (simp_all add: toy_file_def toy_credential_def file_typed_def rotated_until_def credential_typed_def time_typed_def
        sat_add_i64_def i64_min_def i64_max_def)
  obtain st public where i: "issue toy_store (sc_label toy_credential) (Some (sc_id toy_credential)) 1700000001000 60000
      (t\<lparr>tick := Suc (tick t)\<rparr>) = (Inr (st, public), t\<lparr>tick := Suc (Suc (tick t))\<rparr>)" by (simp add: issue_def Let_def)
  have "file_typed (push_credential st ?g)" "cf_version (push_credential st ?g) = STORE_VERSION"
    using issued_typed [OF g(1) now i] g(2) by (auto simp: toy_credential_def toy_id_def)
  then obtain u where "save toy_store (push_credential st ?g) (t\<lparr>tick := Suc (Suc (tick t))\<rparr>) = (Inr (), u)"
    using t(3) by blast
  moreover have "active_at toy_credential 1700000001000" by (simp add: active_at_def toy_credential_def)
  ultimately have run: "rotate toy_store (uuid_text toy_crates toy_id) 1700000001000 5000 60000 one_store = (Inr public, u)"
    using t i by (simp add: rotate_def validate_ttl_def MAX_TTL_MS_def MAX_ROTATION_OVERLAP_MS_def toy_id_text toy_find
        run_simps cong: run_bind_cong)
  note rotated = rotation_overlap [of toy_store one_store 1700000001000 "uuid_text toy_crates toy_id" 5000 60000 public u toy_id,
      unfolded toy_store_sel, OF toy_json_laws toy_token_laws calm_env_laws one_store_ok now run toy_id_text toy_fresh]
  from rotated obtain f f' old where f: "store_reads toy_store f one_store" and f': "store_reads toy_store f' u"
    and old: "find (\<lambda>c. sc_id c = toy_id) (cf_credentials f) = Some old"
    and v: "\<And>x time. token_valid toy_crates f' (toy_id, x) time \<longleftrightarrow>
      digest_secret toy_crates toy_id x = sc_secret_digest old \<and>
      active_at (old\<lparr>sc_valid_until_ms := None\<rparr>) time \<and> time < sat_add_i64 1700000001000 5000"
    by (elim exE conjE) simp
  have o: "old = toy_credential" using old one_store_reads [OF f] toy_find by simp
  have "token_valid toy_crates f' (toy_id, toy_secret) 1700000005999"
    "\<not> token_valid toy_crates f' (toy_id, toy_secret) 1700000006000"
    unfolding v o by (simp_all add: sat_add_i64_def i64_max_def i64_min_def active_at_def toy_credential_def)
  with run f' show ?thesis by blast
qed

section \<open>Cipher and configuration\<close>

theorem decrypt_encrypt_witness:
  "\<exists>out. encrypt toy_crates ''k'' (replicate 24 (CHR ''n'')) ''hello'' = Inr out \<and>
    decrypt toy_crates ''k'' out = Inr ''hello'' \<and> length out = 61"
proof -
  obtain out where out: "encrypt toy_crates ''k'' (replicate 24 (CHR ''n'')) ''hello'' = Inr out"
    by (simp add: encrypt_def toy_crates_def toy_seal_def)
  with decrypt_encrypt [OF toy_digest_laws toy_aead_laws _ out] show ?thesis by (simp add: NONCE_BYTES_def)
qed

definition toy_edge_config :: edge_config where
  "toy_edge_config = \<lparr>conf_version = 1, state_directory = ''/s'',
     receiver_bind = \<lparr>sa_ip = V4 127 0 0 1, sa_port = 8081\<rparr>, hub_bind = \<lparr>sa_ip = V4 10 0 0 5, sa_port = 8443\<rparr>,
     allow_local_source_run_hub_loopback = False, receiver_bearer_path = ''/p/b'', spool_key_path = ''/p/k'',
     credential_store_path = ''/p/c'', hub_server_certificate_path = ''/p/t'', hub_server_private_key_path = ''/p/s'',
     hub_client_ca_path = ''/p/a'',
     spool_limits_of = \<lparr>lim_max_bytes = 1048576, lim_max_records = 4, lim_retention_seconds = 60,
       lim_batch_max_bytes = 65536, lim_batch_max_records = 4\<rparr>\<rparr>"

definition toy_view :: fs_view where
  "toy_view = (let m = \<lambda>cs. Found \<lparr>md_kind = if length cs = 3 then RegularFile else Directory, md_uid = 1000,
       md_mode = if length cs = 3 then 384 else 448, md_len = 5\<rparr>
     in \<lparr>symlink_metadata = m, follow_metadata = m, file_bytes = \<lambda>_. Some ''bytes''\<rparr>)"

lemma toy_components:
  "components ''/s'' = [RootDir, Normal ''s'']" "components ''/p/b'' = [RootDir, Normal ''p'', Normal ''b'']"
  "components ''/p/k'' = [RootDir, Normal ''p'', Normal ''k'']" "components ''/p/c'' = [RootDir, Normal ''p'', Normal ''c'']"
  "components ''/p/t'' = [RootDir, Normal ''p'', Normal ''t'']" "components ''/p/s'' = [RootDir, Normal ''p'', Normal ''s'']"
  "components ''/p/a'' = [RootDir, Normal ''p'', Normal ''a'']"
  by (simp_all add: components_def is_absolute_def component_of_def)

lemma toy_from_toml: "from_toml (\<lambda>_. Some toy_edge_config) ''toml'' = Inr toy_edge_config"
  by (simp add: from_toml_def MAX_CONFIG_BYTES_def byte_val_def validate_shape_def toy_edge_config_def runtime_paths_def
      is_absolute_def path_eq_def toy_components MAX_SPOOL_BYTES_def MAX_SPOOL_RECORDS_def MAX_RETENTION_SECONDS_def
      MAX_BATCH_BYTES_def MAX_BATCH_RECORDS_def)

theorem accepted_config_fits_spool_witness:
  "from_toml (\<lambda>_. Some toy_edge_config) ''toml'' = Inr toy_edge_config \<and>
   (\<exists>sc. spool_config_of toy_edge_config = Inr sc \<and> validate_config sc = Inr () \<and> retention_ms sc = 60000)"
  using accepted_config_fits_spool [OF toy_from_toml] toy_from_toml by (auto simp: toy_edge_config_def)

theorem accepted_config_is_isolated_witness:
  "from_toml (\<lambda>_. Some toy_edge_config) ''toml'' = Inr toy_edge_config \<and>
   is_loopback (sa_ip (receiver_bind toy_edge_config)) \<and>
   distinct (map components (state_directory toy_edge_config # runtime_paths toy_edge_config))"
  using accepted_config_is_isolated [OF toy_from_toml] toy_from_toml by simp

lemma toy_runtime_files: "validate_runtime_files toy_view toy_edge_config = Inr ()"
  by (simp add: validate_runtime_files_def validate_regular_file_def path_contains_symlink_def toy_edge_config_def
      toy_components toy_view_def Let_def)

section \<open>Files and protocol\<close>

theorem write_atomic_atomic_witness:
  "\<exists>t. write_atomic calm_env (Tmp, ''a'') (Root, ''b'') ''new'' empty_spool = (Inr (), t) \<and>
    look t (Root, ''b'') = Some (Regular ''new'') \<and> look t (Tmp, ''a'') = None"
proof -
  have none: "look empty_spool p = None" for p by (simp add: look_def empty_spool_def bt_get_def)
  obtain t where run: "write_atomic calm_env (Tmp, ''a'') (Root, ''b'') ''new'' empty_spool = (Inr (), t)"
    using empty_spool_ok none
    by (simp add: write_atomic_def sync_directory_def run_simps cong: run_bind_cong run_match_cong)
  from write_atomic_atomic [OF empty_spool_ok _ run] run show ?thesis by simp
qed

definition toy_dup :: json where
  "toy_dup = JObj [(''payload'', JObj [(''a'', JNull), (''a'', JNull)])]"

theorem parse_envelope_accepts_witness:
  "parse_envelope toy_crates (toy_json toy_dup) = Inl DuplicateJsonKey"
proof -
  have read: "json_read toy_crates (toy_json toy_dup) = (src_of toy_dup, True)"
    using toy_read_json [of toy_dup] by (simp add: toy_crates_def toy_dup_def)
  have raw: "raw_value (src_of toy_dup) = Some toy_dup" by (rule raw_src_of) (simp add: toy_dup_def)
  have len: "length (toy_json toy_dup) \<le> MAX_RECEIVER_BODY_BYTES"
    by (simp add: toy_dup_def toy_len_def dec_digits.simps MAX_RECEIVER_BODY_BYTES_def)
  have "\<not> no_dup_keys toy_dup" by (simp add: toy_dup_def)
  with parse_envelope_accepts [of toy_crates "toy_json toy_dup" "toy_envelope ''t''" toy_dup] len raw
  show ?thesis by (simp add: read)
qed

lemma toy_envelope_ok: "envelope_typed (toy_envelope ''t1'')" "envelope_ok (toy_envelope ''t1'')"
  "json_exact (enc_envelope (toy_envelope ''t1''))"
  by (simp_all add: toy_envelope_def envelope_typed_def envelope_ok_def i64_min_def i64_max_def label_ok_def
      valid_vin_def bounded_visible_ascii_def normalized_type_def ACCEPTED_TYPES_def MIN_TIMESTAMP_MS_def
      MAX_EVENT_CLOCK_LEAD_MS_def sat_add_i64_def is_ascii_digit_def is_ascii_uppercase_def is_visible_ascii_def
      is_ascii_alphanumeric_def is_ascii_lowercase_def to_ascii_lowercase_def byte_val_def byte_of_def
      enc_envelope_def skip_none_def enc_u64_def enc_i64_def number_from_i64_def u64_max_def char_of_def bit_Suc_0_iff
      is_object_def)

lemma toy_envelope_prints:
  "json_to_vec toy_crates (enc_envelope (toy_envelope ''t1'')) = Some (toy_json (enc_envelope (toy_envelope ''t1'')))"
  "length (toy_json (enc_envelope (toy_envelope ''t1''))) \<le> MAX_RECEIVER_BODY_BYTES"
  "json_exact (payload (toy_envelope ''t1''))"
proof -
  show "length (toy_json (enc_envelope (toy_envelope ''t1''))) \<le> MAX_RECEIVER_BODY_BYTES"
    by (simp add: toy_envelope_def enc_envelope_def skip_none_def enc_u64_def enc_i64_def number_from_i64_def
        toy_len_def dec_digits.simps MAX_RECEIVER_BODY_BYTES_def)
qed (use toy_envelope_ok(3) in \<open>simp_all add: toy_crates_def toy_to_vec_def toy_envelope_def\<close>)


definition toy_digest :: string where
  "toy_digest = replicate 64 (CHR ''a'')"

lemma toy_digest_valid: "valid_lower_hex_digest toy_digest" "valid_digest toy_digest"
  by (simp_all add: valid_lower_hex_digest_def valid_digest_def toy_digest_def is_lower_hex_def is_ascii_digit_def byte_val_def
      list_all_iff)

definition ack_json :: "string \<Rightarrow> rid \<Rightarrow> json" where
  "ack_json b r = JObj [(''accepted_gap_notice_ids'', JArr []), (''accepted_record_ids'', JArr [JStr r]),
     (''batch_id'', JStr b), (''version'', JNum (PosInt 2))]"

lemma ack_json_parses:
  assumes "valid_lower_hex_digest b" "valid_lower_hex_digest r"
  shows "length (toy_json (ack_json b r)) \<le> MAX_HUB_ACK_BODY_BYTES"
    "parse_ack_v2 toy_crates (toy_json (ack_json b r)) =
      Inr \<lparr>a2_version = 2, a2_batch_id = b, a2_accepted_record_ids = [r], a2_accepted_gap_notice_ids = []\<rparr>"
proof -
  have l: "length b = 64" "length r = 64" using assms by (simp_all add: valid_lower_hex_digest_def)
  have exact: "json_exact (ack_json b r)" by (simp add: ack_json_def u64_max_def)
  have val: "is_value (ack_json b r)"
    by (simp add: ack_json_def bt_ok_def less_list_code less_char_def)
  have "unique_from_slice toy_crates (toy_json (ack_json b r)) = Inr (ack_json b r)"
    using unique_from_slice_to_vec [OF toy_json_laws exact is_value_no_dup [OF val], of "toy_json (ack_json b r)"] exact
    by (simp add: toy_crates_def toy_to_vec_def to_value_id [OF val])
  moreover show len: "length (toy_json (ack_json b r)) \<le> MAX_HUB_ACK_BODY_BYTES"
    by (simp add: ack_json_def l toy_len_def dec_digits.simps MAX_HUB_ACK_BODY_BYTES_def)
  moreover have "dec_ack_v2 (ack_json b r) = Some \<lparr>a2_version = 2, a2_batch_id = b,
      a2_accepted_record_ids = [r], a2_accepted_gap_notice_ids = []\<rparr>"
    using assms(2) by (simp add: dec_ack_v2_def ack_json_def struct_fields_def field_def dec_record_id_def parse_record_id_def
        valid_lower_hex_digest_def)
  ultimately show "parse_ack_v2 toy_crates (toy_json (ack_json b r)) =
      Inr \<lparr>a2_version = 2, a2_batch_id = b, a2_accepted_record_ids = [r], a2_accepted_gap_notice_ids = []\<rparr>"
    using assms(1) by (simp add: parse_ack_v2_def hash_set_len_def)
qed

theorem parsed_ack_v2_bounded_witness:
  "\<exists>a. parse_ack_v2 toy_crates (toy_json (ack_json toy_digest toy_digest)) = Inr a \<and> distinct (a2_accepted_record_ids a)"
proof -
  obtain a where a: "parse_ack_v2 toy_crates (toy_json (ack_json toy_digest toy_digest)) = Inr a"
    using ack_json_parses(2) [OF toy_digest_valid(1) toy_digest_valid(1)] by simp
  with parsed_ack_v2_bounded [OF a] show ?thesis by simp
qed

definition toy_batch :: hub_batch_v2 where
  "toy_batch = \<lparr>bv2_version = 2, bv2_batch_id = toy_digest,
     bv2_records = [\<lparr>b2_record_id = ''r1'', b2_legacy_record_id = ''l1'', b2_spool_seq = 1, b2_received_at_ms = 0,
       b2_envelope = toy_envelope ''t1''\<rparr>],
     bv2_gaps = [\<lparr>gap_notice_id = ''g2'', gap_spool_seq = 2, gap_occurred_at_ms = 0, gap_reason = RetentionExpired,
       gap_evidence_sha256 = toy_digest\<rparr>]\<rparr>"

definition toy_ack :: "rid list \<Rightarrow> rid list \<Rightarrow> hub_ack_v2" where
  "toy_ack rs gs = \<lparr>a2_version = 2, a2_batch_id = toy_digest, a2_accepted_record_ids = rs, a2_accepted_gap_notice_ids = gs\<rparr>"

theorem merged_prefix_iff_witness:
  "v2_ack_is_merged_prefix toy_batch (toy_ack [''r1''] []) \<and> \<not> v2_ack_is_merged_prefix toy_batch (toy_ack [] [''g2''])"
proof -
  have items: "batch_items (bv2_records toy_batch) (bv2_gaps toy_batch) = [(1, True, ''r1''), (2, False, ''g2'')]"
    by (simp add: batch_items_def toy_batch_def)
  have len: "length (bv2_records toy_batch) + length (bv2_gaps toy_batch) < u64_max"
    by (simp add: toy_batch_def u64_max_def)
  note iff = merged_prefix_iff [of toy_batch, OF _ len, unfolded items]
  have "v2_ack_is_merged_prefix toy_batch (toy_ack [''r1''] [])"
    unfolding iff [simplified] by (rule exI [of _ 1]) (simp add: accepted_items_def toy_ack_def)
  moreover have "accepted_items (toy_ack [] [''g2'']) \<noteq> set (map snd (take n [(1 :: nat, True, ''r1''), (2, False, ''g2'')]))" for n :: nat
    by (cases n) (auto simp: accepted_items_def toy_ack_def take_Cons split: nat.splits)
  ultimately show ?thesis using iff by simp
qed

end
