(* ===== verification/Spool_System.thy ===== *)
theory Spool_System
  imports Spool_Reopen
begin

text \<open>
  The spool as a whole: the two loops return and satisfy the recursive equations of the
  sources, and the step relation of a spool that serves requests, is reopened and has its
  files damaged from outside keeps its invariant on every reachable state.
\<close>

section \<open>The loops return\<close>

lemma bt_length_dom: "bt_ok m \<Longrightarrow> length m = card (dom (bt_get m))"
  using distinct_card [OF bt_ok_distinct, of m] by (simp add: bt_get_def [abs_def] dom_map_of_conv_image_fst)

lemma bt_finite_dom: "finite (dom (bt_get m))"
  by (simp add: bt_get_def [abs_def] finite_dom_map_of)

lemma bt_length_less:
  assumes "bt_ok m" "bt_ok m'" "bt_get m \<subseteq>\<^sub>m bt_get m'" "bt_get m k = None" "bt_get m' k \<noteq> None"
  shows "length m < length m'"
proof -
  have "dom (bt_get m) \<subset> dom (bt_get m')" using assms(3-5) map_le_implies_dom_le by blast
  then have "card (dom (bt_get m)) < card (dom (bt_get m'))" by (rule psubset_card_mono [OF bt_finite_dom])
  then show ?thesis using assms(1,2) by (simp add: bt_length_dom)
qed

lemma quarantine_removes:
  "triple (\<lambda>_. True) (quarantine_runtime_entry X e)
     (\<lambda>_ s. bt_get (entries (state_of s)) (e_record_id e) = None) (\<lambda>_ _. True)"
proof -
  have drop: "triple (\<lambda>_. True) (bindR (upd_state (drop_entry e)) (\<lambda>_. upd_state (\<lambda>st. st\<lparr>corrupt_records := f st\<rparr>)))
      (\<lambda>_ s. bt_get (entries (state_of s)) (e_record_id e) = None) (\<lambda>_ _. True)" for f
    by (rule tripleI) (auto simp: upd_state_def proc_defs drop_entry_def)
  have any: "triple (\<lambda>_. True) m (\<lambda>_ _. True) (\<lambda>_ _. True)" for m :: "'b spool_proc"
    by (rule tripleI) auto
  show ?thesis
    unfolding quarantine_runtime_entry_def
  proof (rule triple_gets_bind, rule triple_if, goal_cases)
    case (1 st)
    then show ?case by (intro triple_ok) (auto simp: bt_contains_def)
  next
    case (2 st)
    show ?case
      by (rule triple_weak [where P' = "\<lambda>_. True"], rule triple_bind [OF any], rule triple_bind [OF any], rule drop) simp
  qed
qed

definition shrunk :: "ctx \<Rightarrow> spool_state \<Rightarrow> spool_state \<Rightarrow> bool" where
  "shrunk X st0 st \<longleftrightarrow> custody X st0 UNIV st \<and> length (entries st) < length (entries st0)"

lemma quarantine_shrinks:
  assumes "ctx_ok X" "bt_get (entries st0) (e_record_id e) = Some e"
  shows "triple (on (custody X st0 UNIV)) (quarantine_runtime_entry X e) (\<lambda>_. on (shrunk X st0)) (\<lambda>_ _. True)"
proof -
  have "shrunk X st0 st" if "custody X st0 UNIV st" "bt_get (entries st) (e_record_id e) = None" for st
    unfolding shrunk_def
    by (rule conjI [OF that(1) bt_length_less [OF _ _ _ that(2)]])
      (use that(1) assms(2) in \<open>auto simp: custody_def base_inv_def maps_ok_def\<close>)
  then show ?thesis
    by (intro triple_conseq [OF triple_conj [OF quarantine_custody [OF assms] quarantine_removes]])
      (auto simp: on_def)
qed

lemma shrunk_quiet:
  assumes "\<And>A. keeps (on (custody X st0 A)) m" "\<And>n. keeps (on (\<lambda>st. length (entries st) < n)) m"
  shows "keeps (on (shrunk X st0)) m"
  by (rule triple_conseq [OF triple_conj [OF assms(1) [of UNIV] assms(2) [of "length (entries st0)"]]])
    (auto simp: on_def shrunk_def)

text \<open>The loop of a batch: a quarantined record leaves fewer entries.\<close>

definition loop_state :: "ctx \<Rightarrow> spool_state \<Rightarrow> bool \<Rightarrow> spool_state \<Rightarrow> bool" where
  "loop_state X st0 quarantined st \<longleftrightarrow> (if quarantined then shrunk X st0 st else custody X st0 UNIV st)"

lemma read_entry_loop [quiet]: "keeps (on (loop_state X st0 b)) (read_entry X e)"
  by (rule quiet_read_entry)

lemma candidate_item_loop:
  assumes X: "ctx_ok X" and c: "\<And>e. c = CandRecord e \<Longrightarrow> bt_get (entries st0) (e_record_id e) = Some e"
  shows "triple (on (loop_state X st0 b)) (candidate_item X counted c)
    (\<lambda>item. on (loop_state X st0 (b \<or> item = None))) (\<lambda>_ _. True)"
proof (cases c)
  case (CandGap g)
  show ?thesis unfolding candidate_item_def CandGap batch_candidate_v2.case
    by (rule triple_ok) simp
next
  case (CandRecord e)
  note e = c [OF CandRecord]
  have rd: "triple (on (loop_state X st0 b)) (read_entry X e) (\<lambda>_. on (loop_state X st0 b)) (\<lambda>_ _. True)"
    by (rule triple_conseq [OF quiet_read_entry]) auto
  have custody: "custody X st0 UNIV st" if "loop_state X st0 b st" for st
    using that by (auto simp: loop_state_def shrunk_def split: if_splits)
  have q: "triple (on (loop_state X st0 b)) (quarantine_runtime_entry X e) (\<lambda>_. on (loop_state X st0 True)) (\<lambda>_ _. True)"
    by (rule triple_conseq [OF quarantine_shrinks [OF X e]]) (auto simp: loop_state_def elim: on_mono intro: custody)
  have q': "triple (on (loop_state X st0 b)) (if er = CorruptRecord
      then bindR (quarantine_runtime_entry X e) (\<lambda>_. ok None) else fail er)
      (\<lambda>item. on (loop_state X st0 (b \<or> item = None))) (\<lambda>_ _. True)" for er
    by (rule triple_if, rule triple_bind [OF q]) (auto intro!: triple_ok triple_fail)
  show ?thesis
    unfolding candidate_item_def CandRecord batch_candidate_v2.case
    by (rule triple_if, rule triple_bind [OF rd], rule triple_ok, simp,
        rule triple_match [OF quiet_read_entry _ q'], rule triple_ok) simp
qed

lemma push_item_quarantined [simp]: "ba_quarantined (push_item it a) = ba_quarantined a"
  by (cases it) auto

lemma batch_v2_loop_state:
  assumes X: "ctx_ok X"
    and cs: "\<And>e. CandRecord e \<in> set cs \<Longrightarrow> bt_get (entries st0) (e_record_id e) = Some e"
  shows "triple (on (loop_state X st0 (ba_quarantined a))) (batch_v2_loop X counted cs a)
    (\<lambda>a'. on (loop_state X st0 (ba_quarantined a'))) (\<lambda>_ _. True)"
  using cs
proof (induction cs arbitrary: a)
  case Nil
  show ?case unfolding batch_v2_loop.simps by (rule triple_ok)
next
  case (Cons c cs)
  have IH: "triple (on (loop_state X st0 b)) (batch_v2_loop X counted cs a)
    (\<lambda>a'. on (loop_state X st0 (ba_quarantined a'))) (\<lambda>_ _. True)" if "ba_quarantined a = b" for a b
  proof -
    have "triple (on (loop_state X st0 (ba_quarantined a))) (batch_v2_loop X counted cs a)
      (\<lambda>a'. on (loop_state X st0 (ba_quarantined a'))) (\<lambda>_ _. True)"
      by (rule Cons.IH) (use Cons.prems in auto)
    then show ?thesis by (simp only: that)
  qed
  have item: "triple (on (loop_state X st0 (ba_quarantined a))) (candidate_item X counted c)
      (\<lambda>item. on (loop_state X st0 (ba_quarantined a \<or> item = None))) (\<lambda>_ _. True)"
    by (rule candidate_item_loop [OF X]) (use Cons.prems in auto)
  show ?case
    unfolding batch_v2_loop.simps
  proof (rule triple_if, rule triple_ok, assumption, rule triple_bind [OF item], goal_cases)
    case (1 it)
    show ?case
      by (cases it) (auto intro!: IH triple_ok_or_bind triple_ok triple_fail)
  qed
qed

definition loop_inv :: "ctx \<Rightarrow> spool \<Rightarrow> bool" where
  "loop_inv X s \<longleftrightarrow> ctx_ok X \<and> on (base_inv X) s"

lemma build_batch_v2_once_None:
  assumes "loop_inv X s" "build_batch_v2_once X s = (Inr None, t)"
  shows "loop_inv X t" "length (entries (state_of t)) < length (entries (state_of s))"
proof -
  have X: "ctx_ok X" and b: "base_inv X (state_of s)" and d: "disk_ok s"
    using assms(1) by (simp_all add: loop_inv_def on_def)
  have e: "bt_get (entries (state_of s)) (e_record_id e) = Some e"
    if "CandRecord e \<in> set (batch_candidates (state_of s))" for e
    using that entry_get [OF b] by (simp add: batch_candidates_record)
  have init: "triple (on (\<lambda>x. x = state_of s)) (batch_v2_loop X (counted_pending_expirations (state_of s))
      (batch_candidates (state_of s)) \<lparr>ba_records = [], ba_gaps = [], ba_body_bytes = 0, ba_quarantined = False\<rparr>)
      (\<lambda>a'. on (loop_state X (state_of s) (ba_quarantined a'))) (\<lambda>_ _. True)"
    by (rule triple_from [OF batch_v2_loop_state [OF X e, where a = "\<lparr>ba_records = [], ba_gaps = [],
        ba_body_bytes = 0, ba_quarantined = False\<rparr>", simplified]])
      (use b in \<open>auto simp: loop_state_def intro: custody_refl\<close>)
  have "triple (on (\<lambda>x. x = state_of s)) (build_batch_v2_once X)
      (\<lambda>r. on (\<lambda>st. r = None \<longrightarrow> shrunk X (state_of s) st)) (\<lambda>_ _. True)"
    unfolding build_batch_v2_once_def Let_def
    by (rule triple_gets_state, hypsubst, intro triple_failIf_bind triple_bind [OF init])
      (auto intro!: triple_if triple_ok simp: on_def loop_state_def)
  from triple_Inr [OF this _ assms(2)] d have "on (shrunk X (state_of s)) t" by (auto simp: on_def)
  then show "loop_inv X t" "length (entries (state_of t)) < length (entries (state_of s))"
    using X by (auto simp: on_def shrunk_def loop_inv_def custody_def)
qed

interpretation batch_loop: bounded_loop "build_batch_v2_once X" "\<lambda>s. length (entries (state_of s))" "loop_inv X" for X
  by unfold_locales (use build_batch_v2_once_None in blast)+

text \<open>Pruning: every pass removes the receipt it chose.\<close>

lemma prune_once_None:
  assumes "loop_inv X s" "prune_once X s = (Inr None, t)"
  shows "loop_inv X t" "length (receipts (state_of t)) < length (receipts (state_of s))"
proof -
  have X: "ctx_ok X" and b: "base_inv X (state_of s)" and d: "disk_ok s"
    using assms(1) by (simp_all add: loop_inv_def on_def)
  let ?R = "receipts (state_of s)"
  let ?same = "\<lambda>st. base_inv X st \<and> receipts st = ?R"
  let ?less = "\<lambda>st. base_inv X st \<and> length (receipts st) < length ?R"
  have less: "length (bt_remove (rc_batch_id (re_receipt r)) ?R) < length ?R"
    if "oldest_receipt ?R = Some r" for r
  proof -
    have ok: "bt_ok ?R" using b by (simp add: base_inv_def maps_ok_def)
    with oldest_receipt_in [OF that] obtain k where k: "bt_get ?R k = Some r" by (auto simp: bt_values_iff)
    with b have "rc_batch_id (re_receipt r) = k" by (auto simp: base_inv_def receipts_inv_def)
    with k bt.length_del_present [OF ok k] show ?thesis by simp
  qed
  have pruned: "?same (st\<lparr>v1_ack_history_pruned := True\<rparr>)" if "?same st" for st
    by (rule conjI, rule base_inv_cong [of _ st]) (use that in \<open>auto simp: base_inv_def maps_ok_def\<close>)
  have ver: "triple (on ?same) (if c then bindR (upd_state (\<lambda>st. st\<lparr>v1_ack_history_pruned := True\<rparr>)) (\<lambda>_.
      persist_current X) else ok ()) (\<lambda>_. on ?same) (\<lambda>_ _. True)" for c
    by (rule triple_conseq [where P' = "on ?same" and Q' = "\<lambda>_. on ?same" and E' = "\<lambda>_. on ?same"],
        intro quiet keeps_bind keeps_pure triple_upd_state pruned) auto
  have removed: "base_inv X (st\<lparr>receipts := bt_remove k ?R\<rparr>)" if "?same st" for st k
    using base_inv_remove_receipt [of X st k] that by simp
  have rest: "triple (on ?same) (bindR (remove_if_present X p) (\<lambda>_.
      bindR (upd_state (\<lambda>st. st\<lparr>receipts := bt_remove (rc_batch_id (re_receipt r)) (receipts st)\<rparr>)) (\<lambda>_.
      bindR (sync_directory (ev X) Receipts) (\<lambda>_. ok z)))) (\<lambda>_. on ?less) (\<lambda>_ _. True)"
    if "oldest_receipt ?R = Some r" for r p and z :: "unit option"
    by (rule triple_quiet_bind [OF quiet_remove_if_present],
        rule triple_bind [OF triple_upd_state [where Q = ?less]], use less [OF that] in
        \<open>auto intro!: triple_quiet_bind [OF quiet_spool_io(3)] triple_ok simp: removed\<close>)
  have "triple (on (\<lambda>x. x = state_of s)) (prune_once X) (\<lambda>r. on (\<lambda>st. r = None \<longrightarrow> ?less st)) (\<lambda>_ _. True)"
    unfolding prune_once_def
  proof (rule triple_gets_state, hypsubst, rule triple_if, rule triple_ok, simp add: on_def,
      rule triple_ok_or_bind, goal_cases)
    case (1 r)
    show ?case
      by (rule triple_from [where P = ?same], rule triple_bind [OF ver],
          rule triple_conseq [OF rest [OF 1(2)]]) (use b in \<open>auto simp: on_def\<close>)
  qed simp
  from triple_Inr [OF this _ assms(2)] d have "on ?less t" by (auto simp: on_def)
  then show "loop_inv X t" "length (receipts (state_of t)) < length (receipts (state_of s))"
    using X by (auto simp: on_def loop_inv_def)
qed

interpretation prune_loop: bounded_loop "prune_once X" "\<lambda>s. length (receipts (state_of s))" "loop_inv X" for X
  by unfold_locales (use prune_once_None in blast)+

section \<open>Steps\<close>

definition spool_inv :: "ctx \<Rightarrow> spool \<Rightarrow> bool" where
  "spool_inv X s \<longleftrightarrow> ctx_ok X \<and> disk_ok s \<and> state_inv X (state_of s) \<and> collision_free (lib X) (state_of s)"

definition spool_init :: "ctx \<Rightarrow> spool \<Rightarrow> bool" where
  "spool_init X s \<longleftrightarrow> ctx_ok X \<and> disk_ok s \<and> state_of s = default_state"

text \<open>
  Requests on an open spool, reopening it (a successful \<open>Spool::open\<close> on the disk as it
  is), and damage to its files from outside. Every outcome of a request is a step, the
  failed ones too.
\<close>

inductive spool_step :: "ctx \<Rightarrow> spool \<Rightarrow> spool \<Rightarrow> bool" for X where
  step_enqueue: "enqueue_distinct X (state_of s) envelope \<Longrightarrow>
     spool_step X s (snd (enqueue X envelope now s))"
| step_next_batch: "spool_step X s (snd (next_batch X now s))"
| step_next_batch_v2: "spool_step X s (snd (next_batch_v2 X now s))"
| step_acknowledge: "spool_step X s (snd (acknowledge X a s))"
| step_acknowledge_v2: "spool_step X s (snd (acknowledge_v2 X a2 s))"
| step_expire_due: "spool_step X s (snd (expire_due X now s))"
| step_sync: "spool_step X s (snd (spool_sync X s))"
| step_reopen: "spool_open X lock_held now s = (Inr (), t) \<Longrightarrow> collision_free (lib X) (state_of t) \<Longrightarrow>
     spool_step X s t"
| step_damage: "disk_ok (s\<lparr>files := f\<rparr>) \<Longrightarrow> spool_step X s (s\<lparr>files := f\<rparr>)"

inductive_cases spool_stepE: "spool_step X s t"

lemma triple_snd: "triple P m (\<lambda>_. Q) (\<lambda>_. Q) \<Longrightarrow> P s \<Longrightarrow> Q (snd (m s))"
  by (cases "m s") (auto simp: triple_def split: sum.splits)

lemma custody_spool_inv:
  assumes "spool_inv X s" "on (custody X (state_of s) A) t" "A \<noteq> UNIV \<or> collision_free (lib X) (state_of t)"
  shows "spool_inv X t"
  using assms collision_free_custody [of X "state_of s" A "state_of t"]
  by (auto simp: spool_inv_def on_def intro: custody_state_inv)

lemma safe_step:
  assumes "safe X m" "spool_inv X s"
  shows "on (custody X (state_of s) {}) (snd (m s))"
  by (rule triple_snd [OF safeD [OF assms(1)]])
    (use assms(2) in \<open>auto simp: spool_inv_def state_inv_def on_def\<close>)

lemma safe_spool_sync: "safe X (spool_sync X)"
  unfolding spool_sync_def by (rule safe_from_keeps) (intro quiet)

lemma finite_live: "finite (live_seqs st)"
  by (simp add: live_seqs_def)

lemma custody_ack_inv:
  assumes "spool_inv X s"
    and "triple (on (\<lambda>x. x = state_of s)) m (\<lambda>_. on (custody X (state_of s) A)) (\<lambda>_. on (custody X (state_of s) A))"
  shows "spool_inv X (snd (m s))"
proof (rule custody_spool_inv [OF assms(1)])
  show c: "on (custody X (state_of s) A) (snd (m s))"
    by (rule triple_snd [OF assms(2)]) (use assms(1) in \<open>simp add: spool_inv_def on_def\<close>)
  have "collision_free (lib X) (state_of s)" using assms(1) by (simp add: spool_inv_def)
  with c have "collision_free (lib X) (state_of (snd (m s)))"
    unfolding on_def custody_def collision_free_def by (blast intro: single_valued_subset)
  then show "A \<noteq> UNIV \<or> collision_free (lib X) (state_of (snd (m s)))" ..
qed

lemma enqueue_inv:
  assumes "spool_inv X s" "enqueue_distinct X (state_of s) envelope"
  shows "spool_inv X (snd (enqueue X envelope now s))"
proof -
  let ?Q = "on (\<lambda>st. st = state_of s \<or> admitted X envelope now (state_of s) st)"
  have "triple (on (\<lambda>x. x = state_of s)) (enqueue X envelope now) (\<lambda>_. ?Q) (\<lambda>_. ?Q)"
    by (rule triple_conseq [OF enqueue_state])
      (use assms in \<open>auto simp: spool_inv_def elim!: on_mono\<close>)
  from triple_snd [OF this] have "?Q (snd (enqueue X envelope now s))"
    using assms(1) by (simp add: on_def spool_inv_def)
  with assms(1) show ?thesis by (auto simp: on_def spool_inv_def admitted_def)
qed

lemma spool_step_inv:
  assumes "spool_step X s t" "spool_inv X s"
  shows "spool_inv X t"
proof -
  have X: "ctx_ok X" and d: "disk_ok s" and b: "base_inv X (state_of s)" "collision_free (lib X) (state_of s)"
    using assms(2) by (simp_all add: spool_inv_def state_inv_def)
  have safe: "spool_inv X (snd (m s))" if "safe X m" for m :: "'a spool_proc"
    using custody_spool_inv [OF assms(2) safe_step [OF that assms(2)]] by simp
  from assms(1) show ?thesis
  proof (cases rule: spool_step.cases)
    case (step_reopen lock_held now)
    from triple_Inr [OF spool_open_state [OF X] d step_reopen(1)] step_reopen(2) X
    show ?thesis by (simp add: spool_inv_def on_def)
  next
    case (step_damage f)
    then show ?thesis using assms(2) by (simp add: spool_inv_def)
  qed (use X b assms(2) in \<open>auto intro: enqueue_inv safe safe_next_batch safe_next_batch_v2 safe_expire_due
      safe_spool_sync custody_ack_inv acknowledge_v1_custody acknowledge_v2_custody\<close>)
qed

interpretation spool_sys: invariant_system "spool_init X" "spool_step X" "spool_inv X" for X
proof unfold_locales
  fix s assume "spool_init X s"
  then show "spool_inv X s"
    using base_inv_default [of X False]
    by (auto simp: spool_init_def spool_inv_def state_inv_def default_state_def live_seqs_def
        collision_free_def notice_ids_def)
qed (rule spool_step_inv)

section \<open>Properties\<close>

text \<open>
  C11: every reachable spool state is consistent and within its bounds. From an empty state,
  after any sequence of requests with any outcome, reopenings and damage to the files from
  outside, the byte counters are exactly the sums over the entries and gap notices and stay
  within the configured limit, the number of each stays within the limit, the index by
  stable identifier is exactly the inverse of the entries, no two entries and no two gap
  notices share a sequence number, and every sequence number in use is below the next one
  to be given out.
\<close>

theorem reachable_spool_consistent:
  assumes "spool_init X s" "(spool_step X)\<^sup>*\<^sup>* s t" "st = state_of t"
  shows "pending_bytes st = bt_total e_encrypted_bytes (entries st) \<and> pending_bytes st \<le> max_bytes (config X) \<and>
    pending_gap_bytes st = bt_total g_encrypted_bytes (gaps st) \<and> pending_gap_bytes st \<le> max_bytes (config X) \<and>
    length (entries st) \<le> max_records (config X) \<and> length (gaps st) \<le> max_records (config X) \<and>
    (\<forall>sid k. bt_get (stable_index st) sid = Some k \<longleftrightarrow>
       (\<exists>e. bt_get (entries st) k = Some e \<and> e_stable_record_id e = sid)) \<and>
    (\<forall>k e k' e'. bt_get (entries st) k = Some e \<longrightarrow> bt_get (entries st) k' = Some e' \<longrightarrow>
       e_spool_seq e = e_spool_seq e' \<longrightarrow> k = k') \<and>
    (\<forall>k g k' g'. bt_get (gaps st) k = Some g \<longrightarrow> bt_get (gaps st) k' = Some g' \<longrightarrow>
       gap_spool_seq (g_notice g) = gap_spool_seq (g_notice g') \<longrightarrow> k = k') \<and>
    (\<forall>q \<in> live_seqs st. q < next_spool_sequence st)"
proof -
  have "spool_inv X t" using assms(1,2) by (rule spool_sys.inv_reachable)
  then have inv: "entries_inv st" "gaps_inv (lib X) st" "bounds_inv (config X) st"
    "\<forall>q \<in> live_seqs st. q < next_spool_sequence st"
    using assms(3) by (simp_all add: spool_inv_def state_inv_def base_inv_def)
  have idx: "bt_get (stable_index st) sid = Some k \<longleftrightarrow> (\<exists>e. bt_get (entries st) k = Some e \<and> e_stable_record_id e = sid)"
    for sid k using inv(1) unfolding entries_inv_def entry_ok_def by blast
  show ?thesis
    by (intro conjI allI; (use inv idx in \<open>simp add: bounds_inv_def entries_inv_def gaps_inv_def\<close>)?)
qed

text \<open>
  C13: an acknowledgement releases only what it names. Whatever a version 2 acknowledgement
  returns and whatever fails on the way, every sequence number in custody before that does
  not belong to a record or gap notice it names (or, for a batch acknowledged before, to
  the stored receipt) is still in custody, as its record or as a gap notice; no entry is
  added or changed, and the invariant holds.
\<close>

theorem acknowledge_v2_releases_only_named:
  assumes "spool_inv X s" "acknowledge_v2 X a s = (r, t)"
  shows "live_seqs (state_of s) - acked_v2 X (state_of s) a \<subseteq> live_seqs (state_of t) \<and>
    live_seqs (state_of t) \<subseteq> live_seqs (state_of s) \<and>
    bt_get (entries (state_of t)) \<subseteq>\<^sub>m bt_get (entries (state_of s)) \<and> spool_inv X t"
proof -
  have "on (custody X (state_of s) (acked_v2 X (state_of s) a)) (snd (acknowledge_v2 X a s))"
    by (rule triple_snd [OF acknowledge_v2_custody]) (use assms(1) in \<open>auto simp: spool_inv_def state_inv_def on_def\<close>)
  moreover have "spool_inv X t" using spool_step_inv [OF step_acknowledge_v2 assms(1)] assms(2) by (metis snd_conv)
  ultimately show ?thesis using assms(2) by (auto simp: on_def custody_def)
qed

text \<open>
  C14: the same for a version 1 acknowledgement, which can release records only.
\<close>

theorem acknowledge_v1_releases_only_named:
  assumes "spool_inv X s" "acknowledge X a s = (r, t)"
  shows "live_seqs (state_of s) - acked_v1 X (state_of s) a \<subseteq> live_seqs (state_of t) \<and>
    live_seqs (state_of t) \<subseteq> live_seqs (state_of s) \<and>
    bt_get (entries (state_of t)) \<subseteq>\<^sub>m bt_get (entries (state_of s)) \<and> spool_inv X t"
proof -
  have "on (custody X (state_of s) (acked_v1 X (state_of s) a)) (snd (acknowledge X a s))"
    by (rule triple_snd [OF acknowledge_v1_custody]) (use assms(1) in \<open>auto simp: spool_inv_def state_inv_def on_def\<close>)
  moreover have "spool_inv X t" using spool_step_inv [OF step_acknowledge assms(1)] assms(2) by (metis snd_conv)
  ultimately show ?thesis using assms(2) by (auto simp: on_def custody_def)
qed

text \<open>
  C15: serving and expiring release nothing. Building either kind of batch, expiring due
  records and syncing, with any outcome, keep exactly the sequence numbers in custody: an
  expired or damaged record is replaced by its gap notice, never dropped.
\<close>

theorem serving_releases_nothing:
  assumes "spool_inv X s"
    and "t \<in> {snd (next_batch X now s), snd (next_batch_v2 X now s), snd (expire_due X now s), snd (spool_sync X s)}"
  shows "live_seqs (state_of t) = live_seqs (state_of s) \<and>
    next_spool_sequence (state_of t) = next_spool_sequence (state_of s) \<and> spool_inv X t"
proof -
  have X: "ctx_ok X" using assms(1) by (simp add: spool_inv_def)
  have c: "on (custody X (state_of s) {}) t"
    using assms(2) safe_step [OF safe_next_batch [OF X] assms(1)] safe_step [OF safe_next_batch_v2 [OF X] assms(1)]
      safe_step [OF safe_expire_due [OF X] assms(1)] safe_step [OF safe_spool_sync assms(1)] by auto
  then show ?thesis
    using custody_spool_inv [OF assms(1) c] by (auto simp: on_def custody_def)
qed

text \<open>
  C16: admission is all or nothing. An admission that reports the record as already present
  changes nothing and names the record with that stable identifier; one that reports it as
  stored has added exactly the new entry, under the next sequence number and within the
  byte limit; and after an error the state is either unchanged or has exactly that entry
  (when only the sequence file could not be written).
\<close>

theorem enqueue_all_or_nothing:
  assumes "spool_inv X s" "enqueue_distinct X (state_of s) envelope" "enqueue X envelope now s = (r, t)"
  shows "(case r of
      Inr (AlreadyPresent k) \<Rightarrow> state_of t = state_of s \<and>
        bt_get (stable_index (state_of s)) (stable_record_id (lib X) envelope) = Some k
    | Inr (Stored k) \<Rightarrow> k = record_id (lib X) envelope \<and> admitted X envelope now (state_of s) (state_of t)
    | Inl e \<Rightarrow> state_of t = state_of s \<or> admitted X envelope now (state_of s) (state_of t))"
proof -
  have tr: "triple (on (\<lambda>x. x = state_of s)) (enqueue X envelope now)
    (\<lambda>r. on (\<lambda>st. r = Stored (record_id (lib X) envelope) \<and> admitted X envelope now (state_of s) st
       \<or> (\<exists>k. r = AlreadyPresent k \<and> st = state_of s
           \<and> bt_get (stable_index (state_of s)) (stable_record_id (lib X) envelope) = Some k)))
    (\<lambda>_. on (\<lambda>st. st = state_of s \<or> admitted X envelope now (state_of s) st))"
    by (rule enqueue_state) (use assms in \<open>simp_all add: spool_inv_def\<close>)
  have s: "on (\<lambda>x. x = state_of s) s" using assms(1) by (simp add: on_def spool_inv_def)
  show ?thesis
  proof (cases r)
    case (Inl e)
    with triple_Inl [OF tr s assms(3) [unfolded Inl]] show ?thesis by (simp add: on_def)
  next
    case (Inr v)
    with triple_Inr [OF tr s assms(3) [unfolded Inr]] show ?thesis by (auto simp: on_def)
  qed
qed

text \<open>
  C19: opening establishes the invariant from any disk. Whatever the spool directory holds,
  records and gap notices of any age, damaged, foreign or repeated ones, if opening it
  returns then the state it built satisfies the whole invariant, and if it fails the disk
  is still well formed.
\<close>

theorem open_establishes_invariant:
  assumes "ctx_ok X" "disk_ok s" "spool_open X lock_held now s = (r, t)"
  shows "disk_ok t \<and> (r = Inr () \<longrightarrow> state_inv X (state_of t))"
proof (cases r)
  case (Inl e)
  from triple_Inl [OF spool_open_state [OF assms(1)] assms(2) assms(3) [unfolded Inl]] Inl show ?thesis by simp
next
  case (Inr u)
  from triple_Inr [OF spool_open_state [OF assms(1)] assms(2) assms(3) [unfolded Inr]] show ?thesis
    by (simp add: on_def)
qed

text \<open>
  C23: building a version 2 batch returns. On every state that satisfies the invariant the
  loop ends within one more round than there are entries, whatever is damaged (every
  further round has quarantined a record), and it satisfies the recursive equation of the
  source: start over after a quarantine, otherwise the batch of this round.
\<close>

theorem build_batch_v2_returns:
  assumes "spool_inv X s"
  shows "loop_fuel (Suc (length (entries (state_of s)))) (build_batch_v2_once X) s = Some (build_batch_v2 X s) \<and>
    build_batch_v2 X s = (case build_batch_v2_once X s of
       (Inl e, t) \<Rightarrow> (Inl e, t) | (Inr (Some b), t) \<Rightarrow> (Inr b, t) | (Inr None, t) \<Rightarrow> build_batch_v2 X t)"
proof -
  have inv: "loop_inv X s" using assms by (simp add: loop_inv_def spool_inv_def state_inv_def on_def)
  show ?thesis
    unfolding build_batch_v2_def
    by (rule conjI [OF batch_loop.loop_returns [OF inv] batch_loop.loop_unfold [OF inv]])
qed

text \<open>
  C24: pruning receipts ends with at most 1024 of them. The loop returns within one more
  round than there are receipts; when it returns normally at most 1024 receipts are left,
  and the records and gap notices in custody are the same.
\<close>

theorem prune_receipts_bounds:
  assumes "spool_inv X s" "prune_receipts X s = (r, t)"
  shows "loop_fuel (Suc (length (receipts (state_of s)))) (prune_once X) s = Some (r, t) \<and>
    (r = Inr () \<longrightarrow> length (receipts (state_of t)) \<le> MAX_ACK_RECEIPTS) \<and>
    live_seqs (state_of t) = live_seqs (state_of s)"
proof (intro conjI impI)
  have inv: "loop_inv X s" using assms by (simp add: loop_inv_def spool_inv_def state_inv_def on_def)
  show fuel: "loop_fuel (Suc (length (receipts (state_of s)))) (prune_once X) s = Some (r, t)"
    using prune_loop.loop_returns [OF inv, of Io] assms(2) by (simp only: prune_receipts_def)
  have "on (custody X (state_of s) {}) (snd (prune_receipts X s))"
    by (rule keepsD [OF prune_custody])
      (use assms(1) in \<open>auto simp: on_def spool_inv_def state_inv_def intro: custody_refl\<close>)
  then show "live_seqs (state_of t) = live_seqs (state_of s)" using assms(2) by (auto simp: on_def custody_def)
  have once: "triple (\<lambda>_. True) (prune_once X) (\<lambda>r s. case r of None \<Rightarrow> True
      | Some _ \<Rightarrow> length (receipts (state_of s)) \<le> MAX_ACK_RECEIPTS) (\<lambda>_ _. True)"
    by (rule tripleI) (auto simp: prune_once_def bindR_eq_Inr gets_def ok_def split: if_splits)
  assume "r = Inr ()"
  with triple_loop_fuel [OF once _ fuel] show "length (receipts (state_of t)) \<le> MAX_ACK_RECEIPTS" by simp
qed

end
