(* ===== verification/Spool_Files.thy ===== *)
theory Spool_Files
  imports Spool_System
begin

text \<open>
  What the files of a spool hold: the stored forms read back, a file written by the spool
  decrypts and decodes to what was written, and a file name determines the sequence number.
  A sequence number is backed by the disk when a pending file under its own name holds a
  valid record with that number, or a gap file a valid notice.
\<close>

section \<open>Stored forms read back\<close>

lemma dec_enc_record_id [simp]: "valid_digest r \<Longrightarrow> dec_record_id (JStr r) = Some r"
  by (simp add: dec_record_id_def parse_record_id_def valid_digest_def)

lemma hex_valid_digest: "digest_laws C \<Longrightarrow> valid_digest (hex_encode C (sha256 C b))"
  using hex_digest_length [of C b] hex_digest_lower [of C "sha256 C b"] by (simp add: valid_digest_def list_all_iff)

definition i64_ok :: "int \<Rightarrow> bool" where
  "i64_ok i \<longleftrightarrow> i64_min \<le> i \<and> i \<le> i64_max"

definition record_typed :: "stored_record \<Rightarrow> bool" where
  "record_typed r \<longleftrightarrow> sr_version r \<le> 65535 \<and> valid_digest (sr_record_id r)
     \<and> (case sr_stable_record_id r of None \<Rightarrow> True | Some i \<Rightarrow> valid_digest i)
     \<and> (case sr_spool_seq r of None \<Rightarrow> True | Some q \<Rightarrow> q \<le> u64_max)
     \<and> i64_ok (sr_admitted_at_ms r) \<and> i64_ok (sr_expires_at_ms r)
     \<and> envelope_typed (sr_envelope r) \<and> json_exact (payload (sr_envelope r))"

lemma dec_enc_seq [simp]: "n \<le> u64_max \<Longrightarrow> dec_option dec_u64 (enc_u64 n) = Some (Some n)"
  by (simp add: enc_u64_def)

lemma dec_enc_stored_record: "record_typed r \<Longrightarrow> dec_stored_record (enc_stored_record r) = Some r"
  unfolding dec_stored_record_def enc_stored_record_def struct_fields_def record_typed_def i64_ok_def
  by (auto simp: skip_none_def field_def field_default_def dec_enc_envelope
      split: option.splits)

lemma enc_stored_record_exact: "record_typed r \<Longrightarrow> json_exact (enc_stored_record r)"
  by (auto simp: enc_stored_record_def record_typed_def i64_ok_def skip_none_def enc_envelope_exact u64_max_def
      split: option.splits)

definition notice_typed :: "gap_notice_v2 \<Rightarrow> bool" where
  "notice_typed n \<longleftrightarrow> valid_digest (gap_notice_id n) \<and> gap_spool_seq n \<le> u64_max \<and> i64_ok (gap_occurred_at_ms n)"

lemma reason_of_name [simp]: "reason_of_name (reason_name r) = Some r"
  by (cases r) (simp_all add: reason_of_name_def)

lemma dec_enc_gap_notice: "notice_typed n \<Longrightarrow> dec_gap_notice (enc_gap_notice n) = Some n"
  unfolding dec_gap_notice_def enc_gap_notice_def struct_fields_def notice_typed_def i64_ok_def
  by (simp add: field_def)

lemma enc_gap_notice_exact: "notice_typed n \<Longrightarrow> json_exact (enc_gap_notice n)"
  by (simp add: enc_gap_notice_def notice_typed_def i64_ok_def)

section \<open>Files\<close>

text \<open>The third-party code as far as stored files depend on it.\<close>

definition file_laws :: "ctx \<Rightarrow> bool" where
  "file_laws X \<longleftrightarrow> digest_laws (lib X) \<and> aead_laws (lib X) \<and> json_laws (lib X) \<and> env_laws (ev X)"

definition file_holds :: "ctx \<Rightarrow> (json \<Rightarrow> 'a option) \<Rightarrow> bytes \<Rightarrow> 'a \<Rightarrow> bool" where
  "file_holds X dec b x \<longleftrightarrow> (\<exists>p. decrypt (lib X) (spool_key X) b = Inr p \<and> json_from_slice (lib X) dec p = Some x)"

lemma file_holds_unique: "file_holds X dec b x \<Longrightarrow> file_holds X dec b y \<Longrightarrow> x = y"
  by (auto simp: file_holds_def)

lemma file_holds_written:
  assumes "file_laws X" "json_exact v" "json_to_vec (lib X) v = Some p" "dec v = Some x"
    and "encrypt (lib X) (spool_key X) nonce p = Inr b" "length nonce = NONCE_BYTES"
  shows "file_holds X dec b x" "length b = length p + 56"
proof -
  have laws: "digest_laws (lib X)" "aead_laws (lib X)" "json_laws (lib X)" using assms(1) by (simp_all add: file_laws_def)
  show "file_holds X dec b x"
    using decrypt_back(1) [OF laws(1,2) assms(6,5)] json_from_slice_to_vec [OF laws(3) assms(2,3), of dec] assms(4)
    by (simp add: file_holds_def)
  show "length b = length p + 56" by (rule encrypt_length [OF laws(1,2) assms(6,5)])
qed

lemma keeps_spool_fields [simp]:
  "state_of (put_file p n s) = state_of s" "state_of (del_file p s) = state_of s"
  "storage_write_failed (put_file p n s) = storage_write_failed s"
  "storage_write_failed (del_file p s) = storage_write_failed s"
  "disk_ok (s\<lparr>state_of := st\<rparr>) \<longleftrightarrow> disk_ok s" "look (s\<lparr>state_of := st\<rparr>) = look s"
  by (simp_all add: put_file_def del_file_def disk_ok_def look_def fun_eq_iff)

text \<open>The files of some directories; records and notices are in two of them.\<close>

type_synonym store = "spool_dir path \<Rightarrow> node option"

definition store_in :: "spool_dir set \<Rightarrow> spool \<Rightarrow> store" where
  "store_in D s p = (if fst p \<in> D then look s p else None)"

abbreviation store_of :: "spool \<Rightarrow> store" where
  "store_of \<equiv> store_in {Pending, Gaps}"

definition record_in :: "ctx \<Rightarrow> store \<Rightarrow> stored_record \<Rightarrow> bool" where
  "record_in X f r \<longleftrightarrow> valid_stored_record (lib X) r \<and>
     (\<exists>q b. sr_spool_seq r = Some q \<and> f (Pending, pending_file_name q (sr_record_id r)) = Some (Regular b)
        \<and> length b \<le> MAX_ENCRYPTED_RECORD_BYTES \<and> file_holds X dec_stored_record b r)"

definition notice_in :: "ctx \<Rightarrow> store \<Rightarrow> gap_notice_v2 \<Rightarrow> bool" where
  "notice_in X f n \<longleftrightarrow> valid_gap_notice (lib X) n \<and>
     (\<exists>b. f (Gaps, gap_file_name (gap_spool_seq n) (gap_notice_id n)) = Some (Regular b)
        \<and> length b \<le> MAX_ENCRYPTED_GAP_BYTES \<and> file_holds X dec_gap_notice b n)"

definition gap_backed :: "ctx \<Rightarrow> store \<Rightarrow> nat \<Rightarrow> bool" where
  "gap_backed X f q \<longleftrightarrow> (\<exists>n. notice_in X f n \<and> gap_spool_seq n = q)"

definition backed :: "ctx \<Rightarrow> store \<Rightarrow> nat \<Rightarrow> bool" where
  "backed X f q \<longleftrightarrow> (\<exists>r. record_in X f r \<and> sr_spool_seq r = Some q) \<or> gap_backed X f q"

section \<open>Names\<close>

lemma dec020_value: "foldl dec_step (Some 0) (dec020 n) = Some n"
  by (simp add: dec020_def pad0_def dec_step_zeros dec_step_digits)

lemma dec020_inject: "dec020 n = dec020 m \<Longrightarrow> n = m"
  by (drule arg_cong [of _ _ "foldl dec_step (Some 0)"]) (simp only: dec020_value option.inject)

lemma dash_split:
  assumes "dec020 n @ CHR ''-'' # u = dec020 m @ CHR ''-'' # v"
  shows "n = m" "u = v"
proof -
  have "split_once (CHR ''-'') (dec020 n @ CHR ''-'' # u) = Some (dec020 n, u)"
    "split_once (CHR ''-'') (dec020 m @ CHR ''-'' # v) = Some (dec020 m, v)"
    by (rule split_once_append [OF dash_not_digit])+
  then have "Some (dec020 n, u) = Some (dec020 m, v)" by (simp only: assms)
  then show "n = m" "u = v" by (auto dest: dec020_inject)
qed

lemma pending_file_name_inject: "pending_file_name q r = pending_file_name q' r' \<longleftrightarrow> q = q' \<and> r = r'"
  using dash_split [of q "r @ PENDING_SUFFIX" q' "r' @ PENDING_SUFFIX"] by (auto simp: pending_file_name_def)

lemma gap_file_name_inject: "gap_file_name q n = gap_file_name q' n' \<longleftrightarrow> q = q' \<and> n = n'"
  using dash_split [of q "n @ GAP_SUFFIX" q' "n' @ GAP_SUFFIX"] by (auto simp: gap_file_name_def)

section \<open>What a change of one file keeps\<close>

lemma record_in_cong: "(\<And>n. f (Pending, n) = g (Pending, n)) \<Longrightarrow> record_in X f r \<longleftrightarrow> record_in X g r"
  by (simp add: record_in_def)

lemma notice_in_cong: "(\<And>n. f (Gaps, n) = g (Gaps, n)) \<Longrightarrow> notice_in X f n \<longleftrightarrow> notice_in X g n"
  by (simp add: notice_in_def)

lemma notice_in_pending [simp]: "notice_in X (f((Pending, n) := v)) r \<longleftrightarrow> notice_in X f r"
  by (rule notice_in_cong) simp

lemma record_in_gaps [simp]: "record_in X (f((Gaps, n) := v)) r \<longleftrightarrow> record_in X f r"
  by (rule record_in_cong) simp

lemma gap_backed_pending [simp]: "gap_backed X (f((Pending, n) := v)) q \<longleftrightarrow> gap_backed X f q"
  by (simp add: gap_backed_def)

lemma record_in_other:
  assumes "record_in X f r" "sr_spool_seq r = Some q" "q \<noteq> q'"
  shows "record_in X (f((Pending, pending_file_name q' i) := v)) r"
  using assms by (auto simp: record_in_def pending_file_name_inject)

lemma notice_in_other:
  assumes "notice_in X f n" "gap_spool_seq n \<noteq> q'"
  shows "notice_in X (f((Gaps, gap_file_name q' i) := v)) n"
  using assms by (auto simp: notice_in_def gap_file_name_inject)

lemma backed_pending_other: "backed X f q \<Longrightarrow> q \<noteq> q' \<Longrightarrow> backed X (f((Pending, pending_file_name q' i) := v)) q"
  unfolding backed_def using record_in_other by fastforce

lemma backed_gaps_other:
  assumes "backed X f q" "q \<noteq> q'"
  shows "backed X (f((Gaps, gap_file_name q' i) := v)) q"
  using assms notice_in_other unfolding backed_def gap_backed_def by fastforce

text \<open>Removing a pending file keeps a number that has its gap on the disk.\<close>

lemma backed_remove_pending:
  assumes "backed X f q" "q = q' \<Longrightarrow> gap_backed X f q"
  shows "backed X (f((Pending, pending_file_name q' i) := v)) q"
proof (cases "q = q'")
  case True
  with assms(2) show ?thesis by (simp add: backed_def)
qed (use assms(1) in \<open>rule backed_pending_other\<close>)

text \<open>
  The pending directory as this version of the program leaves it: every valid record has a
  sequence number and is under its own name.
\<close>

definition named :: "ctx \<Rightarrow> store \<Rightarrow> bool" where
  "named X f \<longleftrightarrow> (\<forall>name b r. f (Pending, name) = Some (Regular b) \<longrightarrow> file_holds X dec_stored_record b r \<longrightarrow>
     valid_stored_record (lib X) r \<longrightarrow>
     (\<exists>q. sr_spool_seq r = Some q \<and> name = pending_file_name q (sr_record_id r)))"

lemma named_remove: "named X f \<Longrightarrow> named X (f(p := None))"
  by (simp add: named_def)

lemma named_gaps [simp]: "named X (f((Gaps, n) := v)) \<longleftrightarrow> named X f"
  by (simp add: named_def)

lemma named_write:
  assumes "named X f" "file_holds X dec_stored_record b r" "sr_spool_seq r = Some q"
  shows "named X (f((Pending, pending_file_name q (sr_record_id r)) \<mapsto> Regular b))"
  unfolding named_def
proof (intro allI impI, goal_cases)
  case (1 name b' r')
  show ?case
  proof (cases "name = pending_file_name q (sr_record_id r)")
    case True
    with 1 have "file_holds X dec_stored_record b r'" by simp
    with assms(2) have "r' = r" by (rule file_holds_unique [rotated])
    with True assms(3) show ?thesis by blast
  next
    case False
    with 1(1) have "f (Pending, name) = Some (Regular b')" by simp
    with assms(1) 1(2,3) show ?thesis unfolding named_def by blast
  qed
qed

end
