(* ===== verification/Spool_Witnesses.thy ===== *)
theory Spool_Witnesses
  imports Edge_Witnesses Spool_Files
begin

text \<open>
  The theorems about the spool applied on a spool of the concrete instance: opened on an
  empty disk, and after the admission of one record.
\<close>

section \<open>A spool with one record\<close>

lemma toy_ctx_sel [simp]: "lib toy_ctx = toy_crates" "ev toy_ctx = calm_env" "config toy_ctx = toy_config"
  by (simp_all add: toy_ctx_def)

lemma toy_ids: "length (record_id toy_crates e) = 64" "length (stable_record_id toy_crates e) = 64"
  by (simp_all add: record_id_def stable_record_id_def hex_digest_length [OF toy_digest_laws])

lemma toy_prints: "json_exact v \<Longrightarrow> json_to_vec toy_crates v = Some (toy_json v)"
  by (simp add: toy_crates_def toy_to_vec_def)

lemma empty_look: "look empty_spool p = None"
  by (simp add: look_def empty_spool_def bt_get_def)

lemma toy_write:
  assumes "disk_ok s" "\<not> storage_write_failed s" "look s tmp = None" "\<And>n. look s dst \<noteq> Some (Special n)" "tmp \<noteq> dst"
  shows "\<exists>t. spool_write_atomic toy_ctx tmp dst b s = (Inr (), t) \<and> disk_ok t \<and> \<not> storage_write_failed t \<and>
    state_of t = state_of s \<and> look t = (look s)(dst \<mapsto> Regular b)"
proof (cases "look s dst")
  case None
  with assms show ?thesis
    by (simp add: spool_write_atomic_def write_atomic_def sync_directory_def run_simps cong: run_bind_cong run_match_cong)
      (auto simp: fun_eq_iff look_put look_del)
next
  case (Some n)
  with assms obtain c where "look s dst = Some (Regular c)" by (cases n) auto
  with assms show ?thesis
    by (simp add: spool_write_atomic_def write_atomic_def sync_directory_def run_simps cong: run_bind_cong run_match_cong)
      (auto simp: fun_eq_iff look_put look_del)
qed

lemma toy_encrypt:
  "\<exists>b. spool_encrypt toy_ctx p s = (Inr b, s\<lparr>tick := Suc (tick s)\<rparr>) \<and> length b = length p + 56"
proof -
  obtain b where b: "encrypt toy_crates (spool_key toy_ctx) (fresh_nonce calm_env (tick s)) p = Inr b"
    by (simp add: encrypt_def toy_crates_def toy_seal_def)
  have "length b = length p + 56"
    by (rule encrypt_length [OF toy_digest_laws toy_aead_laws _ b]) (simp add: calm_env_def NONCE_BYTES_def)
  with b show ?thesis by (simp add: spool_encrypt_def run_simps cong: run_bind_cong)
qed

lemma toy_temporary: "temporary_path toy_ctx s =
    (Inr (Tmp, uuid_text toy_crates (fresh_uuid calm_env (tick s)) @ ''.tmp''), s\<lparr>tick := Suc (tick s)\<rparr>)"
  by (simp add: temporary_path_def run_simps)

lemma toy_sequence:
  assumes "disk_ok s" "\<not> storage_write_failed s" "\<And>x. look s (Tmp, x) = None" "\<And>m. look s (Root, SEQUENCE_STATE_FILE) \<noteq> Some (Special m)"
    and "n \<le> u64_max" "x \<le> u64_max"
  shows "\<exists>t b. persist_sequence_state toy_ctx n x p [] s = (Inr (), t) \<and> disk_ok t \<and> \<not> storage_write_failed t \<and>
    state_of t = state_of s \<and> look t = (look s)((Root, SEQUENCE_STATE_FILE) \<mapsto> Regular b)"
proof -
  define q where "q = \<lparr>sq_version = 1, sq_next_spool_sequence = n, sq_expired_records_total = x,
     sq_counted_pending_expirations = [], sq_v1_ack_history_pruned = p\<rparr>"
  have "json_exact (enc_sequence_state toy_crates q)"
    using assms(5,6) by (simp add: q_def enc_sequence_state_def enc_counted_def u64_max_def)
  note print = toy_prints [OF this]
  obtain b where b: "spool_encrypt toy_ctx (toy_json (enc_sequence_state toy_crates q)) s = (Inr b, s\<lparr>tick := Suc (tick s)\<rparr>)"
    using toy_encrypt by blast
  obtain t where t: "spool_write_atomic toy_ctx (Tmp, uuid_text toy_crates (fresh_uuid calm_env (Suc (tick s))) @ ''.tmp'')
      (Root, SEQUENCE_STATE_FILE) b (s\<lparr>tick := Suc (Suc (tick s))\<rparr>) = (Inr (), t)"
    "disk_ok t" "\<not> storage_write_failed t" "state_of t = state_of s"
    "look t = (look s)((Root, SEQUENCE_STATE_FILE) \<mapsto> Regular b)"
    using toy_write [of "s\<lparr>tick := Suc (Suc (tick s))\<rparr>" "(Tmp, uuid_text toy_crates (fresh_uuid calm_env (Suc (tick s))) @ ''.tmp'')"
        "(Root, SEQUENCE_STATE_FILE)" b] assms(1-4) by auto
  from print b t(1) have "persist_sequence_state toy_ctx n x p [] s = (Inr (), t)"
    by (simp add: persist_sequence_state_def q_def run_simps toy_temporary cong: run_bind_cong)
  with t(2-) show ?thesis by blast
qed

definition toy_now :: int where
  "toy_now = 1700000000000"

definition toy_envelope1 :: receiver_envelope where
  "toy_envelope1 = toy_envelope ''t1''"

definition toy_stored :: stored_record where
  "toy_stored = \<lparr>sr_version = 2, sr_record_id = record_id toy_crates toy_envelope1,
     sr_stable_record_id = Some (stable_record_id toy_crates toy_envelope1), sr_spool_seq = Some 1,
     sr_admitted_at_ms = toy_now, sr_expires_at_ms = 1700000060000, sr_envelope = toy_envelope1\<rparr>"

definition toy_v1 :: hub_batch_record_v1 where
  "toy_v1 = \<lparr>b1_record_id = record_id toy_crates toy_envelope1, b1_received_at_ms = toy_now, b1_envelope = toy_envelope1\<rparr>"

definition toy_v2 :: hub_batch_record_v2 where
  "toy_v2 = \<lparr>b2_record_id = stable_record_id toy_crates toy_envelope1,
     b2_legacy_record_id = record_id toy_crates toy_envelope1, b2_spool_seq = 1, b2_received_at_ms = toy_now,
     b2_envelope = toy_envelope1\<rparr>"

lemma toy_length: "length (toy_json (enc_envelope toy_envelope1)) \<le> 400"
  by (simp add: toy_envelope1_def toy_envelope_def enc_envelope_def skip_none_def enc_u64_def enc_i64_def
      number_from_i64_def toy_len_def dec_digits.simps)

lemma toy_records:
  "json_to_vec toy_crates (enc_batch_record_v1 toy_v1) = Some (toy_json (enc_batch_record_v1 toy_v1))"
  "json_to_vec toy_crates (enc_batch_record_v2 toy_v2) = Some (toy_json (enc_batch_record_v2 toy_v2))"
  "json_to_vec toy_crates (enc_stored_record toy_stored) = Some (toy_json (enc_stored_record toy_stored))"
  using toy_envelope_ok(3)
  by (simp_all add: toy_prints enc_batch_record_v1_def enc_batch_record_v2_def enc_stored_record_def toy_v1_def toy_v2_def
      toy_stored_def toy_now_def toy_envelope1_def u64_max_def i64_min_def i64_max_def skip_none_def)

lemma toy_sizes:
  "length (toy_json (enc_batch_record_v1 toy_v1)) \<le> 1000"
  "length (toy_json (enc_batch_record_v2 toy_v2)) \<le> 1000"
  "length (toy_json (enc_stored_record toy_stored)) \<le> 1000"
  using toy_length toy_ids
  by (simp_all add: enc_batch_record_v1_def enc_batch_record_v2_def enc_stored_record_def toy_v1_def toy_v2_def
      toy_stored_def toy_now_def enc_i64_def enc_u64_def number_from_i64_def skip_none_def toy_len_def dec_digits.simps)

lemma toy_enqueue_runs:
  "\<exists>t b c. enqueue toy_ctx toy_envelope1 toy_now empty_spool = (Inr (Stored (record_id toy_crates toy_envelope1)), t) \<and>
     look t = (look empty_spool)((Pending, pending_file_name 1 (record_id toy_crates toy_envelope1)) \<mapsto> Regular b,
       (Root, SEQUENCE_STATE_FILE) \<mapsto> Regular c) \<and> \<not> storage_write_failed t"
proof -
  let ?p = "toy_json (enc_stored_record toy_stored)"
  let ?dst = "(Pending, pending_file_name 1 (record_id toy_crates toy_envelope1))"
  let ?tmp = "(Tmp, uuid_text toy_crates (fresh_uuid calm_env (Suc 0)) @ ''.tmp'')"
  obtain b where b: "spool_encrypt toy_ctx ?p empty_spool = (Inr b, empty_spool\<lparr>tick := Suc 0\<rparr>)" "length b = length ?p + 56"
    using toy_encrypt [of ?p empty_spool] by (auto simp: empty_spool_def)
  obtain t where t: "spool_write_atomic toy_ctx ?tmp ?dst b (empty_spool\<lparr>tick := Suc (Suc 0)\<rparr>) = (Inr (), t)"
    "disk_ok t" "\<not> storage_write_failed t" "look t = (look empty_spool)(?dst \<mapsto> Regular b)"
    using toy_write [of "empty_spool\<lparr>tick := Suc (Suc 0)\<rparr>" ?tmp ?dst b] empty_spool_ok
    by (auto simp: empty_look) (auto simp: empty_spool_def)
  define u where "u f = t\<lparr>state_of := f\<rparr>" for f
  have u: "disk_ok (u f)" "\<not> storage_write_failed (u f)" "look (u f) (Tmp, x) = None"
    "look (u f) (Root, SEQUENCE_STATE_FILE) \<noteq> Some (Special m)" for f x m
    using t(2-4) by (simp_all add: u_def empty_look)
  have "\<exists>t c. persist_sequence_state toy_ctx (Suc (Suc 0)) 0 False [] (u f) = (Inr (), t) \<and>
      look t = (look empty_spool)(?dst \<mapsto> Regular b, (Root, SEQUENCE_STATE_FILE) \<mapsto> Regular c) \<and> \<not> storage_write_failed t" for f
    using toy_sequence [OF u(1-4), of "Suc (Suc 0)" 0 False f] t(4) by (auto simp: u64_max_def u_def)
  then obtain v c where v: "persist_sequence_state toy_ctx (Suc (Suc 0)) 0 False [] (u f) = (Inr (), v f)"
    "look (v f) = (look empty_spool)(?dst \<mapsto> Regular b, (Root, SEQUENCE_STATE_FILE) \<mapsto> Regular (c f))"
    "\<not> storage_write_failed (v f)" for f
    by metis
  have val: "validate toy_envelope1 = Inr ()"
    using toy_envelope_ok(2) by (simp add: validate_iff toy_envelope1_def)
  have st: "state_of empty_spool = default_state" "storage_write_failed empty_spool = False"
    "next_spool_sequence default_state = 1" "stable_index default_state = []" "entries default_state = []"
    "gaps default_state = []" "pending_bytes default_state = 0" "expired_records default_state = 0"
    "v1_ack_history_pruned default_state = False" "counted_pending_expirations default_state = []"
    by (simp_all add: empty_spool_def default_state_def)
  have cfg: "max_bytes toy_config = 1048576" "max_records toy_config = 4" "retention_ms toy_config = 60000"
    "batch_max_bytes toy_config = 65536" by (simp_all add: toy_config_def)
  show ?thesis
    using toy_records [unfolded toy_v1_def toy_v2_def toy_stored_def] toy_sizes [unfolded toy_v1_def toy_v2_def toy_stored_def]
      b [unfolded toy_stored_def] t(1) v(1) [unfolded u_def] v(2,3)
    by (simp add: enqueue_def enqueue_new_def val st cfg run_simps Let_def toy_temporary bt_get_def checked_add_u64_def
        sat_add_u64_def u64_max_def u64_try_from_def sat_add_i64_def i64_max_def i64_min_def toy_now_def upd_state_def
        MAX_ENCRYPTED_RECORD_BYTES_def cong: run_bind_cong) blast
qed

definition one_spool :: spool where
  "one_spool = snd (enqueue toy_ctx toy_envelope1 toy_now empty_spool)"

lemma one_spool_run:
  "enqueue toy_ctx toy_envelope1 toy_now empty_spool = (Inr (Stored (record_id toy_crates toy_envelope1)), one_spool)"
  using toy_enqueue_runs by (auto simp: one_spool_def)

lemma one_spool_writes: "\<not> storage_write_failed one_spool"
  using toy_enqueue_runs by (auto simp: one_spool_def)

lemma empty_spool_init: "spool_init toy_ctx empty_spool" "spool_inv toy_ctx empty_spool"
proof -
  show i: "spool_init toy_ctx empty_spool"
    by (simp add: spool_init_def toy_ctx_ok empty_spool_ok) (simp add: empty_spool_def)
  show "spool_inv toy_ctx empty_spool" by (rule spool_sys.inv_init [OF i])
qed

lemma empty_distinct: "enqueue_distinct toy_ctx (state_of empty_spool) toy_envelope1"
  by (simp add: enqueue_distinct_def empty_spool_def default_state_def notice_ids_def bt_get_def)

lemma one_spool_step: "spool_step toy_ctx empty_spool one_spool"
  unfolding one_spool_def by (rule step_enqueue [OF empty_distinct])

lemma one_spool_inv: "spool_inv toy_ctx one_spool"
  by (rule spool_step_inv [OF one_spool_step empty_spool_init(2)])

lemma one_spool_admitted: "admitted toy_ctx toy_envelope1 toy_now default_state (state_of one_spool)"
proof -
  have e: "on (\<lambda>x. x = default_state) empty_spool" "state_of empty_spool = default_state"
    by (simp_all add: on_def empty_spool_ok) (simp_all add: empty_spool_def)
  have "triple (on (\<lambda>x. x = state_of empty_spool)) (enqueue toy_ctx toy_envelope1 toy_now)
    (\<lambda>r. on (\<lambda>st. r = Stored (record_id (lib toy_ctx) toy_envelope1)
         \<and> admitted toy_ctx toy_envelope1 toy_now (state_of empty_spool) st
       \<or> (\<exists>k. r = AlreadyPresent k \<and> st = state_of empty_spool
           \<and> bt_get (stable_index (state_of empty_spool)) (stable_record_id (lib toy_ctx) toy_envelope1) = Some k)))
    (\<lambda>_. on (\<lambda>st. st = state_of empty_spool \<or> admitted toy_ctx toy_envelope1 toy_now (state_of empty_spool) st))"
    by (rule enqueue_state) (use empty_spool_init(2) empty_distinct in \<open>simp_all add: spool_inv_def\<close>)
  from triple_Inr [OF this _ one_spool_run] e show ?thesis by (auto simp: on_def)
qed

lemma one_spool_facts: "receipts (state_of one_spool) = []" "gaps (state_of one_spool) = []"
  "live_seqs (state_of one_spool) = {1}" "length (entries (state_of one_spool)) = 1" "next_spool_sequence (state_of one_spool) = 2"
  using one_spool_admitted
  by (auto simp: admitted_def admit_entry_def default_state_def new_entry_def live_seqs_def)

section \<open>The theorems applied\<close>

theorem enqueue_all_or_nothing_witness:
  "admitted toy_ctx toy_envelope1 toy_now default_state (state_of one_spool) \<and> live_seqs (state_of one_spool) = {1}"
  using enqueue_all_or_nothing [OF empty_spool_init(2) empty_distinct one_spool_run]
  by (auto simp: admitted_def empty_spool_def default_state_def live_seqs_def)

theorem reachable_spool_consistent_witness:
  "0 < length (entries (state_of one_spool)) \<and> length (entries (state_of one_spool)) \<le> 4 \<and>
    pending_bytes (state_of one_spool) = bt_total e_encrypted_bytes (entries (state_of one_spool)) \<and>
    pending_bytes (state_of one_spool) \<le> 1048576 \<and> 1 < next_spool_sequence (state_of one_spool)"
  using reachable_spool_consistent [OF empty_spool_init(1) r_into_rtranclp [of "spool_step toy_ctx", OF one_spool_step] refl]
    one_spool_facts
  by (simp add: toy_config_def)

definition silent_ack_v2 :: hub_ack_v2 where
  "silent_ack_v2 = \<lparr>a2_version = 2, a2_batch_id = toy_digest, a2_accepted_record_ids = [], a2_accepted_gap_notice_ids = []\<rparr>"

definition silent_ack_v1 :: hub_ack_v1 where
  "silent_ack_v1 = \<lparr>a1_version = 1, a1_batch_id = toy_digest, a1_accepted_record_ids = []\<rparr>"

theorem acknowledge_v2_releases_only_named_witness:
  "live_seqs (state_of (snd (acknowledge_v2 toy_ctx silent_ack_v2 one_spool))) = {1}"
  using acknowledge_v2_releases_only_named [OF one_spool_inv prod.collapse [symmetric], of silent_ack_v2] one_spool_facts
  by (auto simp: acked_v2_def silent_ack_v2_def bt_get_def)

theorem acknowledge_v1_releases_only_named_witness:
  "live_seqs (state_of (snd (acknowledge toy_ctx silent_ack_v1 one_spool))) = {1}"
  using acknowledge_v1_releases_only_named [OF one_spool_inv prod.collapse [symmetric], of silent_ack_v1] one_spool_facts
  by (auto simp: acked_v1_def silent_ack_v1_def bt_get_def)

theorem serving_releases_nothing_witness:
  "live_seqs (state_of (snd (next_batch_v2 toy_ctx toy_now one_spool))) = {1} \<and>
    live_seqs (state_of (snd (expire_due toy_ctx (toy_now + 60000) one_spool))) = {1}"
  using serving_releases_nothing [OF one_spool_inv, of "snd (next_batch_v2 toy_ctx toy_now one_spool)" toy_now]
    serving_releases_nothing [OF one_spool_inv, of "snd (expire_due toy_ctx (toy_now + 60000) one_spool)" "toy_now + 60000"]
    one_spool_facts
  by simp

theorem build_batch_v2_returns_witness:
  "loop_fuel 2 (build_batch_v2_once toy_ctx) one_spool = Some (build_batch_v2 toy_ctx one_spool)"
  using build_batch_v2_returns [OF one_spool_inv] one_spool_facts by (simp add: numeral_2_eq_2)

theorem prune_receipts_bounds_witness:
  "prune_receipts toy_ctx one_spool = (Inr (), one_spool) \<and> loop_fuel 1 (prune_once toy_ctx) one_spool = Some (Inr (), one_spool) \<and>
    length (receipts (state_of one_spool)) \<le> MAX_ACK_RECEIPTS"
proof -
  have "prune_receipts toy_ctx one_spool = (Inr (), one_spool)"
    by (simp add: prune_receipts_def loopR_def prune_once_def run_simps one_spool_facts)
  with prune_receipts_bounds [OF one_spool_inv this] one_spool_facts show ?thesis by simp
qed

text \<open>Opening on an empty disk.\<close>

definition blank :: "spool \<Rightarrow> bool" where
  "blank s \<longleftrightarrow> files s = (\<lambda>_. []) \<and> state_of s = default_state \<and> \<not> storage_write_failed s"

lemma blank_tick [simp]: "blank (s\<lparr>tick := n\<rparr>) \<longleftrightarrow> blank s"
  by (simp add: blank_def)

lemma blank_look: "blank s \<Longrightarrow> look s p = None" "blank s \<Longrightarrow> disk_ok s"
  by (simp_all add: blank_def look_def disk_ok_def bt_get_def)

lemma default_fields [simp]: "next_spool_sequence default_state = 1" "expired_records default_state = 0"
  "entries default_state = []" "gaps default_state = []" "receipts default_state = []"
  "v1_ack_history_pruned default_state = False" "counted_pending_expirations default_state = []"
  by (simp_all add: default_state_def)

lemma listing [simp]: "dir_order calm_env n xs = xs"
  by (simp add: calm_env_def)

lemma blank_scan:
  assumes "blank s"
  shows "\<exists>t. recover_prepare toy_ctx s = (Inr (), t) \<and> blank t"
    "\<exists>t. recover_gaps toy_ctx s = (Inr (), t) \<and> blank t"
    "\<exists>t. recover_pending toy_ctx now s = (Inr (), t) \<and> blank t"
    "\<exists>t. recover_receipts toy_ctx s = (Inr (), t) \<and> blank t"
  using assms
  by (simp_all add: recover_prepare_def recover_gaps_def recover_pending_def recover_receipts_def read_dir_def
      ensure_quarantine_capacity_def run_simps bt_keys_def toy_config_def sat_add_u64_def u64_max_def
      migration_start_def max_of_def checked_add_u64_def sort_recovered_def map_filter_simps
      blank_def case_prod_beta cong: run_bind_cong)

lemma blank_counters:
  assumes "blank s"
  shows "\<exists>t. recover_counters toy_ctx s = (Inr (), t) \<and> blank t"
proof -
  have "apply_sequence_state None 1 1 default_state = default_state"
    by (simp add: apply_sequence_state_def default_state_def expired_gap_count_def)
  with assms show ?thesis
    by (simp add: recover_counters_def recover_sequence_state_def run_simps blank_look max_of_def checked_add_u64_def
        u64_max_def upd_state_def blank_def cong: run_bind_cong run_match_cong)
qed

lemma no_receipts: "receipts (state_of s) = [] \<Longrightarrow> prune_receipts toy_ctx s = (Inr (), s)"
  by (simp add: prune_receipts_def loopR_def prune_once_def run_simps)

lemma none_due: "state_of s = default_state \<Longrightarrow> expire_due toy_ctx now s = (Inr 0, s)"
  by (simp add: expire_due_def due_entries_def run_simps)

lemma blank_finish:
  assumes "blank s"
  shows "\<exists>t b. recover_finish toy_ctx now s = (Inr (), t) \<and> disk_ok t \<and> look t = (look s)((Root, SEQUENCE_STATE_FILE) \<mapsto> Regular b)"
proof -
  obtain t b where t: "persist_sequence_state toy_ctx (Suc 0) 0 False [] s = (Inr (), t)" "disk_ok t"
    "state_of t = default_state" "look t = (look s)((Root, SEQUENCE_STATE_FILE) \<mapsto> Regular b)"
    using toy_sequence [of s "Suc 0" 0 False] blank_look [OF assms] assms by (auto simp: blank_def u64_max_def)
  have st: "state_of s = default_state" "s\<lparr>state_of := default_state\<lparr>counted_pending_expirations := []\<rparr>\<rparr> = s"
    using assms by (simp_all add: blank_def default_state_def)
  from t(1,3) have "recover_finish toy_ctx now s = (Inr (), t)"
    by (simp add: recover_finish_def st persist_current_def none_due no_receipts run_simps upd_state_def cong: run_bind_cong)
  with t(2,4) show ?thesis by blast
qed

lemma blank_recover:
  assumes "blank s"
  shows "\<exists>t b. recover toy_ctx now s = (Inr (), t) \<and> disk_ok t \<and> look t = (\<lambda>p. if p = (Root, SEQUENCE_STATE_FILE) then Some (Regular b) else None)"
proof -
  obtain s1 where s1: "recover_prepare toy_ctx s = (Inr (), s1)" "blank s1" using blank_scan(1) [OF assms] by blast
  obtain s2 where s2: "recover_gaps toy_ctx s1 = (Inr (), s2)" "blank s2" using blank_scan(2) [OF s1(2)] by blast
  obtain s3 where s3: "recover_pending toy_ctx now s2 = (Inr (), s3)" "blank s3" using blank_scan(3) [OF s2(2)] by blast
  obtain s4 where s4: "recover_counters toy_ctx s3 = (Inr (), s4)" "blank s4" using blank_counters [OF s3(2)] by blast
  obtain s5 where s5: "recover_receipts toy_ctx s4 = (Inr (), s5)" "blank s5" using blank_scan(4) [OF s4(2)] by blast
  obtain t b where t: "recover_finish toy_ctx now s5 = (Inr (), t)" "disk_ok t"
    "look t = (look s5)((Root, SEQUENCE_STATE_FILE) \<mapsto> Regular b)"
    using blank_finish [OF s5(2)] by blast
  from s1(1) s2(1) s3(1) s4(1) s5(1) t(1) have "recover toy_ctx now s = (Inr (), t)" by (simp add: recover_def run_bind)
  with t(2,3) blank_look(1) [OF s5(2)] show ?thesis by (auto simp: fun_eq_iff)
qed

lemma toy_open_runs: "\<exists>t. spool_open toy_ctx False toy_now empty_spool = (Inr (), t)"
proof -
  have cfg: "validate_config toy_config = Inr ()" by (simp add: validate_config_def toy_config_def)
  have n: "empty_spool\<lparr>tick := n, state_of := default_state\<lparr>v1_ack_history_pruned := False\<rparr>,
      storage_write_failed := False\<rparr> = empty_spool\<lparr>tick := n\<rparr>" for n
    by (simp add: empty_spool_def default_state_def)
  have blank: "blank (empty_spool\<lparr>tick := n\<rparr>)" for n by (simp add: blank_def empty_spool_def)
  obtain t b where t: "recover toy_ctx toy_now (empty_spool\<lparr>tick := n\<rparr>) = (Inr (), t n)" "disk_ok (t n)"
    "look (t n) = (\<lambda>p. if p = (Root, SEQUENCE_STATE_FILE) then Some (Regular (b n)) else None)" for n
    using blank_recover [OF blank, of toy_now] by metis
  have w: "\<exists>u. write_current_spool_format_marker toy_ctx Fresh (t n) = (Inr (), u)" for n
    using t(2,3) [of n]
    by (simp add: write_current_spool_format_marker_def toy_temporary write_atomic_def sync_directory_def run_simps
        SEQUENCE_STATE_FILE_def FORMAT_MARKER_FILE_def cong: run_bind_cong run_match_cong)
  show ?thesis
    using t(1) w
    by (simp add: spool_open_def cfg n run_simps acquire_spool_lock_def create_directories_def read_spool_format_marker_def
       empty_look cong: run_bind_cong run_match_cong)
qed

theorem open_establishes_invariant_witness:
  "\<exists>t. spool_open toy_ctx False toy_now empty_spool = (Inr (), t) \<and> disk_ok t \<and> state_inv toy_ctx (state_of t)"
proof -
  obtain t where "spool_open toy_ctx False toy_now empty_spool = (Inr (), t)" using toy_open_runs by blast
  with open_establishes_invariant [OF toy_ctx_ok empty_spool_ok this] show ?thesis by blast
qed

end
