(* ===== verification/Spool_Durable.thy ===== *)
theory Spool_Durable
  imports Spool_Files
begin

text \<open>
  Durability of an open spool: whatever call fails, a sequence number that is backed by
  the disk stays backed, by its record or by a gap notice, until it is acknowledged. The
  predicates relate the in-memory state to the files of the pending and gap directories.
\<close>

section \<open>Predicates on the state and its files\<close>

definition holding :: "spool_dir set \<Rightarrow> (spool_state \<Rightarrow> store \<Rightarrow> bool) \<Rightarrow> spool \<Rightarrow> bool" where
  "holding D P s \<longleftrightarrow> disk_ok s \<and> P (state_of s) (store_in D s)"

abbreviation having :: "(spool_state \<Rightarrow> store \<Rightarrow> bool) \<Rightarrow> spool \<Rightarrow> bool" where
  "having \<equiv> holding {Pending, Gaps}"

lemma having_mono: "holding D P s \<Longrightarrow> (\<And>st f. P st f \<Longrightarrow> Q st f) \<Longrightarrow> holding D Q s"
  by (simp add: holding_def)

lemma having_on: "holding D (\<lambda>st f. P st \<and> Q st f) s \<longleftrightarrow> on P s \<and> holding D Q s"
  by (auto simp: holding_def on_def)

lemma store_in_upd [simp]: "store_in D (s\<lparr>state_of := st\<rparr>) = store_in D s" "store_in D (s\<lparr>tick := n\<rparr>) = store_in D s"
  "store_in D (s\<lparr>storage_write_failed := b\<rparr>) = store_in D s"
  by (simp_all add: store_in_def look_def fun_eq_iff)

lemma having_tick [simp]: "holding D P (s\<lparr>tick := n\<rparr>) \<longleftrightarrow> holding D P s"
  by (simp add: holding_def)

lemma triple_upd_having: "(\<And>st f. P st f \<Longrightarrow> Q (g st) f) \<Longrightarrow> triple (holding D P) (upd_state g) (\<lambda>_. holding D Q) E"
  unfolding upd_state_def by (rule triple_modify) (simp add: holding_def disk_ok_def)

lemma triple_gets_having:
  "(\<And>st. triple (holding D (\<lambda>x f. x = st \<and> P st f)) (g st) Q E) \<Longrightarrow> triple (holding D P) (bindR (gets state_of) g) Q E"
  by (auto simp: triple_def bindR_def gets_def holding_def)

lemma triple_having_state:
  "(\<And>st. triple (holding D (\<lambda>x f. x = st \<and> P st f)) m Q E) \<Longrightarrow> triple (holding D P) m Q E"
  by (rule tripleI) (metis (mono_tags, lifting) holding_def triple_Inr, metis (mono_tags, lifting) holding_def triple_Inl)

section \<open>Calls that keep the stored files\<close>

named_theorems calm \<open>operations that keep every predicate on the state and its stored files\<close>

lemma calm_touch:
  fixes m :: "(spool, 'e, 'a) proc"
  assumes "\<And>s0. keeps (touches {p. fst p \<notin> D} s0) m"
  shows "keeps (holding D P) m"
proof (rule keepsI)
  fix s assume s: "holding D P s"
  have t: "touches {p. fst p \<notin> D} s (snd (m s))" by (rule keepsD [OF assms]) simp
  have "store_in D (snd (m s)) = store_in D s"
    using touches_look [OF t] s by (auto simp: store_in_def fun_eq_iff holding_def)
  with s t show "holding D P (snd (m s))" by (simp add: holding_def touches_disk_ok touches_state)
qed

lemma calm_io [calm]:
  "keeps (holding D P) (os_call E)" "keeps (holding D P) (fs_metadata E p)" "keeps (holding D P) (fs_read E p)"
  "keeps (holding D P) (fs_read_dir E d)" "keeps (holding D P) (new_uuid C E)" "keeps (holding D P) (new_nonce E)"
  "keeps (holding D P) (sync_directory E d)"
  by (rule calm_touch, rule touch; simp)+

text \<open>Sets of directories that hold data: the others receive temporary and quarantined files.\<close>

definition data_dirs :: "spool_dir set \<Rightarrow> bool" where
  "data_dirs D \<longleftrightarrow> D \<subseteq> {Pending, Gaps, Receipts}"

lemma calm_dirs [calm]: "data_dirs {Pending, Gaps}" "data_dirs {Receipts}"
  "data_dirs D \<Longrightarrow> Root \<notin> D" "Receipts \<notin> {Pending, Gaps}" "Pending \<notin> {Receipts}" "Gaps \<notin> {Receipts}"
  by (auto simp: data_dirs_def)

lemma calm_other_dirs [calm]:
  "d \<notin> D \<Longrightarrow> keeps (holding D P) (fs_remove_file E (d, n))"
  "d \<notin> D \<Longrightarrow> data_dirs D \<Longrightarrow> keeps (holding D P) (write_atomic E (Tmp, t) (d, n) b)"
  "d \<notin> D \<Longrightarrow> data_dirs D \<Longrightarrow> keeps (holding D P) (quarantine_file C E (d, n))"
  by (rule calm_touch, rule touch; auto simp: data_dirs_def)+

lemma calm_map_err [calm]: "keeps I m \<Longrightarrow> keeps I (map_err g m)"
  by (rule triple_map_err)

lemma calm_latch [calm]: "keeps (holding D P) (modify (\<lambda>s. s\<lparr>storage_write_failed := b\<rparr>))"
  by (rule keepsI) (simp add: holding_def modify_def disk_ok_def)

lemmas calm_flow [calm] = quiet_if quiet_for_fold quiet_for_each

lemma calm_spool_write [calm]:
  "d \<notin> D \<Longrightarrow> data_dirs D \<Longrightarrow> keeps (holding D P) (spool_write_atomic X (Tmp, t) (d, n) b)"
  unfolding spool_write_atomic_def by (intro keeps_bind keeps_match keeps_pure calm)

lemma calm_spool_encrypt [calm]: "keeps (holding D P) (spool_encrypt X b)"
  unfolding spool_encrypt_def by (intro keeps_bind keeps_match keeps_pure calm)

lemma calm_spool_decrypt [calm]: "keeps (holding D P) (spool_decrypt X b)"
  unfolding spool_decrypt_def by (intro keeps_bind keeps_match keeps_pure calm)

lemma calm_read_entry [calm]: "keeps (holding D P) (read_entry X e)"
  unfolding read_entry_def by (intro keeps_bind keeps_match keeps_pure calm)

lemma calm_path_exists [calm]: "keeps (holding D P) (path_exists X p)"
  unfolding path_exists_def by (intro keeps_bind keeps_match keeps_pure calm)

lemma calm_quarantine_capacity [calm]: "keeps (holding D P) (ensure_quarantine_capacity X n b)"
  unfolding ensure_quarantine_capacity_def by (auto intro!: keeps_bind keeps_match keeps_pure calm split: prod.split)

lemma calm_remove_other [calm]: "d \<notin> D \<Longrightarrow> keeps (holding D P) (remove_if_present X (d, n))"
  unfolding remove_if_present_def by (intro keeps_bind keeps_match keeps_pure calm)

lemma calm_quarantine_other [calm]: "d \<notin> D \<Longrightarrow> data_dirs D \<Longrightarrow> keeps (holding D P) (quarantine_file_bounded X (d, n))"
  unfolding quarantine_file_bounded_def by (intro keeps_bind keeps_match keeps_pure calm)

text \<open>A temporary path is in the temporary directory.\<close>

lemma triple_temporary_bind:
  "(\<And>n. triple (holding D P) (f (Tmp, n)) Q E) \<Longrightarrow> triple (holding D P) (bindR (temporary_path X) f) Q E"
  by (auto simp: triple_def temporary_path_def bindR_def new_uuid_def ok_def holding_def)

lemma calm_persist_sequence_state [calm]: "data_dirs D \<Longrightarrow> keeps (holding D P) (persist_sequence_state X n t b c)"
  unfolding persist_sequence_state_def
  by (intro keeps_bind keeps_pure calm triple_temporary_bind)

lemma calm_persist_current [calm]: "data_dirs D \<Longrightarrow> keeps (holding D P) (persist_current X)"
  unfolding persist_current_def by (intro keeps_bind keeps_pure calm)

lemma calm_sequence_state [calm]: "keeps (holding D P) (recover_sequence_state X)"
  unfolding recover_sequence_state_def by (intro keeps_bind keeps_match keeps_pure calm)

lemma triple_calm_bind:
  "keeps (holding D P) m \<Longrightarrow> (\<And>x. triple (holding D P) (f x) Q E) \<Longrightarrow> (\<And>e s. holding D P s \<Longrightarrow> E e s) \<Longrightarrow>
     triple (holding D P) (bindR m f) Q E"
  by (rule triple_bind [where R = "\<lambda>_. holding D P"]) (auto elim: triple_conseq)

section \<open>Calls that change one stored file\<close>

definition put :: "spool_dir path \<Rightarrow> node option \<Rightarrow> (spool_state \<Rightarrow> store \<Rightarrow> bool) \<Rightarrow> spool_state \<Rightarrow> store \<Rightarrow> bool" where
  "put p v P st f \<longleftrightarrow> (\<exists>g. P st g \<and> f = g(p := v))"

lemma putI: "P st g \<Longrightarrow> put p v P st (g(p := v))"
  by (auto simp: put_def)

lemma write_store:
  assumes "d \<in> {Pending, Gaps}"
  shows "triple (having P) (spool_write_atomic X (Tmp, t) (d, n) b) (\<lambda>_. having (put (d, n) (Some (Regular b)) P))
    (\<lambda>_. having (\<lambda>st f. P st f \<or> put (d, n) (Some (Regular b)) P st f))"
proof -
  let ?new = "put (d, n) (Some (Regular b)) P"
  have cases: "disk_ok u \<and> state_of u = state_of s \<and>
      (store_of u = store_of s \<or> store_of u = (store_of s)((d, n) \<mapsto> Regular b)) \<and>
      (r = Inr () \<longrightarrow> store_of u = (store_of s)((d, n) \<mapsto> Regular b))"
    if s: "having P s" "write_atomic (ev X) (Tmp, t) (d, n) b s = (r, u)" for s r u
  proof -
    have ok: "disk_ok s" using s(1) by (simp add: holding_def)
    have ne: "(Tmp, t) \<noteq> (d, n)" using assms by auto
    have "touches {(Tmp, t), (d, n)} s u"
      using keepsD [OF touch_write_atomic [of "(Tmp, t)" "{(Tmp, t), (d, n)}" "(d, n)" s "ev X" b], of s] s(2) by simp
    then show ?thesis
      using write_atomic_cases [OF ok ne s(2)] assms ok
      by (auto simp: touches_disk_ok touches_state store_in_def fun_eq_iff)
  qed
  have w: "triple (having P) (write_atomic (ev X) (Tmp, t) (d, n) b) (\<lambda>_. having ?new)
    (\<lambda>_. having (\<lambda>st f. P st f \<or> ?new st f))"
  proof (rule tripleI)
    fix s r u assume "having P s" "write_atomic (ev X) (Tmp, t) (d, n) b s = (Inr r, u)"
    with cases [OF this] show "having ?new u" by (auto simp: holding_def put_def)
  next
    fix s e u assume "having P s" "write_atomic (ev X) (Tmp, t) (d, n) b s = (Inl e, u)"
    with cases [OF this] show "having (\<lambda>st f. P st f \<or> ?new st f) u" by (auto simp: holding_def put_def)
  qed
  have latch: "triple (having Q) (bindR (modify (\<lambda>s. s\<lparr>storage_write_failed := True\<rparr>)) (\<lambda>_. fail e)) R (\<lambda>_. having Q)" for Q R and e :: spool_error
    by (rule triple_calm_bind [OF calm_latch triple_fail])
  show ?thesis
    unfolding spool_write_atomic_def
    by (rule triple_gets_bind, rule triple_if, rule triple_fail, simp add: holding_def,
        rule triple_weak [OF triple_match [OF w _ latch]]) (auto intro: triple_ok)
qed

lemma remove_store:
  assumes "d \<in> {Pending, Gaps}"
  shows "triple (having P) (remove_if_present X (d, n)) (\<lambda>_. having (put (d, n) None P)) (\<lambda>_. having P)"
proof -
  have "having (put (d, n) None P) (del_file (d, n) s)" if "having P s" for s
    using that assms by (auto simp: holding_def put_def store_in_def look_del fun_eq_iff intro!: exI [of _ "store_of s"])
  moreover have "having (put (d, n) None P) s" if "having P s" "look s (d, n) = None" for s
    using that assms by (auto simp: holding_def put_def store_in_def fun_eq_iff intro!: exI [of _ "store_of s"])
  ultimately show ?thesis
    unfolding remove_if_present_def fs_remove_file_def
    by (intro tripleI) (auto simp: proc_defs os_call_def Let_def split: option.splits node.splits if_splits)
qed


text \<open>Moving a stored file to quarantine removes it; after an error it is removed or not.\<close>

lemma quarantine_holding:
  assumes "d \<in> D" "data_dirs D"
  shows "triple (holding D P) (quarantine_file_bounded X (d, n)) (\<lambda>_. holding D (put (d, n) None P))
    (\<lambda>_. holding D (\<lambda>st f. P st f \<or> put (d, n) None P st f))"
proof -
  let ?E = "\<lambda>st f. P st f \<or> put (d, n) None P st f"
  have "holding D (put (d, n) None P) (put_file (Quarantine, m) x (del_file (d, n) s))" if "holding D P s" for s m x
    using that assms
    by (auto simp: holding_def put_def data_dirs_def store_in_def look_del look_put fun_eq_iff intro!: exI [of _ "store_in D s"])
  then have move: "triple (holding D P) (map_err map_io_error (fs_rename (ev X) (d, n) (Quarantine, m)))
      (\<lambda>_. holding D (put (d, n) None P)) (\<lambda>_. holding D ?E)" for m
    unfolding fs_rename_def
    by (intro triple_map_err tripleI)
      (auto simp: proc_defs os_call_def Let_def elim: having_mono split: option.splits node.splits if_splits)
  have sync: "triple (holding D (put (d, n) None P)) (bindR (sync_directory (ev X) Quarantine) (\<lambda>_. sync_directory (ev X) d))
      (\<lambda>_. holding D (put (d, n) None P)) (\<lambda>_. holding D ?E)"
    by (rule triple_calm_bind [OF calm_io(7)], rule triple_conseq [OF calm_io(7) [where P = "put (d, n) None P"]])
      (auto elim: having_mono)
  have q: "triple (holding D P) (quarantine_file (lib X) (ev X) (d, n)) (\<lambda>_. holding D (put (d, n) None P)) (\<lambda>_. holding D ?E)"
    unfolding quarantine_file_def fst_conv
    by (rule triple_calm_bind [OF calm_io(5)], rule triple_bind [OF move sync]) (auto elim: having_mono)
  show ?thesis
    unfolding quarantine_file_bounded_def
    by (rule triple_calm_bind, intro keeps_match keeps_pure calm, rule triple_calm_bind [OF calm_quarantine_capacity q])
      (auto elim: having_mono)
qed

lemmas quarantine_store = quarantine_holding [OF _ calm_dirs(1)]

section \<open>The state agrees with its files\<close>

definition entry_typed :: "entry \<Rightarrow> bool" where
  "entry_typed e \<longleftrightarrow> e_spool_seq e \<le> u64_max \<and> i64_ok (e_admitted_at_ms e) \<and> i64_ok (e_expires_at_ms e)"

text \<open>
  Every gap notice of the state is on the disk, every entry has values of the types of the
  sources, pending records are under their own names, and the sequence numbers in
  \<open>B\<close> are backed.
\<close>

definition durable :: "ctx \<Rightarrow> nat set \<Rightarrow> spool_state \<Rightarrow> store \<Rightarrow> bool" where
  "durable X B st f \<longleftrightarrow> bt_ok (gaps st) \<and>
     (\<forall>k g. bt_get (gaps st) k = Some g \<longrightarrow> notice_in X f (g_notice g)) \<and>
     (\<forall>k e. bt_get (entries st) k = Some e \<longrightarrow> entry_typed e) \<and> named X f \<and>
     (\<forall>q \<in> B. backed X f q)"

lemma durable_cong:
  "durable X B st f \<Longrightarrow> gaps st' = gaps st \<Longrightarrow> bt_get (entries st') \<subseteq>\<^sub>m bt_get (entries st) \<Longrightarrow> durable X B st' f"
  unfolding durable_def by (metis (no_types, lifting) domI map_le_def)

lemma durable_gap: "durable X B st f \<Longrightarrow> has_gap q st \<Longrightarrow> gap_backed X f q"
  unfolding durable_def has_gap_def gap_backed_def by blast

lemma durable_remove_pending:
  assumes "durable X B st f" "q \<in> B \<Longrightarrow> gap_backed X f q"
  shows "durable X B st (f((Pending, pending_file_name q i) := None))"
  using assms by (auto simp: durable_def intro: backed_remove_pending named_remove)

lemma durable_remove_gap:
  assumes "durable X B st f" "bt_get (gaps st) k = Some g" "gap_spool_seq (g_notice g) \<notin> B"
    and uniq: "\<And>k' g'. bt_get (gaps st) k' = Some g' \<Longrightarrow> gap_spool_seq (g_notice g') = gap_spool_seq (g_notice g) \<Longrightarrow> k' = k"
  shows "durable X B (remove_gap g k st) (f((Gaps, gap_file_name (gap_spool_seq (g_notice g)) i) := v))"
proof -
  let ?q = "gap_spool_seq (g_notice g)"
  have "notice_in X (f((Gaps, gap_file_name ?q i) := v)) (g_notice g')"
    if "bt_get (gaps st) k' = Some g'" "k' \<noteq> k" for k' g'
    by (rule notice_in_other) (use that uniq [OF that(1)] assms(1) in \<open>auto simp: durable_def\<close>)
  moreover have "backed X (f((Gaps, gap_file_name ?q i) := v)) q" if "q \<in> B" for q
    by (rule backed_gaps_other) (use that assms(1,3) in \<open>auto simp: durable_def\<close>)
  ultimately show ?thesis using assms(1) by (simp add: durable_def remove_gap_def)
qed

lemma durable_write_gap:
  assumes "durable X B st f" "\<not> has_gap (gap_spool_seq n) st"
    and n: "notice_in X (f((Gaps, gap_file_name (gap_spool_seq n) (gap_notice_id n)) := v)) n"
  shows "durable X B st (f((Gaps, gap_file_name (gap_spool_seq n) (gap_notice_id n)) := v))"
    and "durable X B (insert_gap n b p st) (f((Gaps, gap_file_name (gap_spool_seq n) (gap_notice_id n)) := v))"
proof -
  let ?f = "f((Gaps, gap_file_name (gap_spool_seq n) (gap_notice_id n)) := v)"
  have old: "notice_in X ?f (g_notice g)" if "bt_get (gaps st) k = Some g" for k g
    using that assms(1,2) by (intro notice_in_other) (auto simp: durable_def has_gap_def)
  have bk: "backed X ?f q" if "q \<in> B" for q
  proof (cases "q = gap_spool_seq n")
    case True
    with n show ?thesis by (auto simp: backed_def gap_backed_def)
  next
    case False
    with that assms(1) show ?thesis by (intro backed_gaps_other) (simp_all add: durable_def)
  qed
  show "durable X B st ?f" using assms(1) old bk by (simp add: durable_def)
  show "durable X B (insert_gap n b p st) ?f"
    using assms(1) old bk n by (auto simp: durable_def insert_gap_def bt_get_insert)
qed

section \<open>Gap notices\<close>

lemma notice_typed_gap: "digest_laws C \<Longrightarrow> e_spool_seq e \<le> u64_max \<Longrightarrow> i64_ok t \<Longrightarrow> notice_typed (gap_notice C e t r)"
  by (simp add: notice_typed_def gap_notice_def gap_notice_for_identity_def Let_def record_id_from_sha256_def hex_valid_digest)

text \<open>What encryption returns, when it returns.\<close>

lemma triple_encrypt_bind:
  assumes "env_laws (ev X)"
    and "\<And>b nonce. encrypt (lib X) (spool_key X) nonce p = Inr b \<Longrightarrow> length nonce = NONCE_BYTES \<Longrightarrow>
      triple (having P) (f b) Q E"
    and "\<And>e s. having P s \<Longrightarrow> E e s"
  shows "triple (having P) (bindR (spool_encrypt X p) f) Q E"
  unfolding spool_encrypt_def
proof (rule triple_pre, goal_cases)
  case (1 s)
  have n: "length (fresh_nonce (ev X) (tick s)) = NONCE_BYTES" using assms(1) by (simp add: env_laws_def NONCE_BYTES_def)
  show ?case
  proof (cases "encrypt (lib X) (spool_key X) (fresh_nonce (ev X) (tick s)) p")
    case (Inl e)
    with assms(3) 1 show ?thesis by (simp add: triple_def bindR_def new_nonce_def lift_result_def)
  next
    case (Inr b)
    have "triple (\<lambda>t. t = s\<lparr>tick := Suc (tick s)\<rparr>) (f b) Q E" by (rule triple_weak [OF assms(2) [OF Inr n]]) (use 1 in simp)
    with Inr show ?thesis by (simp add: triple_def bindR_def new_nonce_def lift_result_def)
  qed
qed

lemma bt_get_values: "bt_get m k = Some v \<Longrightarrow> v \<in> set (bt_values m)"
  by (force simp: bt_get_def bt_values_def dest: map_of_SomeD)

lemma persist_gap_durable:
  assumes X: "file_laws X" and e: "0 < e_spool_seq e" "e_spool_seq e \<le> u64_max" "i64_ok t"
  shows "keeps (having (durable X B)) (persist_gap_locked X e t r)"
  unfolding persist_gap_locked_def Let_def
proof (rule triple_gets_having, rule triple_if, rule triple_ok, erule having_mono, simp, intro triple_failIf_bind triple_ok_or_bind, goal_cases)
  case (1 st p)
  let ?n = "gap_notice (lib X) e t r"
  let ?I = "\<lambda>x f. x = st \<and> durable X B st f"
  have laws: "digest_laws (lib X)" "env_laws (ev X)" using X by (simp_all add: file_laws_def)
  note ty = notice_typed_gap [OF laws(1) e(2,3), of r]
  have none: "\<not> has_gap (gap_spool_seq ?n) st"
    using 1(2) bt_get_values by (fastforce simp: has_gap_def list_ex_iff)
  show ?case
  proof (rule triple_encrypt_bind [OF laws(2)], intro triple_ok_or_bind triple_failIf_bind, goal_cases)
    case (1 b nonce len)
    note w = file_holds_written [where dec = dec_gap_notice, OF X enc_gap_notice_exact [OF ty] \<open>json_to_vec (lib X) _ = Some p\<close> dec_enc_gap_notice [OF ty] 1(1,2)]
    have len: "length b \<le> MAX_ENCRYPTED_GAP_BYTES" using 1(3,4) by (simp add: u64_try_from_def split: if_splits)
    have new: "notice_in X (f((Gaps, gap_file_name (gap_spool_seq ?n) (gap_notice_id ?n)) \<mapsto> Regular b)) ?n" for f
      using w(1) len valid_gap_notice_gap_notice [OF laws(1) e(1)] by (auto simp: notice_in_def)
    let ?w = "put (Gaps, gap_file_name (e_spool_seq e) (gap_notice_id ?n)) (Some (Regular b)) ?I"
    have upd: "triple (having ?w) (bindR (upd_state (insert_gap ?n len
        (Gaps, gap_file_name (e_spool_seq e) (gap_notice_id ?n)))) (\<lambda>_. ok z)) (\<lambda>_. having (durable X B)) F" for z F
      by (rule triple_bind [OF triple_upd_having triple_ok])
        (use durable_write_gap(2) [OF _ none new] in \<open>auto simp: put_def\<close>)
    have err: "having (durable X B) s" if "having (\<lambda>st f. ?I st f \<or> ?w st f) s" for s
      using that by (rule having_mono) (use durable_write_gap(1) [OF _ none new] in \<open>auto simp: put_def\<close>)
    show ?case
      by (rule triple_temporary_bind, rule triple_bind [OF triple_conseq [OF write_store [of Gaps ?I]] upd])
        (auto intro: err)
  qed (auto elim: having_mono)
qed (auto elim: having_mono)

section \<open>Custody together with durability\<close>

definition kept :: "ctx \<Rightarrow> spool_state \<Rightarrow> nat set \<Rightarrow> nat set \<Rightarrow> spool_state \<Rightarrow> store \<Rightarrow> bool" where
  "kept X st0 A B st f \<longleftrightarrow> custody X st0 A st \<and> durable X B st f"

lemma having_kept: "having (kept X st0 A B) s \<longleftrightarrow> on (custody X st0 A) s \<and> having (durable X B) s"
  by (auto simp: holding_def on_def kept_def)

text \<open>Updates of the state that custody allows and that leave gaps and entries alone.\<close>

lemma kept_upd:
  "(\<And>st. custody X st0 A st \<Longrightarrow> custody X st0 A (g st)) \<Longrightarrow> (\<And>st. gaps (g st) = gaps st) \<Longrightarrow>
    (\<And>st. entries (g st) = entries st) \<Longrightarrow> keeps (having (kept X st0 A B)) (upd_state g)"
  by (rule triple_upd_having) (auto simp: kept_def intro: durable_cong)

lemma kept_uncount [calm]: "keeps (having (kept X st0 A B)) (upd_state (uncount q))"
  by (rule kept_upd) (auto simp: uncount_def intro: custody_uncount [unfolded uncount_def])

text \<open>An entry that may go: its number is released, or its gap notice is in the state.\<close>

definition may_go :: "nat set \<Rightarrow> nat \<Rightarrow> spool_state \<Rightarrow> bool" where
  "may_go A q st \<longleftrightarrow> q \<in> A \<or> has_gap q st"

lemma entry_path: "base_inv X st \<Longrightarrow> bt_get (entries st) (e_record_id e) = Some e \<Longrightarrow>
    e_path e = (Pending, pending_file_name (e_spool_seq e) (e_record_id e))"
proof -
  assume "base_inv X st" "bt_get (entries st) (e_record_id e) = Some e"
  then have "entry_ok st (e_record_id e) e" unfolding base_inv_def entries_inv_def by blast
  then show ?thesis by (simp add: entry_ok_def)
qed

text \<open>The setting of a phase: what is released and what is to be kept are apart.\<close>

definition phase :: "ctx \<Rightarrow> nat set \<Rightarrow> nat set \<Rightarrow> bool" where
  "phase X A B \<longleftrightarrow> file_laws X \<and> ctx_ok X \<and> A \<inter> B = {}"

definition leaving :: "ctx \<Rightarrow> spool_state \<Rightarrow> nat set \<Rightarrow> nat set \<Rightarrow> entry \<Rightarrow> spool_state \<Rightarrow> store \<Rightarrow> bool" where
  "leaving X st0 A B e st f \<longleftrightarrow> kept X st0 A B st f \<and> bt_get (entries st) (e_record_id e) = Some e \<and>
     may_go A (e_spool_seq e) st"

lemma leaving_path: "leaving X st0 A B e st f \<Longrightarrow> e_path e = (Pending, pending_file_name (e_spool_seq e) (e_record_id e))"
  by (rule entry_path [of X st]) (simp_all add: leaving_def kept_def custody_def)

lemma leaving_remove:
  assumes "phase X A B" "leaving X st0 A B e st f"
  shows "leaving X st0 A B e st (f(e_path e := None))"
proof -
  have "durable X B st f" "may_go A (e_spool_seq e) st" using assms(2) by (simp_all add: leaving_def kept_def)
  moreover have "gap_backed X f (e_spool_seq e)" if "e_spool_seq e \<in> B"
    using that calculation assms(1) durable_gap [of X B st f] by (auto simp: may_go_def phase_def)
  ultimately have "durable X B st (f(e_path e := None))"
    unfolding leaving_path [OF assms(2)] by (intro durable_remove_pending)
  with assms(2) show ?thesis by (simp add: leaving_def kept_def)
qed

lemma leaving_put: "phase X A B \<Longrightarrow> put (e_path e) None (leaving X st0 A B e) st f \<Longrightarrow> leaving X st0 A B e st f"
  unfolding put_def using leaving_remove by blast

lemma leaving_drop:
  assumes "leaving X st0 A B e st f"
  shows "kept X st0 A B (drop_entry e st) f"
proof -
  have k: "custody X st0 A st" "durable X B st f" "bt_get (entries st) (e_record_id e) = Some e"
    "e_spool_seq e \<in> A \<or> has_gap (e_spool_seq e) st"
    using assms by (simp_all add: leaving_def kept_def may_go_def)
  have "durable X B (drop_entry e st) f"
    by (rule durable_cong [OF k(2)]) (auto simp: drop_entry_def map_le_def dom_def)
  with custody_drop [OF k(1,3,4)] show ?thesis by (simp add: kept_def)
qed

lemma drop_kept: "triple (having (leaving X st0 A B e)) (upd_state (drop_entry e)) (\<lambda>_. having (kept X st0 A B)) F"
  by (rule triple_upd_having) (rule leaving_drop)

lemma leaving_kept: "having (leaving X st0 A B e) s \<Longrightarrow> having (kept X st0 A B) s"
  by (erule having_mono) (simp add: leaving_def)

text \<open>The two ways a pending file goes: deleted, or moved to quarantine.\<close>

lemma remove_leaving:
  assumes "phase X A B"
  shows "keeps (having (leaving X st0 A B e)) (remove_if_present X (e_path e))"
proof (rule triple_pre, goal_cases)
  case (1 s)
  then have p: "e_path e = (Pending, pending_file_name (e_spool_seq e) (e_record_id e))"
    by (auto simp: holding_def intro: leaving_path)
  show ?case
    by (rule triple_conseq [OF remove_store [of Pending "leaving X st0 A B e" X "pending_file_name (e_spool_seq e) (e_record_id e)", folded p]])
      (use 1 in \<open>auto elim!: having_mono intro: leaving_put [OF assms] simp: p\<close>)
qed

lemma quarantine_leaving:
  assumes "phase X A B"
  shows "keeps (having (leaving X st0 A B e)) (quarantine_file_bounded X (e_path e))"
proof (rule triple_pre, goal_cases)
  case (1 s)
  then have p: "e_path e = (Pending, pending_file_name (e_spool_seq e) (e_record_id e))"
    by (auto simp: holding_def intro: leaving_path)
  show ?case
    by (rule triple_conseq [OF quarantine_store [of Pending "leaving X st0 A B e" X "pending_file_name (e_spool_seq e) (e_record_id e)", folded p]])
      (use 1 in \<open>auto elim!: having_mono intro: leaving_put [OF assms] simp: p\<close>)
qed

section \<open>Operations\<close>

lemma persist_gap_kept:
  assumes P: "phase X A B" and e: "bt_get (entries st0) (e_record_id e) = Some e" "entry_typed e" "i64_ok t"
  shows "triple (having (\<lambda>st f. kept X st0 A B st f \<and> R (entries st))) (persist_gap_locked X e t r)
    (\<lambda>_. having (\<lambda>st f. kept X st0 A B st f \<and> R (entries st) \<and> may_go A (e_spool_seq e) st))
    (\<lambda>_. having (\<lambda>st f. kept X st0 A B st f \<and> R (entries st)))"
proof (rule triple_pre, goal_cases)
  case (1 s)
  have X: "file_laws X" "ctx_ok X" using P by (simp_all add: phase_def)
  have "base_inv X st0" using 1 by (simp add: holding_def kept_def custody_def)
  then have pos: "0 < e_spool_seq e" using entry_facts(1) e(1) by blast
  have le: "e_spool_seq e \<le> u64_max" using e(2) by (simp add: entry_typed_def)
  show ?case
    by (rule triple_conseq [OF triple_conj [OF persist_gap_custody [OF X(2) e(1), where R = R and A = A]
          persist_gap_durable [OF X(1) pos le e(3), where B = B]]])
      (use 1 in \<open>auto simp: holding_def on_def kept_def may_go_def\<close>)
qed

lemma quarantine_kept:
  assumes P: "phase X A B" and e: "bt_get (entries st0) (e_record_id e) = Some e" "entry_typed e"
  shows "keeps (having (kept X st0 A B)) (quarantine_runtime_entry X e)"
  unfolding quarantine_runtime_entry_def
proof (rule triple_gets_having, rule triple_if, goal_cases)
  case (1 st)
  then show ?case by (intro triple_ok) (auto elim: having_mono)
next
  case (2 st)
  let ?R = "\<lambda>es. bt_get es (e_record_id e) = Some e"
  have pre: "kept X st0 A B x f \<and> ?R (entries x)" if "x = st \<and> kept X st0 A B st f" for x f
    using that 2 custody_get [of X st0 A st e] e(1) by (simp add: kept_def)
  have gap: "triple (having (\<lambda>st f. kept X st0 A B st f \<and> ?R (entries st)))
      (persist_gap_locked X e (e_admitted_at_ms e) IntegrityQuarantine)
      (\<lambda>_. having (leaving X st0 A B e)) (\<lambda>_. having (kept X st0 A B))"
    by (rule triple_conseq [OF persist_gap_kept [OF P e, where R = ?R]])
      (use e(2) in \<open>auto simp: entry_typed_def leaving_def elim: having_mono\<close>)
  have moved: "keeps (having (leaving X st0 A B e)) (matchR (quarantine_file_bounded X (e_path e)) (\<lambda>_. ok ())
      (\<lambda>error. if error \<noteq> Io then fail error
         else bindR (path_exists X (e_path e)) (\<lambda>present.
           if present then fail error else sync_directory (ev X) Pending)))"
    by (intro keeps_match keeps_bind keeps_pure calm quarantine_leaving [OF P])
  have corrupt: "keeps (having (kept X st0 A B)) (upd_state (\<lambda>st. st\<lparr>corrupt_records := g st\<rparr>))" for g
    by (rule kept_upd) (auto intro: custody_corrupt)
  show ?case
    by (rule triple_weak, rule triple_bind [OF gap], rule triple_bind [OF triple_conseq [OF moved]],
        assumption, assumption, erule leaving_kept, rule triple_bind [OF drop_kept corrupt], erule having_mono, rule pre)
qed

lemma remove_admitted_kept:
  assumes P: "phase X A B"
  shows "triple (having (\<lambda>st f. kept X st0 A B st f \<and> may_go A (ra_spool_seq a) st)) (remove_admitted_record X a)
    (\<lambda>_. having (kept X st0 A B)) (\<lambda>_. having (kept X st0 A B))"
  unfolding remove_admitted_record_def Let_def
proof (rule triple_gets_having, goal_cases)
  case (1 st)
  have un: "keeps (having (kept X st0 A B)) (if b then upd_state (uncount q) else ok ())" for b q
    by (intro calm keeps_pure)
  show ?case
  proof (cases "admitted_entry st a")
    case None
    show ?thesis unfolding None option.case
      by (rule triple_weak [OF keeps_bind [OF un keeps_pure(1)]]) (auto elim: having_mono)
  next
    case (Some e)
    note e = admitted_entry_Some [OF Some]
    show ?thesis unfolding Some option.case
      by (rule triple_weak, rule triple_bind [OF triple_conseq [OF remove_leaving [OF P, of st0 e]]],
          assumption, assumption, erule leaving_kept,
          rule triple_bind [OF drop_kept], rule keeps_bind [OF un keeps_pure(1)])
        (use e in \<open>auto simp: leaving_def elim!: having_mono\<close>)
  qed
qed

lemma gap_seq_unique:
  "base_inv X st \<Longrightarrow> bt_get (gaps st) k = Some g \<Longrightarrow> bt_get (gaps st) k' = Some g' \<Longrightarrow>
    gap_spool_seq (g_notice g') = gap_spool_seq (g_notice g) \<Longrightarrow> k' = k"
  unfolding base_inv_def gaps_inv_def by metis

lemma gap_path:
  assumes "base_inv X st" "bt_get (gaps st) k = Some g"
  shows "g_path g = (Gaps, gap_file_name (gap_spool_seq (g_notice g)) k)"
proof -
  have "gap_ok (lib X) k g" using assms unfolding base_inv_def gaps_inv_def by blast
  then show ?thesis by (simp add: gap_ok_def)
qed

lemma physical_gap_kept:
  assumes P: "phase X A B" and c: "custody X st0 A st" and g: "bt_get (gaps st) n = Some g"
    and q: "gap_spool_seq (g_notice g) \<in> A"
  shows "triple (having (\<lambda>x f. x = st \<and> kept X st0 A B st f))
    (bindR (remove_if_present X (g_path g)) (\<lambda>_. bindR (upd_state (remove_gap g n)) (\<lambda>_. ok z)))
    (\<lambda>_. having (kept X st0 A B)) (\<lambda>_. having (kept X st0 A B))"
proof -
  let ?I = "\<lambda>x f. x = st \<and> kept X st0 A B st f"
  note inv = custody_base [OF c]
  note path = gap_path [OF inv g]
  have upd: "kept X st0 A B (remove_gap g n x) f" if "put (g_path g) None ?I x f" for x f
  proof -
    from that obtain h where x: "x = st" and d: "durable X B st h" and f: "f = h(g_path g := None)"
      by (auto simp: put_def kept_def)
    have "durable X B (remove_gap g n st) f"
      unfolding f path by (rule durable_remove_gap [OF d g]) (use P q gap_seq_unique [OF inv g] in \<open>auto simp: phase_def\<close>)
    with custody_remove_gap [OF c g q] x show ?thesis by (simp add: kept_def)
  qed
  have rm: "triple (having ?I) (remove_if_present X (g_path g)) (\<lambda>_. having (put (g_path g) None ?I))
      (\<lambda>_. having (kept X st0 A B))"
    unfolding path by (rule triple_conseq [OF remove_store [of Gaps ?I]]) (auto elim: having_mono)
  show ?thesis
    by (rule triple_bind [OF rm], rule triple_bind [OF triple_upd_having [where Q = "kept X st0 A B"]], erule upd, rule keeps_pure)
qed

lemma expired_backing_kept:
  assumes P: "phase X A B" and c: "custody X st0 A st"
    and n: "\<And>q. (n, q) \<in> notice_ids (lib X) st0 \<Longrightarrow> q \<in> A"
  shows "triple (having (\<lambda>x f. x = st \<and> kept X st0 A B st f)) (remove_expired_gap_backing X n)
    (\<lambda>_. having (kept X st0 A B)) (\<lambda>_. having (kept X st0 A B))"
  unfolding remove_expired_gap_backing_def
proof (rule triple_gets_having, goal_cases)
  case (1 x)
  show ?case
  proof (rule triple_pre, goal_cases)
    case (1 s)
    then have x: "x = st" by (simp add: holding_def)
    show ?case
    proof (cases "find (\<lambda>e. bt_contains (counted_pending_expirations x) (e_spool_seq e)
          \<and> gap_notice_id (gap_notice (lib X) e (e_expires_at_ms e) RetentionExpired) = n) (bt_values (entries x))")
      case None
      show ?thesis unfolding None option.case by (rule triple_ok) (use 1 in \<open>auto elim: having_mono\<close>)
    next
      case (Some e)
      have "(n, e_spool_seq e) \<in> notice_ids (lib X) st"
        using find_Some [OF Some] gap_notice_id_time [of "lib X" e "e_expires_at_ms e" RetentionExpired 0] x
        unfolding notice_ids_def by blast
      then have "e_spool_seq e \<in> A" using n custody_notice_ids [OF c] by blast
      then show ?thesis unfolding Some option.case
        by (intro triple_bind [OF triple_weak [OF remove_admitted_kept [OF P]]] keeps_bind calm keeps_pure)
          (use 1 in \<open>auto simp: admission_of_def may_go_def elim!: having_mono\<close>)
    qed
  qed
qed

lemma complete_gap_kept:
  assumes P: "phase X A B" and n: "\<And>q. (n, q) \<in> notice_ids (lib X) st0 \<Longrightarrow> q \<in> A"
  shows "keeps (having (kept X st0 A B)) (complete_gap X fl n)"
  unfolding complete_gap_def
proof (rule triple_gets_having, rule triple_pre, goal_cases)
  case (1 st s)
  then have c: "custody X st0 A st" by (simp add: holding_def kept_def)
  show ?case
  proof (cases "bt_get (gaps st) n")
    case (Some g)
    have q: "gap_spool_seq (g_notice g) \<in> A"
      using n custody_notice_ids [OF c gap_facts(1) [OF custody_base [OF c] Some]] by blast
    show ?thesis unfolding Some option.case
      by (rule triple_weak [OF physical_gap_kept [OF P c Some q]]) (use 1 in simp)
  next
    case None
    show ?thesis unfolding None option.case
      by (rule triple_weak, rule triple_bind [OF expired_backing_kept [OF P c n] keeps_pure(1)]) (use 1 in simp_all)
  qed
qed

lemma complete_removals_kept:
  assumes P: "phase X A B" and r: "receipt_seqs (lib X) st0 r \<subseteq> A"
  shows "keeps (having (kept X st0 A B)) (complete_removals X r fl)"
  unfolding complete_removals_def
proof (rule keeps_bind)
  have a: "ra_spool_seq a \<in> A" if "a \<in> set (rc_accepted_admissions r)" for a
    using r that by (auto simp: receipt_seqs_def)
  show "keeps (having (kept X st0 A B)) (for_fold (rc_accepted_admissions r) fl (\<lambda>fl a.
      bindR (remove_admitted_record X a) (\<lambda>removed. ok (fst fl \<or> removed, snd fl))))"
    by (rule triple_for_fold, rule triple_bind [OF triple_weak [OF remove_admitted_kept [OF P]] keeps_pure(1)])
      (auto elim: having_mono simp: a may_go_def)
  fix fl'
  show "keeps (having (kept X st0 A B)) (for_fold (rc_accepted_gap_notice_ids r) fl' (complete_gap X))"
    using r by (intro triple_for_fold complete_gap_kept P) (auto simp: receipt_seqs_def)
qed

lemma complete_receipt_kept:
  "phase X A B \<Longrightarrow> receipt_seqs (lib X) st0 r \<subseteq> A \<Longrightarrow> keeps (having (kept X st0 A B)) (complete_receipt X r)"
  unfolding complete_receipt_def
  by (intro keeps_bind complete_removals_kept calm keeps_pure)

lemma kept_entry:
  assumes "kept X st0 A B st f" "e \<in> set (bt_values (entries st))"
  shows "bt_get (entries st0) (e_record_id e) = Some e" "entry_typed e"
proof -
  have c: "custody X st0 A st" using assms(1) by (simp add: kept_def)
  have e: "bt_get (entries st) (e_record_id e) = Some e" by (rule entry_get [OF custody_base [OF c] assms(2)])
  then show "bt_get (entries st0) (e_record_id e) = Some e"
    using c unfolding custody_def map_le_def dom_def by (metis (mono_tags, lifting) mem_Collect_eq option.distinct(1))
  show "entry_typed e" using assms(1) e unfolding kept_def durable_def by blast
qed

text \<open>Reading the state gives what holds of it, and the phase goes on.\<close>

lemma keeps_gets_kept:
  assumes "\<And>st f. kept X st0 A B st f \<Longrightarrow> keeps (having (kept X st0 A B)) (g st)"
  shows "keeps (having (kept X st0 A B)) (bindR (gets state_of) g)"
proof (rule triple_gets_having, rule triple_pre, goal_cases)
  case (1 st s)
  then have "keeps (having (kept X st0 A B)) (g st)" by (intro assms [of st "store_of s"]) (simp add: holding_def)
  then show ?case by (rule triple_weak) (use 1 in \<open>auto elim: having_mono\<close>)
qed

lemma expire_entry_kept:
  assumes P: "phase X A B" and e: "bt_get (entries st0) (e_record_id e) = Some e" "entry_typed e"
  shows "keeps (having (kept X st0 A B)) (expire_entry X b e)"
proof -
  have gap: "triple (having (kept X st0 A B)) (persist_gap_locked X e (e_expires_at_ms e) RetentionExpired)
      (\<lambda>_. having (\<lambda>st f. kept X st0 A B st f \<and> may_go A (e_spool_seq e) st)) (\<lambda>_. having (kept X st0 A B))"
    by (rule triple_conseq [OF persist_gap_kept [OF P e, where R = "\<lambda>_. True"]])
      (use e(2) in \<open>auto simp: entry_typed_def\<close>)
  have rm: "triple (having (\<lambda>st f. kept X st0 A B st f \<and> may_go A (e_spool_seq e) st))
      (remove_admitted_record X (admission_of e)) (\<lambda>_. having (kept X st0 A B)) (\<lambda>_. having (kept X st0 A B))"
    by (rule triple_weak [OF remove_admitted_kept [OF P]]) (simp add: admission_of_def)
  show ?thesis
    unfolding expire_entry_def
    by (rule triple_match [OF gap], rule triple_bind [OF rm]) (intro keeps_bind keeps_pure calm)+
qed

lemma expire_due_kept:
  assumes P: "phase X A B"
  shows "keeps (having (kept X st0 A B)) (expire_due X now)"
  unfolding expire_due_def Let_def
proof (rule keeps_gets_kept, goal_cases)
  case (1 st f)
  obtain counted n where cn: "count_expired st (due_entries st now) (counted_pending_expirations st) 0 = (counted, n)"
    by fastforce
  have ok: "bt_ok counted"
    using count_expired_ok [of "counted_pending_expirations st" st "due_entries st now" 0] cn 1
    by (simp add: kept_def custody_def base_inv_def maps_ok_def)
  have "custody X st0 A (st\<lparr>expired_records := total, counted_pending_expirations := counted\<rparr>)"
    if "custody X st0 A st" for st total
    by (rule custody_cong [OF that base_inv_cong [OF _ _ _ _ _ _ _ _ custody_base [OF that]]]) (use ok in auto)
  then have upd: "keeps (having (kept X st0 A B)) (upd_state (\<lambda>st. st\<lparr>expired_records := total, counted_pending_expirations := counted\<rparr>))"
    for total by (intro kept_upd) auto
  have each: "keeps (having (kept X st0 A B)) (expire_entry X b e)" if "e \<in> set (due_entries st now)" for b e
    by (rule expire_entry_kept [OF P]) (use kept_entry [OF 1 due_entries_set [OF that]] in auto)
  show ?case
    unfolding cn prod.case by (intro keeps_bind calm keeps_pure upd triple_for_fold each)
qed

section \<open>Batches\<close>

lemma batch_v1_loop_kept:
  assumes P: "phase X A B"
    and es: "\<And>e. e \<in> set es \<Longrightarrow> bt_get (entries st0) (e_record_id e) = Some e \<and> entry_typed e"
  shows "keeps (having (kept X st0 A B)) (batch_v1_loop X es records n)"
  using es
proof (induction es arbitrary: records n)
  case Nil
  show ?case unfolding batch_v1_loop.simps by (rule keeps_pure)
next
  case (Cons e es)
  have IH: "keeps (having (kept X st0 A B)) (batch_v1_loop X es records n)" for records n
    using Cons by simp
  have e: "bt_get (entries st0) (e_record_id e) = Some e" "entry_typed e" using Cons.prems by simp_all
  show ?case
    unfolding batch_v1_loop.simps Let_def
    by (intro calm keeps_bind keeps_match keeps_pure IH quarantine_kept [OF P e])
qed

lemma build_batch_kept: "phase X A B \<Longrightarrow> keeps (having (kept X st0 A B)) (build_batch X)"
  unfolding build_batch_def
  by (rule keeps_gets_kept, intro keeps_bind keeps_pure batch_v1_loop_kept) (auto dest: kept_entry)

lemma next_batch_kept: "phase X A B \<Longrightarrow> keeps (having (kept X st0 A B)) (next_batch X now)"
  unfolding next_batch_def by (intro keeps_bind keeps_pure expire_due_kept build_batch_kept)

lemma candidate_item_kept:
  assumes P: "phase X A B"
    and c: "\<And>e. c = CandRecord e \<Longrightarrow> bt_get (entries st0) (e_record_id e) = Some e \<and> entry_typed e"
  shows "keeps (having (kept X st0 A B)) (candidate_item X counted c)"
proof (cases c)
  case (CandRecord e)
  with c have e: "bt_get (entries st0) (e_record_id e) = Some e" "entry_typed e" by auto
  show ?thesis unfolding candidate_item_def CandRecord batch_candidate_v2.case
    by (intro calm keeps_bind keeps_match keeps_pure quarantine_kept [OF P e])
next
  case (CandGap g)
  show ?thesis unfolding candidate_item_def CandGap batch_candidate_v2.case by (rule keeps_pure)
qed

lemma batch_v2_loop_kept:
  assumes P: "phase X A B"
    and cs: "\<And>e. CandRecord e \<in> set cs \<Longrightarrow> bt_get (entries st0) (e_record_id e) = Some e \<and> entry_typed e"
  shows "keeps (having (kept X st0 A B)) (batch_v2_loop X counted cs a)"
  using cs
proof (induction cs arbitrary: a)
  case Nil
  show ?case unfolding batch_v2_loop.simps by (rule keeps_pure)
next
  case (Cons c cs)
  have IH: "keeps (having (kept X st0 A B)) (batch_v2_loop X counted cs a)" for a using Cons by simp
  have item: "keeps (having (kept X st0 A B)) (candidate_item X counted c)"
    by (rule candidate_item_kept [OF P]) (use Cons.prems in auto)
  show ?case
    unfolding batch_v2_loop.simps
    by (intro calm keeps_bind keeps_pure item) (auto split: option.split intro!: keeps_bind IH)
qed

lemma build_batch_v2_kept: "phase X A B \<Longrightarrow> keeps (having (kept X st0 A B)) (build_batch_v2 X)"
  unfolding build_batch_v2_def build_batch_v2_once_def Let_def
  by (rule keeps_loopR, rule keeps_gets_kept, intro keeps_bind keeps_pure calm batch_v2_loop_kept)
    (auto simp: batch_candidates_record dest: kept_entry)

lemma next_batch_v2_kept: "phase X A B \<Longrightarrow> keeps (having (kept X st0 A B)) (next_batch_v2 X now)"
  unfolding next_batch_v2_def by (intro keeps_bind expire_due_kept build_batch_v2_kept)

section \<open>Receipts and acknowledgements\<close>

lemma prune_kept: "keeps (having (kept X st0 A B)) (prune_receipts X)"
proof -
  have rm: "keeps (having (kept X st0 A B)) (remove_if_present X (re_path r))"
    if "oldest_receipt (receipts st) = Some r" "kept X st0 A B st f" for r st f
  proof -
    have "base_inv X st" using that(2) by (simp add: kept_def custody_def)
    then have "receipts_inv st" "bt_ok (receipts st)" by (simp_all add: base_inv_def maps_ok_def)
    moreover have "r \<in> set (bt_values (receipts st))" by (rule oldest_receipt_in [OF that(1)])
    ultimately obtain n where "re_path r = (Receipts, n)" unfolding receipts_inv_def by (metis bt_values_iff)
    then show ?thesis by (simp add: calm)
  qed
  have upd: "keeps (having (kept X st0 A B)) (upd_state (\<lambda>st. st\<lparr>receipts := bt_remove k (receipts st)\<rparr>))"
    "keeps (having (kept X st0 A B)) (upd_state (\<lambda>st. st\<lparr>v1_ack_history_pruned := b\<rparr>))" for k b
    by (rule kept_upd; auto intro: custody_receipts custody_pruned)+
  show ?thesis
    unfolding prune_receipts_def prune_once_def
  proof (rule keeps_loopR, rule keeps_gets_kept, rule triple_if, rule keeps_pure, rule triple_ok_or_bind, goal_cases)
    case (1 st f r)
    show ?case by (intro keeps_bind keeps_pure calm upd rm [OF 1(3,1)])
  qed simp
qed

lemma take_sequence_kept:
  "triple (having (kept X st0 A B)) take_receipt_sequence
     (\<lambda>n. having (\<lambda>st f. kept X st0 A B st f \<and> n < next_receipt_sequence st)) (\<lambda>_. having (kept X st0 A B))"
proof -
  have "triple (having (durable X B)) take_receipt_sequence (\<lambda>_. having (durable X B)) (\<lambda>_. having (durable X B))"
    unfolding take_receipt_sequence_def
    by (intro keeps_bind keeps_pure triple_upd_having) (auto intro: durable_cong)
  from triple_conj [OF take_sequence_custody [of X st0 A] this] show ?thesis
    by (rule triple_conseq) (auto simp: holding_def on_def kept_def)
qed

lemma store_receipt_kept:
  "triple (having (\<lambda>st f. kept X st0 A B st f \<and> rc_sequence r < next_receipt_sequence st)) (store_receipt X r)
     (\<lambda>_. having (kept X st0 A B)) (\<lambda>_. having (kept X st0 A B))"
proof -
  have "keeps (having (durable X B)) (store_receipt X r)"
    unfolding store_receipt_def Let_def
    by (intro keeps_bind keeps_pure calm triple_temporary_bind triple_upd_having) (auto intro: durable_cong)
  from triple_conj [OF store_receipt_custody [of X st0 A r] this] show ?thesis
    by (rule triple_conseq) (auto simp: holding_def on_def kept_def)
qed

lemma receipt_tail_kept:
  assumes "phase X A B" "receipt_seqs (lib X) st0 r \<subseteq> A"
  shows "triple (having (\<lambda>st f. kept X st0 A B st f \<and> rc_sequence r < next_receipt_sequence st))
    (bindR (store_receipt X r) (\<lambda>_. bindR (complete_receipt X r) (\<lambda>_. bindR (prune_receipts X) (\<lambda>_. ok z))))
    (\<lambda>_. having (kept X st0 A B)) (\<lambda>_. having (kept X st0 A B))"
  by (rule triple_bind [OF store_receipt_kept],
      intro keeps_bind complete_receipt_kept assms prune_kept keeps_pure)

text \<open>The end of a new acknowledgement: the receipt, the removals, the pruning.\<close>

lemma new_receipt_kept:
  assumes P: "phase X A B"
    and seqs: "\<And>st adm n. custody X st0 A st \<Longrightarrow> admissions st = Inr adm \<Longrightarrow> receipt_seqs (lib X) st0 (receipt n adm) \<subseteq> A"
    and r: "\<And>n adm. rc_sequence (receipt n adm) = n"
  shows "keeps (having (kept X st0 A B)) (bindR (gets state_of) (\<lambda>st.
    bindR (lift_result (admissions st)) (\<lambda>adm.
    bindR take_receipt_sequence (\<lambda>n.
    bindR (store_receipt X (receipt n adm)) (\<lambda>_.
    bindR (complete_receipt X (receipt n adm)) (\<lambda>_.
    bindR (prune_receipts X) (\<lambda>_.
    ok (z (receipt n adm)))))))))"
proof (rule keeps_gets_kept, rule triple_lift_bind, goal_cases)
  case (1 st f adm)
  have "custody X st0 A st" using 1(1) by (simp add: kept_def)
  note seqs = seqs [OF this 1(2)]
  show ?case
    by (rule triple_bind [OF take_sequence_kept], rule triple_weak [OF receipt_tail_kept [OF P seqs]])
      (simp add: r)
qed simp

lemma acknowledge_v2_kept:
  assumes P: "phase X (acked_v2 X st0 a) B"
  shows "triple (having (\<lambda>st f. st = st0 \<and> kept X st0 (acked_v2 X st0 a) B st f)) (acknowledge_v2 X a)
    (\<lambda>_. having (kept X st0 (acked_v2 X st0 a) B)) (\<lambda>_. having (kept X st0 (acked_v2 X st0 a) B))"
proof -
  let ?A = "acked_v2 X st0 a"
  let ?I = "kept X st0 ?A B"
  have start: "triple (having (\<lambda>x f. x = st \<and> st = st0 \<and> ?I st f)) m (\<lambda>_. having ?I) (\<lambda>_. having ?I)"
    if "st = st0 \<Longrightarrow> keeps (having ?I) m" for m :: "hub_ack_result_v2 spool_proc" and st
    using that by (cases "st = st0") (auto intro: triple_weak elim: having_mono simp: triple_def holding_def)
  show ?thesis
    unfolding acknowledge_v2_def
  proof (rule triple_failIf_bind, rule triple_gets_having, rule start, hypsubst, goal_cases)
    case 1
    show ?case
    proof (cases "bt_get (receipts st0) (a2_batch_id a)")
      case (Some prior)
      then have "receipt_seqs (lib X) st0 (re_receipt prior) \<subseteq> ?A" by (simp add: acked_v2_def)
      then show ?thesis unfolding Some option.case by (intro keeps_bind keeps_pure complete_receipt_kept P)
    next
      case None
      have seqs: "receipt_seqs (lib X) st0 \<lparr>rc_version = 2, rc_sequence = n, rc_batch_id = a2_batch_id a,
          rc_accepted_record_ids = [], rc_accepted_stable_record_ids = a2_accepted_record_ids a,
          rc_accepted_gap_notice_ids = a2_accepted_gap_notice_ids a, rc_accepted_admissions = adm\<rparr> \<subseteq> ?A"
        if "custody X st0 ?A st" "receipt_admissions_v2 st d a = Inr adm" for st d adm n
        using admissions_v2_seqs [OF that] None by (auto simp: receipt_seqs_def acked_v2_def)
      show ?thesis unfolding None option.case Let_def
        by (intro keeps_bind [OF build_batch_v2_kept [OF P]] keeps_bind [OF keeps_pure(4)]
            new_receipt_kept [OF P seqs]) auto
    qed
  qed (auto elim: having_mono)
qed

lemma acknowledge_v1_kept:
  assumes P: "phase X (acked_v1 X st0 a) B"
  shows "triple (having (\<lambda>st f. st = st0 \<and> kept X st0 (acked_v1 X st0 a) B st f)) (acknowledge X a)
    (\<lambda>_. having (kept X st0 (acked_v1 X st0 a) B)) (\<lambda>_. having (kept X st0 (acked_v1 X st0 a) B))"
proof -
  let ?A = "acked_v1 X st0 a"
  let ?I = "kept X st0 ?A B"
  have start: "triple (having (\<lambda>x f. x = st \<and> st = st0 \<and> ?I st f)) m (\<lambda>_. having ?I) (\<lambda>_. having ?I)"
    if "st = st0 \<Longrightarrow> keeps (having ?I) m" for m :: "hub_ack_result_v1 spool_proc" and st
    using that by (cases "st = st0") (auto intro: triple_weak elim: having_mono simp: triple_def holding_def)
  show ?thesis
    unfolding acknowledge_def
  proof (rule triple_failIf_bind, rule triple_gets_having, rule start, hypsubst, goal_cases)
    case 1
    show ?case
    proof (cases "bt_get (receipts st0) (a1_batch_id a)")
      case (Some prior)
      then have "receipt_seqs (lib X) st0 (re_receipt prior) \<subseteq> ?A" by (simp add: acked_v1_def)
      then show ?thesis unfolding Some option.case by (intro keeps_bind keeps_pure complete_receipt_kept P)
    next
      case None
      have seqs: "receipt_seqs (lib X) st0 \<lparr>rc_version = 1, rc_sequence = n, rc_batch_id = a1_batch_id a,
          rc_accepted_record_ids = a1_accepted_record_ids a, rc_accepted_stable_record_ids = [],
          rc_accepted_gap_notice_ids = [], rc_accepted_admissions = adm\<rparr> \<subseteq> ?A"
        if "custody X st0 ?A st" "receipt_admissions_v1 st d a = Inr adm" for st d adm n
        using admissions_v1_seqs [OF that] None by (auto simp: receipt_seqs_def acked_v1_def)
      show ?thesis unfolding None option.case Let_def
        by (intro keeps_bind [OF build_batch_kept [OF P]] keeps_bind [OF keeps_pure(4)]
            new_receipt_kept [OF P seqs]) auto
    qed
  qed (auto elim: having_mono)
qed

section \<open>Admission\<close>

definition stored_for :: "ctx \<Rightarrow> nat \<Rightarrow> receiver_envelope \<Rightarrow> int \<Rightarrow> stored_record" where
  "stored_for X q envelope now = \<lparr>sr_version = 2, sr_record_id = record_id (lib X) envelope,
     sr_stable_record_id = Some (stable_record_id (lib X) envelope), sr_spool_seq = Some q,
     sr_admitted_at_ms = now, sr_expires_at_ms = sat_add_i64 now (retention_ms (config X)),
     sr_envelope = envelope\<rparr>"

text \<open>An envelope with values of the types of the sources, and without doubles in its payload.\<close>

definition envelope_stable :: "receiver_envelope \<Rightarrow> bool" where
  "envelope_stable e \<longleftrightarrow> envelope_typed e \<and> json_exact (payload e)"

lemma i64_ok_sat_add: "i64_ok (sat_add_i64 a b)"
  by (auto simp: i64_ok_def sat_add_i64_def i64_min_def i64_max_def)

lemma stored_for_typed:
  "file_laws X \<Longrightarrow> envelope_stable envelope \<Longrightarrow> i64_ok now \<Longrightarrow> q \<le> u64_max \<Longrightarrow> record_typed (stored_for X q envelope now)"
  by (simp add: record_typed_def stored_for_def envelope_stable_def i64_ok_sat_add record_id_def stable_record_id_def
      Let_def hex_valid_digest file_laws_def)

lemma stored_for_valid:
  "envelope_ok envelope \<Longrightarrow> i64_ok now \<Longrightarrow> 0 \<le> retention_ms (config X) \<Longrightarrow> 0 < q \<Longrightarrow>
    valid_stored_record (lib X) (stored_for X q envelope now)"
  using validate_iff [of envelope "()"] sat_add_i64_ge [of now "retention_ms (config X)"]
  by (simp add: valid_stored_record_def stored_for_def i64_ok_def)

lemma durable_write_record:
  assumes "durable X B st f" "sr_spool_seq r = Some q"
    and r: "record_in X (f((Pending, pending_file_name q (sr_record_id r)) \<mapsto> Regular b)) r"
  shows "durable X (insert q B) st (f((Pending, pending_file_name q (sr_record_id r)) \<mapsto> Regular b))"
proof -
  let ?f = "f((Pending, pending_file_name q (sr_record_id r)) \<mapsto> Regular b)"
  have "file_holds X dec_stored_record b r" using r assms(2) by (auto simp: record_in_def)
  then have nm: "named X ?f" using assms(1,2) by (intro named_write) (simp_all add: durable_def)
  have new: "backed X ?f q" using r assms(2) by (auto simp: backed_def)
  have "backed X ?f q'" if "q' \<in> insert q B" for q'
    using new that assms(1) by (cases "q' = q") (auto simp: durable_def intro: backed_pending_other)
  with assms(1) nm show ?thesis by (simp add: durable_def)
qed

lemma durable_admit:
  assumes "durable X B st f" "entry_typed e" "bt_ok (entries st)"
  shows "durable X B (admit_entry e st) f"
  using assms by (auto simp: durable_def admit_entry_def bt_get_insert split: if_splits)

lemma enqueue_new_durable:
  assumes X: "file_laws X" "0 \<le> retention_ms (config X)" and e: "envelope_ok envelope" "envelope_stable envelope" "i64_ok now"
    and st0: "0 < next_spool_sequence st0" "bt_ok (entries st0)"
  shows "triple (having (\<lambda>st f. st = st0 \<and> durable X B st f)) (enqueue_new X envelope now)
    (\<lambda>_. having (\<lambda>st f. durable X B st f \<and> record_in X f (stored_for X (next_spool_sequence st0) envelope now)))
    (\<lambda>_. having (durable X B))"
  unfolding enqueue_new_def Let_def
proof (rule triple_gets_having, rule triple_pre, goal_cases)
  case (1 st s)
  then have st: "st = st0" by (simp add: holding_def)
  let ?q = "next_spool_sequence st0"
  let ?r = "stored_for X ?q envelope now"
  let ?I = "\<lambda>x f. x = st0 \<and> durable X B st0 f"
  have env: "env_laws (ev X)" using X(1) by (simp add: file_laws_def)
  show ?case
    unfolding st stored_for_def [symmetric]
  proof (rule triple_weak [where P' = "having ?I"], intro triple_ok_or_bind triple_failIf_bind, goal_cases)
    case (1 nx v1 v2 p predicted)
    have q: "?q \<le> u64_max" using 1 by (auto simp: checked_add_u64_Some)
    note ty = stored_for_typed [OF X(1) e(2,3) q]
    show ?case
    proof (rule triple_encrypt_bind [OF env], intro triple_ok_or_bind triple_failIf_bind, goal_cases)
      case (1 b nonce len)
      note w = file_holds_written [where dec = dec_stored_record, OF X(1) enc_stored_record_exact [OF ty]
          \<open>json_to_vec (lib X) (enc_stored_record ?r) = Some p\<close> dec_enc_stored_record [OF ty] 1(1,2)]
      have len: "length b \<le> MAX_ENCRYPTED_RECORD_BYTES" using 1(3,4) by (simp add: u64_try_from_Some)
      have sel: "sr_record_id ?r = record_id (lib X) envelope" "sr_spool_seq ?r = Some ?q" by (simp_all add: stored_for_def)
      let ?dst = "(Pending, pending_file_name ?q (record_id (lib X) envelope))"
      have new: "record_in X (f(?dst \<mapsto> Regular b)) ?r" for f
        using w(1) len stored_for_valid [OF e(1,3) X(2) st0(1)] by (auto simp: record_in_def sel)
      have dur: "durable X B st0 (f(?dst \<mapsto> Regular b))" if "durable X B st0 f" for f
        using durable_write_record [OF that sel(2), unfolded sel(1), OF new] by (simp add: durable_def)
      let ?e = "\<lparr>e_record_id = record_id (lib X) envelope, e_stable_record_id = stable_record_id (lib X) envelope,
        e_spool_seq = ?q, e_admitted_at_ms = now, e_expires_at_ms = sr_expires_at_ms ?r, e_encrypted_bytes = len,
        e_path = ?dst\<rparr>"
      have te: "entry_typed ?e" using q e(3) i64_ok_sat_add by (simp add: entry_typed_def stored_for_def)
      let ?J = "\<lambda>st f. durable X B st f \<and> record_in X f ?r"
      have upd: "triple (having (put ?dst (Some (Regular b)) ?I)) (upd_state (admit_entry ?e)) (\<lambda>_. having ?J) F" for F
        by (rule triple_upd_having) (use durable_admit [OF dur te st0(2)] new in \<open>auto simp: put_def\<close>)
      have err: "having (durable X B) s" if "having (\<lambda>st f. ?I st f \<or> put ?dst (Some (Regular b)) ?I st f) s" for s
        using that by (rule having_mono) (use dur in \<open>auto simp: put_def\<close>)
      have fin: "triple (having ?J) (bindR (persist_sequence_state X a1 a2 a3 a4) (\<lambda>_. ok z)) (\<lambda>_. having ?J) (\<lambda>_. having (durable X B))"
        for a1 a2 a3 a4 z
        by (rule triple_calm_bind [OF calm_persist_sequence_state triple_ok]) (auto elim: having_mono intro: calm_dirs)
      show ?case
        by (rule triple_temporary_bind, rule triple_bind [OF triple_conseq [OF write_store [of Pending ?I]]
              triple_bind [OF upd fin]]) (auto intro: err)
    qed (auto elim: having_mono)
  qed (use \<open>having _ s\<close> st in \<open>auto elim: having_mono\<close>)
qed

lemma enqueue_durable:
  assumes X: "file_laws X" "0 \<le> retention_ms (config X)" and e: "envelope_stable envelope" "i64_ok now"
    and st0: "0 < next_spool_sequence st0" "bt_ok (entries st0)"
  shows "triple (having (\<lambda>st f. st = st0 \<and> durable X B st f)) (enqueue X envelope now)
    (\<lambda>r. having (\<lambda>st f. durable X B st f \<and>
       (r = Stored (record_id (lib X) envelope) \<longrightarrow> record_in X f (stored_for X (next_spool_sequence st0) envelope now))))
    (\<lambda>_. having (durable X B))"
  unfolding enqueue_def
proof (rule triple_lift_bind, goal_cases)
  case (1 u)
  then have ok: "envelope_ok envelope" using validate_iff [of envelope "()"] by (auto split: sum.splits)
  let ?I = "\<lambda>st f. st = st0 \<and> durable X B st f"
  let ?Q = "\<lambda>r. having (\<lambda>st f. durable X B st f \<and>
       (r = Stored (record_id (lib X) envelope) \<longrightarrow> record_in X f (stored_for X (next_spool_sequence st0) envelope now)))"
  have start: "triple (having (\<lambda>x f. x = st \<and> st = st0 \<and> durable X B st f)) m ?Q (\<lambda>_. having (durable X B))"
    if "st = st0 \<Longrightarrow> triple (having ?I) m ?Q (\<lambda>_. having (durable X B))" for m st
    using that by (cases "st = st0") (auto intro: triple_weak elim: having_mono simp: triple_def holding_def)
  show ?case
  proof (rule triple_calm_bind [OF keeps_pure(3)], rule triple_failIf_bind, rule triple_gets_having, rule start, hypsubst, goal_cases)
    case (1 failed)
    show ?case
    proof (cases "bt_get (stable_index st0) (stable_record_id (lib X) envelope)")
      case None
      show ?thesis unfolding None option.case
        by (rule triple_conseq [OF enqueue_new_durable [OF X ok e st0]]) (auto elim: having_mono)
    next
      case (Some k)
      show ?thesis unfolding Some option.case by (rule triple_ok) (auto elim: having_mono)
    qed
  qed (auto elim: having_mono)
qed (auto elim: having_mono)

end
