(* ===== verification/Spool_Requests.thy ===== *)
theory Spool_Requests
  imports Spool_Durable
begin

text \<open>
  The requests an open spool serves, as data; what each of them releases; and the
  durability of everything else over any sequence of requests with any faults.
\<close>

datatype request =
    Enqueue receiver_envelope int
  | NextBatch int
  | NextBatchV2 int
  | Acknowledge hub_ack_v1
  | AcknowledgeV2 hub_ack_v2
  | ExpireDue int
  | SyncSpool

fun perform :: "ctx \<Rightarrow> request \<Rightarrow> spool \<Rightarrow> spool" where
  "perform X (Enqueue envelope now) s = snd (enqueue X envelope now s)"
| "perform X (NextBatch now) s = snd (next_batch X now s)"
| "perform X (NextBatchV2 now) s = snd (next_batch_v2 X now s)"
| "perform X (Acknowledge a) s = snd (acknowledge X a s)"
| "perform X (AcknowledgeV2 a) s = snd (acknowledge_v2 X a s)"
| "perform X (ExpireDue now) s = snd (expire_due X now s)"
| "perform X SyncSpool s = snd (spool_sync X s)"

fun released :: "ctx \<Rightarrow> spool_state \<Rightarrow> request \<Rightarrow> nat set" where
  "released X st (Acknowledge a) = acked_v1 X st a"
| "released X st (AcknowledgeV2 a) = acked_v2 X st a"
| "released X st _ = {}"

fun request_ok :: "ctx \<Rightarrow> spool_state \<Rightarrow> request \<Rightarrow> bool" where
  "request_ok X st (Enqueue envelope now) \<longleftrightarrow> enqueue_distinct X st envelope \<and> envelope_stable envelope \<and> i64_ok now"
| "request_ok X st _ \<longleftrightarrow> True"

definition file_inv :: "ctx \<Rightarrow> spool \<Rightarrow> bool" where
  "file_inv X s \<longleftrightarrow> file_laws X \<and> validate_config (config X) = Inr () \<and> spool_inv X s \<and> having (durable X {}) s"

lemma perform_inv: "spool_inv X s \<Longrightarrow> request_ok X (state_of s) r \<Longrightarrow> spool_inv X (perform X r s)"
  by (rule spool_step_inv [of X s]) (cases r; simp add: spool_step.intros)

lemma sync_kept: "keeps (having P) (spool_sync X)"
  unfolding spool_sync_def by (intro calm)

lemma durable_all: "durable X B st f \<longleftrightarrow> durable X {} st f \<and> (\<forall>q \<in> B. backed X f q)"
  by (auto simp: durable_def)

lemma perform_durable:
  assumes inv: "file_inv X s" and ok: "request_ok X (state_of s) r"
    and B: "\<forall>q \<in> B. backed X (store_of s) q" "released X (state_of s) r \<inter> B = {}"
  shows "having (durable X B) (perform X r s)"
proof -
  have X: "file_laws X" "ctx_ok X" "0 \<le> retention_ms (config X)"
    and si: "state_inv X (state_of s)" "collision_free (lib X) (state_of s)" and d: "disk_ok s"
    using inv by (auto simp: file_inv_def spool_inv_def validate_config_def split: if_splits)
  have dur: "durable X B (state_of s) (store_of s)"
    using inv B(1) durable_all [of X B] by (simp add: file_inv_def holding_def)
  let ?A = "released X (state_of s) r"
  have kept: "kept X (state_of s) ?A B (state_of s) (store_of s)"
    using dur si by (simp add: kept_def custody_refl state_inv_def)
  have P: "phase X ?A B" using X B(2) by (simp add: phase_def)
  have by_kept: "having (durable X B) (snd (m s))"
    if "triple (having (\<lambda>st f. st = state_of s \<and> kept X (state_of s) ?A B st f)) m
      (\<lambda>_. having (kept X (state_of s) ?A B)) (\<lambda>_. having (kept X (state_of s) ?A B))" for m :: "'a spool_proc"
    using triple_snd [OF that, of s] kept d by (simp add: holding_def kept_def)
  have by_keeps: "having (durable X B) (snd (m s))" if "keeps (having (kept X (state_of s) ?A B)) m" for m :: "'a spool_proc"
    by (rule by_kept [OF triple_weak [OF that]]) (auto elim: having_mono)
  show ?thesis
  proof (cases r)
    case (Enqueue envelope now)
    have "triple (having (\<lambda>st f. st = state_of s \<and> durable X B st f)) (enqueue X envelope now)
      (\<lambda>_. having (durable X B)) (\<lambda>_. having (durable X B))"
      by (rule triple_conseq [OF enqueue_durable [OF X(1,3), of envelope now "state_of s" B]])
        (use ok si Enqueue in \<open>auto simp: state_inv_def base_inv_def maps_ok_def elim: having_mono\<close>)
    from triple_snd [OF this, of s] dur d show ?thesis by (simp add: Enqueue holding_def)
  next
    case (Acknowledge a)
    show ?thesis
      using by_kept [unfolded Acknowledge released.simps, OF acknowledge_v1_kept] P by (simp add: Acknowledge)
  next
    case (AcknowledgeV2 a)
    show ?thesis
      using by_kept [unfolded AcknowledgeV2 released.simps, OF acknowledge_v2_kept] P by (simp add: AcknowledgeV2)
  qed (simp_all add: by_keeps [OF next_batch_kept [OF P]] by_keeps [OF next_batch_v2_kept [OF P]]
      by_keeps [OF expire_due_kept [OF P]] by_keeps [OF sync_kept])
qed

text \<open>A spool that serves requests, with the sequence numbers released so far.\<close>

inductive serves :: "ctx \<Rightarrow> spool \<Rightarrow> nat set \<Rightarrow> spool \<Rightarrow> bool" for X s where
  serves_none: "serves X s {} s"
| serves_request: "serves X s A t \<Longrightarrow> request_ok X (state_of t) r \<Longrightarrow>
     serves X s (A \<union> released X (state_of t) r) (perform X r t)"

inductive_cases servesE: "serves X s A t"

lemma perform_file_inv:
  assumes "file_inv X s" "request_ok X (state_of s) r"
  shows "file_inv X (perform X r s)"
  using assms perform_durable [OF assms, of "{}"] perform_inv [of X s r] by (simp add: file_inv_def)

lemma serves_backed:
  assumes "serves X s A t" "file_inv X s"
  shows "file_inv X t \<and> (\<forall>q. backed X (store_of s) q \<longrightarrow> q \<notin> A \<longrightarrow> backed X (store_of t) q)"
  using assms
proof (induction rule: serves.induct)
  case serves_none
  then show ?case by simp
next
  case (serves_request A t r)
  then have t: "file_inv X t" "\<And>q. backed X (store_of s) q \<Longrightarrow> q \<notin> A \<Longrightarrow> backed X (store_of t) q" by blast+
  have "backed X (store_of (perform X r t)) q"
    if "backed X (store_of s) q" "q \<notin> A \<union> released X (state_of t) r" for q
    using perform_durable [OF t(1) serves_request(2), of "{q}"] t(2) [of q] that by (auto simp: holding_def durable_def)
  then show ?case using perform_file_inv [OF t(1) serves_request(2)] by blast
qed

lemma enqueue_stored:
  assumes "file_inv X s" "request_ok X (state_of s) (Enqueue envelope now)" "enqueue X envelope now s = (Inr (Stored k), t)"
  shows "k = record_id (lib X) envelope" "record_in X (store_of t) (stored_for X (next_spool_sequence (state_of s)) envelope now)"
    "next_spool_sequence (state_of s) \<in> live_seqs (state_of t)" "file_inv X t"
proof -
  have X: "file_laws X" "ctx_ok X" "0 \<le> retention_ms (config X)"
    and si: "state_inv X (state_of s)" "collision_free (lib X) (state_of s)" and d: "disk_ok s"
    "durable X {} (state_of s) (store_of s)"
    using assms(1) by (auto simp: file_inv_def spool_inv_def validate_config_def holding_def split: if_splits)
  have ok: "enqueue_distinct X (state_of s) envelope" "envelope_stable envelope" "i64_ok now" using assms(2) by auto
  have "on (\<lambda>x. x = state_of s) s" using d by (simp add: on_def)
  from triple_Inr [OF enqueue_state [OF X(2) si ok(1)] this assms(3)]
  show k: "k = record_id (lib X) envelope" and "next_spool_sequence (state_of s) \<in> live_seqs (state_of t)"
    by (auto simp: on_def admitted_def)
  have "having (\<lambda>st f. st = state_of s \<and> durable X {} st f) s" using d by (simp add: holding_def)
  from triple_Inr [OF enqueue_durable [OF X(1,3) ok(2,3)] this assms(3)] si k
  show "record_in X (store_of t) (stored_for X (next_spool_sequence (state_of s)) envelope now)"
    by (auto simp: holding_def state_inv_def base_inv_def maps_ok_def)
  show "file_inv X t" using perform_file_inv [OF assms(1,2)] assms(3) by simp
qed

section \<open>Properties\<close>

text \<open>
  A stored record is on the disk. When an admission returns Stored, the pending
  directory holds, under the name of the next sequence number and the record identifier,
  a file that decrypts and decodes to exactly the admitted record, with its envelope, its
  two identifiers and its expiry.
\<close>

lemma stored_record_on_disk:
  assumes "file_inv X s" "enqueue_distinct X (state_of s) envelope" "envelope_stable envelope" "i64_ok now"
    and "enqueue X envelope now s = (Inr (Stored k), t)"
  shows "\<exists>b p. look t (Pending, pending_file_name (next_spool_sequence (state_of s)) k) = Some (Regular b) \<and>
    decrypt (lib X) (spool_key X) b = Inr p \<and>
    json_from_slice (lib X) dec_stored_record p =
      Some \<lparr>sr_version = 2, sr_record_id = k, sr_stable_record_id = Some (stable_record_id (lib X) envelope),
        sr_spool_seq = Some (next_spool_sequence (state_of s)), sr_admitted_at_ms = now,
        sr_expires_at_ms = sat_add_i64 now (retention_ms (config X)), sr_envelope = envelope\<rparr> \<and>
    file_inv X t"
  using enqueue_stored [OF assms(1) _ assms(5)] assms(2-4)
  by (auto simp: record_in_def stored_for_def file_holds_def store_in_def)

text \<open>
  Nothing acknowledged means nothing lost from the disk. Over any sequence of requests,
  with any outcome and any failing calls, a sequence number whose record or gap notice is
  on the disk (a valid file under its own name) still has a valid record or gap notice on
  the disk, unless one of the acknowledgements released it. So a crash at any point loses
  no record without a notice.
\<close>

lemma serving_keeps_disk:
  assumes "file_inv X s" "serves X s A t" "backed X (store_of s) q" "q \<notin> A"
  shows "backed X (store_of t) q \<and> file_inv X t"
  using serves_backed [OF assms(2,1)] assms(3,4) by blast

end
