(* ===== verification/Spool_Recovered.thy ===== *)
theory Spool_Recovered
  imports Spool_Requests
begin

text \<open>
  Opening a spool again: every record and gap notice that is on the disk is in the state
  after a successful \<open>Spool::open\<close>, unless a receipt on the disk acknowledges it, and
  nothing of it leaves the disk whatever fails on the way.
\<close>

section \<open>Reading stored files\<close>

lemma metadata_store:
  assumes "d \<in> D"
  shows "triple (holding D P) (fs_metadata E (d, n)) (\<lambda>v. holding D (\<lambda>st f. P st f \<and> f (d, n) = Some v)) (\<lambda>_. holding D P)"
  unfolding fs_metadata_def
  by (rule triple_bind [OF calm_io(1)], rule triple_gets_bind, rule triple_ok_or)
    (use assms in \<open>auto simp: holding_def store_in_def\<close>)

lemma read_store:
  assumes "d \<in> D"
  shows "triple (holding D P) (fs_read E (d, n)) (\<lambda>b. holding D (\<lambda>st f. P st f \<and> f (d, n) = Some (Regular b))) (\<lambda>_. holding D P)"
  unfolding fs_read_def
  by (rule triple_bind [OF metadata_store [OF assms]])
    (auto split: node.split intro!: triple_ok triple_fail elim: having_mono)

lemma dir_entry_store:
  assumes "d \<in> D"
  shows "triple (holding D P) (dir_entry X (d, n)) (\<lambda>v. holding D (\<lambda>st f. P st f \<and> f (d, n) = Some v)) (\<lambda>_. holding D P)"
  unfolding dir_entry_def
  by (rule triple_map_err, rule triple_bind [OF calm_io(1)], rule metadata_store [OF assms])

lemma calm_dir_entry [calm]: "keeps (holding D P) (dir_entry X p)"
  unfolding dir_entry_def by (intro calm keeps_bind)

lemma calm_read_dir [calm]: "keeps (holding D P) (read_dir X d)"
  unfolding read_dir_def by (intro calm)

text \<open>The names of a directory.\<close>

lemma read_dir_store:
  assumes "d \<in> D" "env_laws (ev X)"
  shows "triple (holding D P) (read_dir X d) (\<lambda>names. holding D (\<lambda>st f. P st f \<and> (\<forall>n. f (d, n) \<noteq> None \<longrightarrow> n \<in> set names)))
    (\<lambda>_. holding D P)"
proof -
  have "n \<in> set (dir_order (ev X) k (bt_keys (files s d)))" if "look s (d, n) = Some v" for s :: spool and n v k
    using that assms(2) by (force simp: look_def bt_get_def bt_keys_def env_laws_def dest: map_of_SomeD)
  then show ?thesis
    unfolding read_dir_def fs_read_dir_def
    by (intro triple_map_err triple_bind [where R = "\<lambda>_. holding D P"] calm_io(1) triple_gets)
      (use assms(1) in \<open>auto simp: holding_def store_in_def\<close>)
qed

lemma triple_having_pre:
  "(\<And>st f. P st f \<Longrightarrow> c) \<Longrightarrow> (c \<Longrightarrow> triple (holding D P) m Q E) \<Longrightarrow> triple (holding D P) m Q E"
  by (cases c) (auto simp: holding_def triple_def)

section \<open>Gap notices\<close>

definition gaps_seen :: "ctx \<Rightarrow> string set \<Rightarrow> spool_state \<Rightarrow> store \<Rightarrow> bool" where
  "gaps_seen X D st f \<longleftrightarrow> (\<forall>n. notice_in X f n \<longrightarrow> gap_file_name (gap_spool_seq n) (gap_notice_id n) \<in> D \<longrightarrow>
     has_gap (gap_spool_seq n) st)"

lemma has_gap_insert:
  assumes "bt_ok (gaps st)" "\<not> bt_contains (gaps st) (gap_notice_id n)"
  shows "has_gap q (insert_gap n b p st) \<longleftrightarrow> q = gap_spool_seq n \<or> has_gap q st"
  using assms by (auto simp: has_gap_def insert_gap_def bt_get_insert bt_contains_def split: if_splits)
    (metis option.distinct(1))

lemma bt_ok_insert_gap: "bt_ok (gaps st) \<Longrightarrow> bt_ok (gaps (insert_gap n b p st))"
  by (simp add: insert_gap_def)

lemma durable_index_gap:
  "durable X B st f \<Longrightarrow> notice_in X f n \<Longrightarrow> durable X B (insert_gap n b p st) f"
  by (auto simp: durable_def insert_gap_def bt_get_insert split: if_splits)

lemma recover_gap_seen:
  assumes R: "\<And>st f n b p. R st f \<Longrightarrow> bt_ok (gaps st) \<Longrightarrow> notice_in X f n \<Longrightarrow> R (insert_gap n b p st) f"
  shows "triple (having (\<lambda>st f. durable X B st f \<and> R st f \<and> gaps_seen X D st f)) (recover_gap X name)
     (\<lambda>_. having (\<lambda>st f. durable X B st f \<and> R st f \<and> gaps_seen X (insert name D) st f)) (\<lambda>_. having (durable X B))"
proof -
  let ?I = "\<lambda>st f. durable X B st f \<and> R st f \<and> gaps_seen X D st f"
  let ?at = "\<lambda>b st f. ?I st f \<and> f (Gaps, name) = Some (Regular b)"
  let ?Q = "\<lambda>st f. durable X B st f \<and> R st f \<and> gaps_seen X (insert name D) st f"
  have idx: "?Q (insert_gap n e (Gaps, name) st) f"
    if st: "?at b st f" and b: "length b \<le> MAX_ENCRYPTED_GAP_BYTES" "file_holds X dec_gap_notice b n"
      and ok: "valid_gap_notice (lib X) n" "name = gap_file_name (gap_spool_seq n) (gap_notice_id n)"
        "\<not> bt_contains (gaps st) (gap_notice_id n)" for st f b n e
  proof -
    have n: "notice_in X f n" using st b ok(1,2) by (auto simp: notice_in_def)
    have g: "has_gap q (insert_gap n e (Gaps, name) st) \<longleftrightarrow> q = gap_spool_seq n \<or> has_gap q st" for q
      by (rule has_gap_insert [OF _ ok(3)]) (use st in \<open>simp add: durable_def\<close>)
    have "gaps_seen X (insert name D) (insert_gap n e (Gaps, name) st) f"
      unfolding gaps_seen_def g using st ok(2) by (auto simp: gaps_seen_def gap_file_name_inject)
    moreover have "durable X B (insert_gap n e (Gaps, name) st) f" by (rule durable_index_gap [OF _ n]) (use st in blast)
    moreover have "R (insert_gap n e (Gaps, name) st) f"
      by (rule R [OF _ _ n]) (use st in \<open>auto simp: durable_def\<close>)
    ultimately show ?thesis by blast
  qed
  have err: "having (durable X B) s" if "having P s" "\<And>st f. P st f \<Longrightarrow> durable X B st f" for P s
    using that by (rule having_mono)
  let ?in = "\<lambda>node st f. ?I st f \<and> f (Gaps, name) = Some node"
  have ent: "triple (having ?I) (dir_entry X (Gaps, name)) (\<lambda>node. having (?in node)) (\<lambda>_. having (durable X B))"
    by (rule triple_conseq [OF dir_entry_store [where P = ?I]]) (auto intro: err)
  have rd: "triple (having (?in node)) (map_err map_io_error (fs_read (ev X) (Gaps, name)))
      (\<lambda>b. having (\<lambda>st f. ?at b st f \<and> node = Regular b)) (\<lambda>_. having (durable X B))" for node
    by (rule triple_map_err, rule triple_conseq [OF read_store [where P = "?in node"]]) (auto intro: err elim: having_mono)
  show ?thesis
    unfolding recover_gap_def
  proof (rule triple_bind [OF ent], rule triple_calm_bind, intro calm keeps_pure, rule triple_failIf_bind,
      rule triple_bind [OF rd], goal_cases)
    case (1 node u b)
    have fin: "triple (having (\<lambda>st f. ?at b st f \<and> node = Regular b)) (bindR (gets state_of) (\<lambda>st.
       bindR (failIf (\<not> valid_gap_notice (lib X) n
          \<or> name \<noteq> gap_file_name (gap_spool_seq n) (gap_notice_id n)
          \<or> bt_contains (gaps st) (gap_notice_id n)
          \<or> list_ex (\<lambda>g. gap_spool_seq (g_notice g) = gap_spool_seq n) (bt_values (gaps st)))
          CorruptRecord) (\<lambda>_.
       bindR (failIf (length (gaps st) \<ge> max_records (config X)
          \<or> sat_add_u64 (pending_gap_bytes st) e > max_bytes (config X)) CapacityExceeded) (\<lambda>_.
       upd_state (insert_gap n e (Gaps, name))))))
       (\<lambda>_. having ?Q) (\<lambda>_. having (durable X B))" if "file_holds X dec_gap_notice b n" for n e
      by (rule triple_gets_having, intro triple_failIf_bind triple_upd_having)
        (use 1 idx [OF _ _ that] in \<open>auto intro: err\<close>)
    show ?case
      unfolding spool_decrypt_def
      by (intro triple_lift_bind triple_ok_or_bind fin)
        (auto intro: err simp: file_holds_def split: sum.splits)
  qed (auto intro: err)
qed

text \<open>
  The notice identifiers that the files of a disk have or can get: of the gap notices, of
  the records, and of pending files by their names.
\<close>

definition disk_ids :: "ctx \<Rightarrow> store \<Rightarrow> (rid \<times> nat) set" where
  "disk_ids X f = {(gap_notice_id n, gap_spool_seq n) | n. notice_in X f n}
     \<union> {(gap_notice_id (gap_notice_for_identity (lib X) q sid 0 reason), q) | q sid reason r.
          record_in X f r \<and> sr_spool_seq r = Some q \<and> sr_stable_record_id r = Some sid}
     \<union> {(gap_notice_id (gap_notice_for_identity (lib X) q i 0 reason), q) | q i reason name.
          f (Pending, name) \<noteq> None \<and> parse_v2_pending_file_name name = Some (q, i)}"

lemma notice_ids_insert_gap:
  "bt_ok (gaps st) \<Longrightarrow> notice_ids C (insert_gap n b p st) \<subseteq> insert (gap_notice_id n, gap_spool_seq n) (notice_ids C st)"
  by (force simp: notice_ids_def insert_gap_def bt_values_def set_bt_insert)

lemma recover_gaps_seen:
  assumes "env_laws (ev X)"
  shows "triple (having (\<lambda>st f. f = f0 \<and> notice_ids (lib X) st \<subseteq> disk_ids X f0 \<and> durable X B st f)) (recover_gaps X)
     (\<lambda>_. having (\<lambda>st f. f = f0 \<and> notice_ids (lib X) st \<subseteq> disk_ids X f0 \<and> durable X B st f \<and> gaps_seen X UNIV st f))
     (\<lambda>_. having (durable X B))"
proof -
  let ?P = "\<lambda>st f. f = f0 \<and> notice_ids (lib X) st \<subseteq> disk_ids X f0 \<and> durable X B st f"
  have names: "triple (having ?P) (read_dir X Gaps) (\<lambda>names. having (\<lambda>st f. ?P st f \<and> (\<forall>n. f (Gaps, n) \<noteq> None \<longrightarrow> n \<in> set names)))
      (\<lambda>_. having (durable X B))"
    by (rule triple_conseq [OF read_dir_store [OF _ assms, where P = ?P]]) (auto elim: having_mono)
  have fin: "gaps_seen X UNIV st f" if "gaps_seen X (set names) st f" "\<forall>n. f (Gaps, n) \<noteq> None \<longrightarrow> n \<in> set names" for st f names
    using that unfolding gaps_seen_def notice_in_def by blast
  show ?thesis
    unfolding recover_gaps_def
  proof (rule triple_bind [OF names], goal_cases)
    case (1 names)
    let ?R = "\<lambda>st f. (f = f0 \<and> notice_ids (lib X) st \<subseteq> disk_ids X f0) \<and> (\<forall>n. f (Gaps, n) \<noteq> None \<longrightarrow> n \<in> set names)"
    let ?I = "\<lambda>D. having (\<lambda>st f. durable X B st f \<and> ?R st f \<and> gaps_seen X D st f)"
    have R: "?R (insert_gap n b p st) f" if "?R st f" "bt_ok (gaps st)" "notice_in X f n" for st f n b p
      using that notice_ids_insert_gap [of st "lib X" n b p] by (auto simp: disk_ids_def)
    have loop: "triple (?I {}) (for_each names (recover_gap X)) (\<lambda>_. ?I ({} \<union> set names)) (\<lambda>_. having (durable X B))"
      by (rule triple_for_each_seen) (rule recover_gap_seen [where R = ?R, OF R])
    have none: "gaps_seen X {} st f" for st f by (simp add: gaps_seen_def)
    show ?case
      by (rule triple_conseq [OF loop]) (auto simp: none elim!: having_mono intro: fin)
  qed
qed

section \<open>Pending records\<close>

text \<open>What a gap notice that is written cannot change.\<close>

lemma persist_gap_frame:
  assumes ins: "\<And>st f b p. Q st f \<Longrightarrow> \<not> bt_contains (gaps st) (gap_notice_id (gap_notice (lib X) e t r)) \<Longrightarrow>
      Q (insert_gap (gap_notice (lib X) e t r) b p st) f"
    and wr: "\<And>st f x v. Q st f \<Longrightarrow> Q st (f((Gaps, x) := v))"
  shows "keeps (having Q) (persist_gap_locked X e t r)"
  unfolding persist_gap_locked_def Let_def
proof (rule triple_gets_having, rule triple_if, rule triple_ok, erule having_mono, simp,
    intro triple_failIf_bind triple_ok_or_bind triple_temporary_bind triple_calm_bind [OF calm_spool_encrypt], goal_cases)
  case (1 st p b len n)
  let ?n = "gap_notice (lib X) e t r"
  let ?I = "\<lambda>x f. x = st \<and> Q st f"
  let ?dst = "(Gaps, gap_file_name (e_spool_seq e) (gap_notice_id ?n))"
  have upd: "triple (having (put ?dst (Some (Regular b)) ?I)) (bindR (upd_state (insert_gap ?n len ?dst)) (\<lambda>_. ok z))
      (\<lambda>_. having Q) F" for z F
    by (rule triple_bind [OF triple_upd_having [where Q = Q] triple_ok])
      (use ins [OF wr 1(1)] in \<open>auto simp: put_def\<close>)
  show ?case
    by (rule triple_bind [OF triple_conseq [OF write_store [of Gaps ?I]] upd])
      (use wr in \<open>auto simp: put_def elim!: having_mono\<close>)
qed (auto elim: having_mono)

definition absent :: "ctx \<Rightarrow> string \<Rightarrow> store \<Rightarrow> bool" where
  "absent X name f \<longleftrightarrow> (\<forall>r q. record_in X f r \<longrightarrow> sr_spool_seq r = Some q \<longrightarrow> name \<noteq> pending_file_name q (sr_record_id r))"

lemma absentI:
  assumes "f (Pending, name) = Some node"
    and "\<And>b r q. node = Regular b \<Longrightarrow> length b \<le> MAX_ENCRYPTED_RECORD_BYTES \<Longrightarrow> file_holds X dec_stored_record b r \<Longrightarrow>
      valid_stored_record (lib X) r \<Longrightarrow> sr_spool_seq r = Some q \<Longrightarrow> name = pending_file_name q (sr_record_id r) \<Longrightarrow> False"
  shows "absent X name f"
  using assms unfolding absent_def record_in_def by fastforce

lemma record_in_absent:
  assumes "record_in X f r" "absent X name f"
  shows "record_in X (f((Pending, name) := v)) r"
  using assms unfolding absent_def record_in_def by fastforce

lemma durable_remove_absent:
  assumes "durable X B st f" "absent X name f"
  shows "durable X B st (f((Pending, name) := None))"
proof -
  have "backed X (f((Pending, name) := None)) q" if "q \<in> B" for q
    using that assms record_in_absent [OF _ assms(2)] by (fastforce simp: durable_def backed_def)
  with assms(1) show ?thesis by (simp add: durable_def named_remove)
qed

lemma pending_extension: "path_extension (pending_file_name q r) = Some ''tles''"
  by (simp add: path_extension_def pending_file_name_def PENDING_SUFFIX_def Let_def)

lemma pending_ends: "ends_with (''-'' @ r @ PENDING_SUFFIX) (pending_file_name q r)"
  unfolding ends_with_iff by (auto simp: pending_file_name_def intro!: exI [of _ "''v2-'' @ dec020 q"])

text \<open>A recovered item: a valid record with its number, under its own name.\<close>

definition item_ok :: "ctx \<Rightarrow> recovered \<Rightarrow> bool" where
  "item_ok X x \<longleftrightarrow> valid_stored_record (lib X) (fst x) \<and> i64_ok (sr_admitted_at_ms (fst x)) \<and> i64_ok (sr_expires_at_ms (fst x))
     \<and> (\<exists>q. sr_spool_seq (fst x) = Some q \<and> q \<le> u64_max \<and> fst (snd x) = (Pending, pending_file_name q (sr_record_id (fst x))))"

text \<open>Every number to be kept has its gap, or a record that was found or is still to be read.\<close>

definition covered :: "ctx \<Rightarrow> nat set \<Rightarrow> string set \<Rightarrow> recovered list \<Rightarrow> spool_state \<Rightarrow> store \<Rightarrow> bool" where
  "covered X B D found st f \<longleftrightarrow> (\<forall>q \<in> B. has_gap q st \<or> (\<exists>r. record_in X f r \<and> sr_spool_seq r = Some q \<and>
     (pending_file_name q (sr_record_id r) \<in> D \<longrightarrow> r \<in> fst ` set found)))"

lemma stored_types:
  assumes "file_holds X dec_stored_record b r"
  shows "i64_ok (sr_admitted_at_ms r)" "i64_ok (sr_expires_at_ms r)" "sr_spool_seq r = Some q \<Longrightarrow> q \<le> u64_max"
proof -
  obtain v where v: "dec_stored_record v = Some r"
    using assms by (auto simp: file_holds_def json_from_slice_def split: if_splits Option.bind_splits)
  then show "i64_ok (sr_admitted_at_ms r)" "i64_ok (sr_expires_at_ms r)"
    by (auto simp: dec_stored_record_def i64_ok_def split: Option.bind_splits dest!: field_Some dec_i64_range)
  have "dec_option dec_u64 u = Some (Some q) \<Longrightarrow> q \<le> u64_max" for u
    by (cases u rule: dec_u64.cases) (auto split: if_splits)
  with v show "sr_spool_seq r = Some q \<Longrightarrow> q \<le> u64_max"
    by (auto simp: dec_stored_record_def field_default_def split: Option.bind_splits option.splits)
qed

lemma covered_insert_gap:
  assumes "covered X B D found st f" "bt_ok (gaps st)" "\<not> bt_contains (gaps st) (gap_notice_id n)"
  shows "covered X B D found (insert_gap n b p st) f"
  using assms(1) has_gap_insert [OF assms(2,3)] by (auto simp: covered_def)

lemma covered_gaps [simp]: "covered X B D found st (f((Gaps, x) := v)) \<longleftrightarrow> covered X B D found st f"
  by (simp add: covered_def)

lemma absent_gaps [simp]: "absent X name (f((Gaps, x) := v)) \<longleftrightarrow> absent X name f"
  by (simp add: absent_def)

lemma covered_remove_absent:
  assumes c: "covered X B D found st f" and a: "absent X name f"
  shows "covered X B (insert name D) found st (f((Pending, name) := None))"
  unfolding covered_def
proof
  fix q assume "q \<in> B"
  with c have "has_gap q st \<or> (\<exists>r. record_in X f r \<and> sr_spool_seq r = Some q \<and>
      (pending_file_name q (sr_record_id r) \<in> D \<longrightarrow> r \<in> fst ` set found))" by (simp add: covered_def)
  then show "has_gap q st \<or> (\<exists>r. record_in X (f((Pending, name) := None)) r \<and> sr_spool_seq r = Some q \<and>
      (pending_file_name q (sr_record_id r) \<in> insert name D \<longrightarrow> r \<in> fst ` set found))"
  proof (elim disjE exE conjE)
    fix r assume r: "record_in X f r" "sr_spool_seq r = Some q" "pending_file_name q (sr_record_id r) \<in> D \<longrightarrow> r \<in> fst ` set found"
    have "name \<noteq> pending_file_name q (sr_record_id r)" using a r(1,2) unfolding absent_def by blast
    with r record_in_absent [OF r(1) a] show ?thesis by blast
  qed simp
qed

text \<open>
  While the files are read: pending files are only removed from the disk \<open>f0\<close> that was
  found, and the identifiers of the state come from it.
\<close>

definition pending_of :: "store \<Rightarrow> string \<rightharpoonup> node" where
  "pending_of f n = f (Pending, n)"

lemma pending_of_upd [simp]: "pending_of (f((Gaps, x) := v)) = pending_of f"
  "pending_of (f((Pending, x) := v)) = (pending_of f)(x := v)"
  by (auto simp: pending_of_def)

lemma pending_removed: "m \<subseteq>\<^sub>m m' \<Longrightarrow> m(x := None) \<subseteq>\<^sub>m m'"
  by (auto simp: map_le_def)

definition scanning :: "ctx \<Rightarrow> nat set \<Rightarrow> store \<Rightarrow> string set \<Rightarrow> recovered list \<Rightarrow> spool_state \<Rightarrow> store \<Rightarrow> bool" where
  "scanning X B f0 D found st f \<longleftrightarrow> durable X B st f \<and> pending_of f \<subseteq>\<^sub>m pending_of f0
     \<and> notice_ids (lib X) st \<subseteq> disk_ids X f0
     \<and> (\<forall>x \<in> set found. item_ok X x \<and> record_in X f0 (fst x)) \<and> covered X B D found st f"

lemma scanning_durable: "scanning X B f0 D found st f \<Longrightarrow> durable X B st f"
  by (simp add: scanning_def)

lemma scanning_remove_absent:
  "scanning X B f0 D found st f \<Longrightarrow> absent X name f \<Longrightarrow> scanning X B f0 (insert name D) found st (f((Pending, name) := None))"
  by (auto simp: scanning_def durable_remove_absent covered_remove_absent pending_removed)

lemma scanning_state:
  "scanning X B f0 D found st f \<Longrightarrow> gaps st' = gaps st \<Longrightarrow> entries st' = entries st \<Longrightarrow> scanning X B f0 D found st' f"
  using notice_ids_cong [of st' st "lib X"] by (auto simp: scanning_def covered_def has_gap_def intro: durable_cong)

lemma parse_u64_le: "parse_u64 s = Some n \<Longrightarrow> n \<le> u64_max"
  by (auto simp: parse_u64_def split: if_splits option.splits)

lemma parse_pending_le: "parse_v2_pending_file_name name = Some (q, r) \<Longrightarrow> q \<le> u64_max"
  by (auto simp: parse_v2_pending_file_name_def split: option.splits prod.splits if_splits sum.splits
      Option.bind_splits dest: parse_u64_le)

lemma quarantine_recovered_scanning:
  assumes X: "file_laws X" and now: "i64_ok now"
  shows "triple (having (\<lambda>st f. scanning X B f0 D found st f \<and> absent X name f \<and> f (Pending, name) \<noteq> None)) (quarantine_recovered_pending X name now)
    (\<lambda>_. having (scanning X B f0 (insert name D) found)) (\<lambda>_. having (durable X B))"
proof (cases "parse_v2_pending_file_name name")
  case None
  then show ?thesis
    by (auto simp: quarantine_recovered_pending_def scanning_def intro!: triple_fail elim: having_mono)
next
  case (Some qr)
  obtain q i where qr: "qr = (q, i)" by fastforce
  let ?I = "\<lambda>st f. scanning X B f0 D found st f \<and> absent X name f \<and> f (Pending, name) \<noteq> None"
  let ?J = "scanning X B f0 (insert name D) found"
  let ?Q = "\<lambda>st f. bt_ok (gaps st) \<and> pending_of f \<subseteq>\<^sub>m pending_of f0 \<and> notice_ids (lib X) st \<subseteq> disk_ids X f0
    \<and> (\<forall>x \<in> set found. item_ok X x \<and> record_in X f0 (fst x)) \<and> covered X B D found st f \<and> absent X name f \<and> f (Pending, name) \<noteq> None"
  have q: "0 < q" "q \<le> u64_max"
    using parse_pending_pos [OF Some [unfolded qr]] parse_pending_le [OF Some [unfolded qr]] .
  have gap: "triple (having ?I) (persist_gap_locked X e now r) (\<lambda>_. having ?I) (\<lambda>_. having (durable X B))"
    if "e_spool_seq e = q" "e_stable_record_id e = i" for e r
  proof -
    let ?n = "gap_notice (lib X) e now r"
    have "(gap_notice_id ?n, gap_spool_seq ?n) \<in> disk_ids X f0" if "f (Pending, name) \<noteq> None" "pending_of f \<subseteq>\<^sub>m pending_of f0" for f
    proof -
      have "f0 (Pending, name) \<noteq> None" using that by (force simp: map_le_def pending_of_def)
      moreover have "gap_notice_id ?n = gap_notice_id (gap_notice_for_identity (lib X) q i 0 r)" "gap_spool_seq ?n = q"
        using \<open>e_spool_seq e = q\<close> \<open>e_stable_record_id e = i\<close> by (simp_all add: gap_notice_def gap_notice_for_identity_def Let_def)
      ultimately show ?thesis using Some [unfolded qr] unfolding disk_ids_def by blast
    qed
    then have "?Q (insert_gap ?n b p st) f" if "?Q st f" "\<not> bt_contains (gaps st) (gap_notice_id ?n)" for st f b p
      using that notice_ids_insert_gap [of st "lib X" ?n b p] bt_ok_insert_gap [of st ?n b p] covered_insert_gap [of X B D found st f ?n b p]
      by auto
    then have "keeps (having ?Q) (persist_gap_locked X e now r)"
      by (rule persist_gap_frame [where Q = ?Q]) auto
    from triple_conj [OF this persist_gap_durable [OF X, of e now B r]] q that now show ?thesis
      by (simp, elim triple_conseq) (auto simp: holding_def scanning_def durable_def)
  qed
  have moved: "triple (having ?I) (quarantine_file_bounded X (Pending, name)) (\<lambda>_. having ?J) (\<lambda>_. having (durable X B))"
    by (rule triple_conseq [OF quarantine_store [of Pending ?I]])
      (auto simp: put_def scanning_def durable_remove_absent covered_remove_absent pending_removed elim!: having_mono
        split: if_splits)
  have bump: "keeps (having ?J) bump_corrupt"
    unfolding bump_corrupt_def by (rule triple_upd_having) (auto intro: scanning_state)
  show ?thesis
    unfolding quarantine_recovered_pending_def Some qr option.case prod.case
    by (rule triple_calm_bind, intro keeps_match keeps_pure calm, rule triple_bind [OF gap], simp, simp,
        rule triple_bind [OF moved], rule triple_conseq [OF bump])
      (auto simp: scanning_def elim: having_mono)
qed

text \<open>A file of the pending directory while it is read: it is skipped into quarantine, or its record is found.\<close>

definition scanned :: "ctx \<Rightarrow> nat set \<Rightarrow> store \<Rightarrow> string set \<Rightarrow> recovered list \<Rightarrow> string \<Rightarrow> node \<Rightarrow> spool_state \<Rightarrow> store \<Rightarrow> bool" where
  "scanned X B f0 D found name node st f \<longleftrightarrow> scanning X B f0 D found st f \<and> f (Pending, name) = Some node"

lemma scanned_durable: "having (scanned X B f0 D found name node) s \<Longrightarrow> having (durable X B) s"
  by (auto simp: scanned_def scanning_def elim!: having_mono)

lemma scanned_skip:
  assumes X: "file_laws X" and now: "i64_ok now"
    and bad: "\<And>b r q. node = Regular b \<Longrightarrow> length b \<le> MAX_ENCRYPTED_RECORD_BYTES \<Longrightarrow> file_holds X dec_stored_record b r \<Longrightarrow>
      valid_stored_record (lib X) r \<Longrightarrow> sr_spool_seq r = Some q \<Longrightarrow> name = pending_file_name q (sr_record_id r) \<Longrightarrow> False"
  shows "triple (having (scanned X B f0 D found name node)) (bindR (quarantine_recovered_pending X name now) (\<lambda>_. ok found))
      (\<lambda>found'. having (scanning X B f0 (insert name D) found')) (\<lambda>_. having (durable X B))"
  by (rule triple_weak, rule triple_bind [OF quarantine_recovered_scanning [OF X now] triple_ok], assumption)
    (use absentI [OF _ bad] in \<open>auto simp: scanned_def elim!: having_mono\<close>)

lemma scanned_found:
  assumes f: "scanned X B f0 D found name (Regular b) st f"
    and b: "file_holds X dec_stored_record b r" "valid_stored_record (lib X) r" "length b \<le> MAX_ENCRYPTED_RECORD_BYTES"
  shows "scanning X B f0 (insert name D) (found @ [(r, (Pending, name), n)]) st f"
proof -
  note sc = f [unfolded scanned_def]
  obtain q where q: "sr_spool_seq r = Some q" "name = pending_file_name q (sr_record_id r)"
    using sc b unfolding scanning_def durable_def named_def by blast
  have "item_ok X (r, (Pending, name), n)"
    using b q stored_types [OF b(1)] by (auto simp: item_ok_def)
  moreover have "covered X B (insert name D) (found @ [(r, (Pending, name), n)]) st f"
    unfolding covered_def
  proof
    fix q' assume "q' \<in> B"
    with sc have "has_gap q' st \<or> (\<exists>r. record_in X f r \<and> sr_spool_seq r = Some q' \<and>
        (pending_file_name q' (sr_record_id r) \<in> D \<longrightarrow> r \<in> fst ` set found))" by (simp add: scanning_def covered_def)
    then show "has_gap q' st \<or> (\<exists>r'. record_in X f r' \<and> sr_spool_seq r' = Some q' \<and>
      (pending_file_name q' (sr_record_id r') \<in> insert name D \<longrightarrow> r' \<in> fst ` set (found @ [(r, (Pending, name), n)])))"
    proof (elim disjE exE conjE)
      fix r' assume r': "record_in X f r'" "sr_spool_seq r' = Some q'"
        "pending_file_name q' (sr_record_id r') \<in> D \<longrightarrow> r' \<in> fst ` set found"
      have "r' = r" if "pending_file_name q' (sr_record_id r') = name"
        using r'(1,2) that sc file_holds_unique [OF _ b(1)] by (auto simp: record_in_def)
      with r' show ?thesis by (intro disjI2 exI [of _ r']) auto
    qed simp
  qed
  moreover have "f0 (Pending, name) = Some (Regular b)"
    using sc by (force simp: scanning_def map_le_def pending_of_def)
  with b q have "record_in X f0 r" by (auto simp: record_in_def)
  ultimately show ?thesis using sc by (auto simp: scanning_def)
qed

lemma scanned_decoded:
  assumes X: "file_laws X" and now: "i64_ok now" and len: "length b \<le> MAX_ENCRYPTED_RECORD_BYTES"
  shows "triple (having (scanned X B f0 D found name (Regular b))) (case decrypt (lib X) (spool_key X) b of
       Inl KeyMismatch \<Rightarrow> fail SpoolKeyMismatch
     | Inl InvalidCiphertext \<Rightarrow> bindR (quarantine_recovered_pending X name now) (\<lambda>_. ok found)
     | Inr plaintext \<Rightarrow>
         (case json_from_slice (lib X) dec_stored_record plaintext of
            None \<Rightarrow> bindR (quarantine_recovered_pending X name now) (\<lambda>_. ok found)
          | Some stored \<Rightarrow>
              if \<not> valid_stored_record (lib X) stored
                 \<or> \<not> ends_with (''-'' @ sr_record_id stored @ PENDING_SUFFIX) name
              then bindR (quarantine_recovered_pending X name now) (\<lambda>_. ok found)
              else bindR (ok_or (u64_try_from (length b)) CapacityExceeded) (\<lambda>n.
                ok (found @ [(stored, (Pending, name), n)]))))
    (\<lambda>found'. having (scanning X B f0 (insert name D) found')) (\<lambda>_. having (durable X B))"
proof (cases "decrypt (lib X) (spool_key X) b")
  case (Inl a)
  then show ?thesis
    by (cases a) (auto simp: file_holds_def intro!: scanned_skip [OF X now] triple_fail intro: scanned_durable)
next
  case plain: (Inr plaintext)
  show ?thesis
  proof (cases "json_from_slice (lib X) dec_stored_record plaintext")
    case None
    with plain show ?thesis by (auto simp: file_holds_def intro!: scanned_skip [OF X now])
  next
    case (Some r)
    with plain have holds: "file_holds X dec_stored_record b r" by (simp add: file_holds_def)
    show ?thesis
      unfolding plain Some sum.case option.case
    proof (rule triple_if, goal_cases)
      case 1
      with pending_ends file_holds_unique [OF holds] show ?case by (intro scanned_skip [OF X now]) blast
    next
      case 2
      then have v: "valid_stored_record (lib X) r" by simp
      show ?case
        by (rule triple_ok_or_bind, rule triple_ok, erule having_mono, rule scanned_found [OF _ holds v len], assumption)
          (rule scanned_durable)
    qed
  qed
qed

lemma recover_pending_file_scanning:
  assumes X: "file_laws X" and now: "i64_ok now"
  shows "triple (having (scanning X B f0 D found)) (recover_pending_file X now found name)
    (\<lambda>found'. having (scanning X B f0 (insert name D) found')) (\<lambda>_. having (durable X B))"
proof -
  let ?in = "scanned X B f0 D found name"
  have sd: "having (durable X B) s" if "having (scanning X B f0 D found) s" for s
    using that by (auto simp: scanning_def elim!: having_mono)
  have ent: "triple (having (scanning X B f0 D found)) (dir_entry X (Pending, name)) (\<lambda>node. having (?in node)) (\<lambda>_. having (durable X B))"
    unfolding scanned_def by (rule triple_conseq [OF dir_entry_store [where P = "scanning X B f0 D found"]]) (auto intro: sd)
  have meta: "triple (having (?in node)) (map_err map_io_error (fs_metadata (ev X) (Pending, name)))
      (\<lambda>m. having (\<lambda>st f. ?in node st f \<and> m = node)) (\<lambda>_. having (durable X B))" for node
    by (rule triple_map_err, rule triple_conseq [OF metadata_store [where P = "?in node"]])
      (auto simp: scanned_def elim!: having_mono intro: scanning_durable)
  have rd: "triple (having (?in node)) (map_err map_io_error (fs_read (ev X) (Pending, name)))
      (\<lambda>b. having (\<lambda>st f. ?in node st f \<and> node = Regular b)) (\<lambda>_. having (durable X B))" for node
    by (rule triple_map_err, rule triple_conseq [OF read_store [where P = "?in node"]])
      (auto simp: scanned_def elim!: having_mono intro: scanning_durable)
  have known: "triple (having (\<lambda>st f. ?in node st f \<and> c)) m Q (\<lambda>_. having (durable X B))"
    if "c \<Longrightarrow> triple (having (?in node)) m Q (\<lambda>_. having (durable X B))" for node c Q and m :: "recovered list spool_proc"
    using that by (cases c) (auto simp: triple_def holding_def)
  show ?thesis
    unfolding recover_pending_file_def Let_def
  proof (rule triple_bind [OF ent], rule triple_if, goal_cases)
    case (1 node)
    then show ?case by (intro scanned_skip [OF X now]) (auto simp: pending_extension)
  next
    case (2 node)
    show ?case
    proof (rule triple_bind [OF meta], rule known, hypsubst, rule triple_if, goal_cases)
      case (1 m)
      then show ?case by (intro scanned_skip [OF X now]) auto
    next
      case (2 m)
      show ?case by (rule triple_bind [OF rd], rule known, hypsubst, rule scanned_decoded [OF X now]) (use 2 in simp)
    qed
  qed
qed

text \<open>A number is in the state: it has a gap notice or an entry.\<close>

definition in_state :: "nat \<Rightarrow> spool_state \<Rightarrow> bool" where
  "in_state q st \<longleftrightarrow> has_gap q st \<or> (\<exists>k e. bt_get (entries st) k = Some e \<and> e_spool_seq e = q)"

lemma in_state_live: "in_state q st \<Longrightarrow> q \<in> live_seqs st"
  unfolding in_state_def has_gap_def live_seqs_def by (blast dest: bt_get_values)

text \<open>
  While the items found are indexed: those not yet done, the numbers of \<open>B\<close> with an item, and the rest in the state.
\<close>

definition indexing :: "ctx \<Rightarrow> nat set \<Rightarrow> store \<Rightarrow> recovered set \<Rightarrow> spool_state \<Rightarrow> store \<Rightarrow> bool" where
  "indexing X B f0 todo st f \<longleftrightarrow> durable X B st f \<and> bt_ok (entries st) \<and> notice_ids (lib X) st \<subseteq> disk_ids X f0 \<and>
     (\<forall>q \<in> B. in_state q st \<or> (\<exists>x \<in> todo. sr_spool_seq (fst x) = Some q))"

lemma indexing_durable: "indexing X B f0 todo st f \<Longrightarrow> durable X B st f"
  by (simp add: indexing_def)

lemma has_gap_values: "bt_ok (gaps st) \<Longrightarrow> list_ex (\<lambda>g. gap_spool_seq (g_notice g) = q) (bt_values (gaps st)) \<longleftrightarrow> has_gap q st"
  unfolding list_ex_iff has_gap_def by (metis bt_values_iff)

lemma indexing_done:
  assumes "indexing X B f0 todo st f" "in_state q st" "sr_spool_seq (fst x) = Some q"
  shows "indexing X B f0 (todo - {x}) st f"
  using assms unfolding indexing_def by (metis DiffI empty_iff insert_iff option.inject)

lemma notice_ids_index_entry:
  "bt_ok (entries st) \<Longrightarrow> notice_ids C (index_entry e st) \<subseteq>
     notice_ids C st \<union> {(gap_notice_id (gap_notice C e 0 r), e_spool_seq e) | r. True}"
  by (force simp: notice_ids_def index_entry_def bt_values_def set_bt_insert)

lemma indexing_entry:
  assumes "indexing X B f0 todo st f" "sr_spool_seq (fst x) = Some (e_spool_seq e)" "entry_typed e"
    "\<not> bt_contains (entries st) (e_record_id e)"
    and r: "record_in X f0 (fst x)" "sr_stable_record_id (fst x) = Some (e_stable_record_id e)"
  shows "indexing X B f0 (todo - {x}) (index_entry e st) f"
proof -
  have ok: "bt_ok (entries st)" using assms(1) by (simp add: indexing_def)
  have in_st: "in_state q (index_entry e st) \<longleftrightarrow> q = e_spool_seq e \<or> in_state q st" for q
    using assms(4) by (auto simp: in_state_def has_gap_def index_entry_def bt_get_insert [OF ok] bt_contains_def
        split: if_splits) (metis option.distinct(1))+
  have "durable X B (index_entry e st) f"
    using assms(1,3) by (auto simp: indexing_def durable_def index_entry_def bt_get_insert split: if_splits)
  moreover have "notice_ids (lib X) (index_entry e st) \<subseteq> disk_ids X f0"
  proof -
    have "(gap_notice_id (gap_notice (lib X) e 0 reason), e_spool_seq e) \<in> disk_ids X f0" for reason
      using r assms(2) unfolding disk_ids_def gap_notice_def by blast
    moreover have "notice_ids (lib X) st \<subseteq> disk_ids X f0" using assms(1) by (simp add: indexing_def)
    ultimately show ?thesis using notice_ids_index_entry [OF ok, of "lib X" e] by auto
  qed
  ultimately have "indexing X B f0 todo (index_entry e st) f"
    using assms(1) in_st by (auto simp: indexing_def index_entry_def)
  from indexing_done [OF this _ assms(2)] in_st show ?thesis by simp
qed

lemma admit_recovered_indexing:
  assumes x: "item_ok X x" "record_in X f0 (fst x)"
  shows "triple (having (indexing X B f0 todo)) (admit_recovered X nxt x) (\<lambda>_. having (indexing X B f0 (todo - {x}))) (\<lambda>_. having (durable X B))"
proof -
  obtain r p n where eq: "x = (r, p, n)" by (cases x) auto
  obtain q where r: "valid_stored_record (lib X) r" "sr_spool_seq r = Some q" "p = (Pending, pending_file_name q (sr_record_id r))"
    "q \<le> u64_max" "i64_ok (sr_admitted_at_ms r)" "i64_ok (sr_expires_at_ms r)"
    using x by (auto simp: item_ok_def eq)
  then have mig: "migrate_record X nxt x = ok (r, n, nxt)"
    by (auto simp: migrate_record_def eq valid_stored_record_def split: if_splits)
  have err: "having (durable X B) s" if "having P s" "\<And>st f. P st f \<Longrightarrow> indexing X B f0 todo st f" for P s
    using that by (auto simp: indexing_def elim!: having_mono)
  have gone: "triple (having (\<lambda>y f. y = st \<and> indexing X B f0 todo st f))
      (bindR (quarantine_file_bounded X p) (\<lambda>_. bindR bump_corrupt (\<lambda>_. ok nxt)))
      (\<lambda>_. having (indexing X B f0 (todo - {x}))) (\<lambda>_. having (durable X B))" if "has_gap q st" for st
  proof -
    let ?I = "\<lambda>y f. y = st \<and> indexing X B f0 todo st f"
    have rm: "indexing X B f0 (todo - {x}) st (f(p := None))" if "indexing X B f0 todo st f" for f
      using indexing_done [OF that, of q x] durable_remove_pending [of X B st f q] durable_gap [of X B st f q] that \<open>has_gap q st\<close> r(2)
      by (auto simp: indexing_def in_state_def eq r(3))
    have "triple (having ?I) (quarantine_file_bounded X p) (\<lambda>_. having (indexing X B f0 (todo - {x}))) (\<lambda>_. having (durable X B))"
      unfolding r(3) by (rule triple_conseq [OF quarantine_store [of Pending ?I]])
        (use rm in \<open>auto simp: put_def r(3) elim!: having_mono dest: indexing_durable\<close>)
    moreover have "keeps (having (indexing X B f0 (todo - {x}))) bump_corrupt"
      unfolding bump_corrupt_def
      by (rule triple_upd_having) (auto simp: indexing_def in_state_def has_gap_def notice_ids_def intro: durable_cong)
    ultimately show ?thesis
      by (intro triple_bind [where R = "\<lambda>_. having (indexing X B f0 (todo - {x}))"] triple_ok)
        (auto elim!: triple_conseq simp: indexing_def elim: having_mono)
  qed
  show ?thesis
    unfolding admit_recovered_def mig bindR_ok prod.case Let_def
  proof (intro triple_ok_or_bind triple_gets_having triple_if, goal_cases)
    case (1 sid q' st)
    show ?case
    proof (rule triple_having_pre [where c = "bt_ok (gaps st)"], simp add: indexing_def durable_def)
      assume "bt_ok (gaps st)"
      with 1 gone [of st] r(2) show ?thesis by (simp add: eq has_gap_values)
    qed
  next
    case (2 sid q' st)
    have e: "triple (having (\<lambda>y f. y = st \<and> indexing X B f0 todo st f)) (upd_state (index_entry e))
        (\<lambda>_. having (indexing X B f0 (todo - {x}))) F"
      if "e_spool_seq e = q" "e_stable_record_id e = sid" "entry_typed e" "\<not> bt_contains (entries st) (e_record_id e)" for e F
      by (rule triple_upd_having) (use that r(2) 2 x in \<open>auto simp: eq intro!: indexing_entry\<close>)
    show ?case
      using 2 r by (simp add: canonical_rename_def eq, intro triple_failIf_bind triple_bind [OF e triple_ok])
        (auto simp: entry_typed_def eq intro: err)
  qed (auto intro: err)
qed

lemma backed_covered:
  assumes "durable X B st f" "gaps_seen X UNIV st f"
  shows "covered X B {} [] st f"
proof -
  have "has_gap q st" if "gap_backed X f q" for q
    using that assms(2) by (auto simp: gap_backed_def gaps_seen_def)
  with assms(1) show ?thesis by (auto simp: covered_def durable_def backed_def)
qed

lemma scanning_indexing:
  assumes "scanning X B f0 (set names) found st f" "entries st = []" "\<forall>n. f0 (Pending, n) \<noteq> None \<longrightarrow> n \<in> set names"
  shows "indexing X B f0 (set found) st f"
proof -
  have "r \<in> fst ` set found" if r: "record_in X f r" "sr_spool_seq r = Some q"
      "pending_file_name q (sr_record_id r) \<in> set names \<longrightarrow> r \<in> fst ` set found" for r q
  proof -
    have "f0 (Pending, pending_file_name q (sr_record_id r)) \<noteq> None"
      using r(1,2) assms(1) unfolding record_in_def scanning_def map_le_def pending_of_def dom_def by fastforce
    with r(3) assms(3) show ?thesis by blast
  qed
  with assms(1,2) show ?thesis by (fastforce simp: scanning_def indexing_def covered_def in_state_def)
qed

lemma recover_files_indexing:
  assumes X: "file_laws X" "ctx_ok X" and now: "i64_ok now" and names: "\<forall>n. f0 (Pending, n) \<noteq> None \<longrightarrow> n \<in> set names"
  shows "triple (having (\<lambda>st f. empty_inv X st \<and> f = f0 \<and> notice_ids (lib X) st \<subseteq> disk_ids X f0 \<and> durable X B st f \<and> gaps_seen X UNIV st f))
      (for_fold names [] (recover_pending_file X now))
      (\<lambda>found. having (\<lambda>st f. indexing X B f0 (set found) st f \<and> (\<forall>x \<in> set found. item_ok X x \<and> record_in X f0 (fst x))))
      (\<lambda>_. having (durable X B))"
proof -
  let ?J = "\<lambda>D found st f. empty_inv X st \<and> scanning X B f0 D found st f"
  let ?I = "\<lambda>D found. having (?J D found)"
  have "triple (?I {} []) (for_fold names [] (recover_pending_file X now)) (?I ({} \<union> set names)) (\<lambda>_. having (durable X B))"
  proof (rule triple_for_fold_seen, goal_cases)
    case (1 name found D)
    show ?case
    proof (rule triple_having_pre [where c = "found_ok X found"])
      assume f: "found_ok X found"
      from triple_conj [OF recover_pending_file_empty [OF X(2) f] recover_pending_file_scanning [OF X(1) now]]
      show ?thesis unfolding having_on by (rule triple_conseq) (auto simp: on_def)
    qed (auto simp: scanning_def found_ok_def item_ok_def)
  qed
  then show ?thesis
  proof (rule triple_conseq)
    fix found s assume "?I ({} \<union> set names) found s"
    then show "having (\<lambda>st f. indexing X B f0 (set found) st f \<and> (\<forall>x \<in> set found. item_ok X x \<and> record_in X f0 (fst x))) s"
      using scanning_indexing [OF _ _ names] by (auto simp: empty_inv_def scanning_def elim!: having_mono)
  qed (auto simp: scanning_def backed_covered elim!: having_mono)
qed

lemma admit_all_indexing:
  assumes "\<And>x. x \<in> set xs \<Longrightarrow> item_ok X x \<and> record_in X f0 (fst x)"
  shows "triple (having (indexing X B f0 (set xs))) (for_fold xs start (admit_recovered X))
    (\<lambda>_. having (indexing X B f0 {})) (\<lambda>_. having (durable X B))"
proof -
  let ?I = "\<lambda>D _. having (indexing X B f0 (set xs - D))"
  have "triple (?I {} start) (for_fold xs start (admit_recovered X)) (?I ({} \<union> set xs)) (\<lambda>_. having (durable X B))"
  proof (rule triple_for_fold_seen, goal_cases)
    case (1 x n D)
    have "set xs - insert x D = set xs - D - {x}" by auto
    then show ?case using admit_recovered_indexing [of X x f0 B "set xs - D" n] assms [OF 1] by simp
  qed
  then show ?thesis by simp
qed

lemma recover_pending_indexed:
  assumes X: "file_laws X" "ctx_ok X" and now: "i64_ok now"
  shows "triple (having (\<lambda>st f. empty_inv X st \<and> f = f0 \<and> notice_ids (lib X) st \<subseteq> disk_ids X f0 \<and> durable X B st f \<and> gaps_seen X UNIV st f))
    (recover_pending X now)
    (\<lambda>_. having (\<lambda>st f. durable X B st f \<and> notice_ids (lib X) st \<subseteq> disk_ids X f0 \<and> (\<forall>q \<in> B. in_state q st)))
    (\<lambda>_. having (durable X B))"
proof -
  let ?P = "\<lambda>st f. empty_inv X st \<and> f = f0 \<and> notice_ids (lib X) st \<subseteq> disk_ids X f0 \<and> durable X B st f \<and> gaps_seen X UNIV st f"
  have env: "env_laws (ev X)" using X by (simp add: file_laws_def)
  have names: "triple (having ?P) (read_dir X Pending) (\<lambda>names. having (\<lambda>st f. ?P st f
        \<and> (\<forall>n. f0 (Pending, n) \<noteq> None \<longrightarrow> n \<in> set names))) (\<lambda>_. having (durable X B))"
    by (rule triple_conseq [OF read_dir_store [OF _ env, where P = ?P]]) (auto elim: having_mono)
  have tail: "triple (having (\<lambda>st f. indexing X B f0 (set found) st f \<and> (\<forall>x \<in> set found. item_ok X x \<and> record_in X f0 (fst x))))
      (bindR (gets state_of) (\<lambda>st. bindR (ok_or (migration_start found st) InvalidConfig) (\<lambda>start.
         bindR (for_fold (sort_recovered found) start (admit_recovered X)) (\<lambda>_. ok ()))))
      (\<lambda>_. having (\<lambda>st f. durable X B st f \<and> notice_ids (lib X) st \<subseteq> disk_ids X f0 \<and> (\<forall>q \<in> B. in_state q st)))
      (\<lambda>_. having (durable X B))" for found
  proof (rule triple_having_pre [where c = "\<forall>x \<in> set found. item_ok X x \<and> record_in X f0 (fst x)"])
    assume "\<forall>x \<in> set found. item_ok X x \<and> record_in X f0 (fst x)"
    then have ok: "item_ok X x \<and> record_in X f0 (fst x)" if "x \<in> set (sort_recovered found)" for x
      using that by (simp add: sort_recovered_def)
    show ?thesis
      by (rule triple_gets_having, intro triple_ok_or_bind, rule triple_weak [OF triple_bind [OF admit_all_indexing [OF ok] triple_ok]])
        (auto simp: indexing_def sort_recovered_def elim!: having_mono)
  qed simp
  show ?thesis
    unfolding recover_pending_def
  proof (rule triple_bind [OF names], goal_cases)
    case (1 names)
    show ?case
      by (rule triple_having_pre [where c = "\<forall>n. f0 (Pending, n) \<noteq> None \<longrightarrow> n \<in> set names"], simp,
          rule triple_weak, rule triple_bind [OF recover_files_indexing [OF X now] tail])
        (auto elim: having_mono)
  qed
qed

end
