(* ===== verification/Spool_Opened.thy ===== *)
theory Spool_Opened
  imports Spool_Recovered
begin

text \<open>
  \<open>Spool::open\<close> as a whole: the receipts found on the disk, what they release, and the
  fate of every other record and gap notice, whether the call succeeds or fails.
\<close>

section \<open>Receipts on the disk\<close>

definition receipt_in :: "ctx \<Rightarrow> store \<Rightarrow> ack_receipt \<Rightarrow> bool" where
  "receipt_in X f r \<longleftrightarrow> (\<exists>name b. f (Receipts, name) = Some (Regular b) \<and> file_holds X dec_receipt b r)"

text \<open>A receipt names a sequence number by an admission, or by the identifier of a valid gap notice.\<close>

definition receipt_names :: "crates \<Rightarrow> ack_receipt \<Rightarrow> nat \<Rightarrow> bool" where
  "receipt_names C r q \<longleftrightarrow> q \<in> ra_spool_seq ` set (rc_accepted_admissions r)
     \<or> (\<exists>n. gap_spool_seq n = q \<and> valid_gap_notice C n \<and> gap_notice_id n \<in> set (rc_accepted_gap_notice_ids r))"

definition acked_on_disk :: "ctx \<Rightarrow> spool \<Rightarrow> nat set" where
  "acked_on_disk X s = {q. \<exists>r. receipt_in X (store_in {Receipts} s) r \<and> receipt_names (lib X) r q}"

lemma receipt_inI: "f (Receipts, name) = Some (Regular b) \<Longrightarrow> file_holds X dec_receipt b r \<Longrightarrow> receipt_in X f r"
  by (auto simp: receipt_in_def)

lemma receipt_in_mono: "receipt_in X f r \<Longrightarrow> f \<subseteq>\<^sub>m f0 \<Longrightarrow> receipt_in X f0 r"
  unfolding receipt_in_def map_le_def by (metis domI)

text \<open>Calls of recovery before the receipts are read leave the receipts alone.\<close>

definition untouched :: "store \<Rightarrow> spool_state \<Rightarrow> store \<Rightarrow> bool" where
  "untouched f0 st f \<longleftrightarrow> f = f0 \<and> receipts st = []"

lemma untouched_upd: "(\<And>st. receipts (g st) = receipts st) \<Longrightarrow> keeps (holding {Receipts} (untouched f0)) (upd_state g)"
  by (rule triple_upd_having) (simp add: untouched_def)

lemma untouched_bump: "keeps (holding {Receipts} (untouched f0)) bump_corrupt"
  unfolding bump_corrupt_def by (rule untouched_upd) simp

lemma untouched_prepare: "keeps (holding {Receipts} (untouched f0)) (recover_prepare X)"
  unfolding recover_prepare_def by (intro keeps_bind keeps_pure calm untouched_bump)

lemma untouched_persist_gap: "keeps (holding {Receipts} (untouched f0)) (persist_gap_locked X e t r)"
  unfolding persist_gap_locked_def Let_def
  by (intro keeps_bind keeps_pure calm triple_if triple_temporary_bind untouched_upd) (simp_all add: insert_gap_def calm)

lemma untouched_gaps: "keeps (holding {Receipts} (untouched f0)) (recover_gaps X)"
  unfolding recover_gaps_def recover_gap_def
  by (intro keeps_bind keeps_pure calm untouched_upd) (simp add: insert_gap_def)

lemma untouched_quarantine: "keeps (holding {Receipts} (untouched f0)) (quarantine_recovered_pending X name now)"
  unfolding quarantine_recovered_pending_def
  by (auto split: option.split prod.split intro!: keeps_bind keeps_match keeps_pure calm untouched_bump untouched_persist_gap)

text \<open>The items found are in the pending directory.\<close>

definition found_pending :: "recovered list \<Rightarrow> bool" where
  "found_pending found \<longleftrightarrow> (\<forall>x \<in> set found. fst (fst (snd x)) = Pending)"

lemma untouched_pending_file:
  assumes "found_pending found"
  shows "triple (holding {Receipts} (untouched f0)) (recover_pending_file X now found name)
    (\<lambda>found'. holding {Receipts} (\<lambda>st f. untouched f0 st f \<and> found_pending found')) (\<lambda>_. holding {Receipts} (untouched f0))"
proof -
  let ?Q = "\<lambda>found'. holding {Receipts} (\<lambda>st f. untouched f0 st f \<and> found_pending found')"
  have okf: "triple (holding {Receipts} (untouched f0)) (ok g) ?Q (\<lambda>_. holding {Receipts} (untouched f0))"
    if "found_pending g" for g
    using that by (intro triple_ok) (auto elim: having_mono)
  have skip: "triple (holding {Receipts} (untouched f0)) (bindR (quarantine_recovered_pending X name now) (\<lambda>_. ok found)) ?Q
      (\<lambda>_. holding {Receipts} (untouched f0))"
    by (rule triple_bind [OF untouched_quarantine okf [OF assms]])
  have snoc: "found_pending (found @ [(r, (Pending, name), n)])" for r n using assms by (auto simp: found_pending_def)
  show ?thesis
    unfolding recover_pending_file_def Let_def
    by (intro triple_calm_bind calm triple_if skip)
      (auto split: sum.split crypto_error.split option.split intro!: skip triple_ok_or_bind okf snoc triple_fail)
qed

lemma calm_rename_other [calm]: "fst p \<notin> D \<Longrightarrow> fst q \<notin> D \<Longrightarrow> keeps (holding D P) (fs_rename E p q)"
  by (rule calm_touch, rule touch) (auto simp: data_dirs_def)

lemma untouched_admit:
  assumes "fst (fst (snd x)) = Pending"
  shows "keeps (holding {Receipts} (untouched f0)) (admit_recovered X nxt x)"
proof -
  obtain r n m where x: "x = (r, (Pending, n), m)" using assms by (cases x) auto
  have idx: "keeps (holding {Receipts} (untouched f0)) (upd_state (index_entry e))" for e
    by (rule untouched_upd) (simp add: index_entry_def)
  have mig: "keeps (holding {Receipts} (untouched f0)) (migrate_record X nxt x)"
    unfolding migrate_record_def x prod.case Let_def
    by (intro triple_if triple_ok_or_bind keeps_bind [OF calm_spool_encrypt] triple_temporary_bind)
      (auto intro!: keeps_bind keeps_pure calm)
  have mv: "keeps (holding {Receipts} (untouched f0)) (canonical_rename X (Pending, n) (Pending, c))" for c
    unfolding canonical_rename_def by (intro keeps_bind keeps_pure calm triple_if) simp_all
  show ?thesis
    unfolding admit_recovered_def Let_def
    by (rule keeps_bind [OF mig])
      (auto simp: x split: prod.split intro!: keeps_bind keeps_pure calm triple_if idx mv untouched_bump)
qed

lemma untouched_pending: "keeps (holding {Receipts} (untouched f0)) (recover_pending X now)"
proof -
  have files: "triple (holding {Receipts} (untouched f0)) (for_fold names [] (recover_pending_file X now))
      (\<lambda>found. holding {Receipts} (\<lambda>st f. untouched f0 st f \<and> found_pending found)) (\<lambda>_. holding {Receipts} (untouched f0))" for names
  proof (rule triple_weak [where P' = "holding {Receipts} (\<lambda>st f. untouched f0 st f \<and> found_pending [])"], rule triple_for_fold, goal_cases)
    case (1 name found)
    show ?case
      by (rule triple_having_pre [where c = "found_pending found"], simp, rule triple_weak [OF untouched_pending_file])
        (auto elim: having_mono)
  qed (auto simp: found_pending_def elim: having_mono)
  show ?thesis
    unfolding recover_pending_def
  proof (rule keeps_bind [OF calm_read_dir], rule triple_bind [OF files], goal_cases)
    case (1 names found)
    show ?case
    proof (rule triple_having_pre [where c = "found_pending found"], simp, goal_cases)
      case 1
      then have "keeps (holding {Receipts} (untouched f0)) (for_fold (sort_recovered found) start (admit_recovered X))" for start
        by (intro triple_for_fold untouched_admit) (auto simp: found_pending_def sort_recovered_def)
      then show ?case
        by (rule_tac P' = "holding {Receipts} (untouched f0)" in triple_weak)
          (intro keeps_bind keeps_pure, auto elim: having_mono)
    qed
  qed
qed

lemma untouched_counters: "keeps (holding {Receipts} (untouched f0)) (recover_counters X)"
  unfolding recover_counters_def
  by (intro keeps_bind keeps_pure calm untouched_upd) (simp add: apply_sequence_state_def)

section \<open>Reading the receipts\<close>

definition from_disk :: "ctx \<Rightarrow> store \<Rightarrow> spool_state \<Rightarrow> store \<Rightarrow> bool" where
  "from_disk X f0 st f \<longleftrightarrow> f \<subseteq>\<^sub>m f0 \<and> bt_ok (receipts st) \<and> (\<forall>v \<in> set (bt_values (receipts st)). receipt_in X f0 (re_receipt v))"

lemma untouched_from_disk: "untouched f0 st f \<Longrightarrow> from_disk X f0 st f"
  by (simp add: untouched_def from_disk_def)

lemma from_disk_index:
  assumes "from_disk X f0 st f" "receipt_in X f r"
  shows "from_disk X f0 (index_receipt r p st) f"
  using assms receipt_in_mono [OF assms(2), of f0]
  by (auto simp: from_disk_def index_receipt_def bt_values_def set_bt_insert)

lemma recover_receipt_from_disk:
  "keeps (holding {Receipts} (from_disk X f0)) (recover_receipt_file X name)"
proof -
  let ?I = "from_disk X f0"
  let ?at = "\<lambda>b st f. ?I st f \<and> f (Receipts, name) = Some (Regular b)"
  have skip: "triple (holding {Receipts} P) (bindR (quarantine_file_bounded X (Receipts, name)) (\<lambda>_. bump_corrupt))
      (\<lambda>_. holding {Receipts} ?I) (\<lambda>_. holding {Receipts} ?I)" if "\<And>st f. P st f \<Longrightarrow> ?I st f" for P
  proof (rule triple_weak [where P' = "holding {Receipts} ?I"], rule triple_bind)
    show "triple (holding {Receipts} ?I) (quarantine_file_bounded X (Receipts, name)) (\<lambda>_. holding {Receipts} ?I) (\<lambda>_. holding {Receipts} ?I)"
      by (rule triple_conseq [OF quarantine_holding [where P = ?I]])
        (auto simp: put_def from_disk_def pending_removed calm_dirs elim!: having_mono)
    show "keeps (holding {Receipts} ?I) bump_corrupt"
      unfolding bump_corrupt_def by (rule triple_upd_having) (simp add: from_disk_def)
  qed (use that in \<open>auto elim: having_mono\<close>)
  have rd: "triple (holding {Receipts} ?I) (map_err map_io_error (fs_read (ev X) (Receipts, name)))
      (\<lambda>b. holding {Receipts} (?at b)) (\<lambda>_. holding {Receipts} ?I)"
    by (rule triple_map_err, rule triple_conseq [OF read_store [where P = ?I]]) (auto elim: having_mono)
  have idx: "triple (holding {Receipts} (?at b)) (bindR (gets state_of) (\<lambda>st.
      if \<not> valid_receipt r name st
      then bindR (quarantine_file_bounded X (Receipts, name)) (\<lambda>_. bump_corrupt)
      else upd_state (index_receipt r (Receipts, name)))) (\<lambda>_. holding {Receipts} ?I) (\<lambda>_. holding {Receipts} ?I)"
    if "file_holds X dec_receipt b r" for b r
  proof (rule triple_gets_having, rule triple_if, goal_cases)
    case (1 st)
    show ?case by (rule skip) blast
  next
    case (2 st)
    show ?case
      by (rule triple_upd_having) (use that in \<open>auto intro!: from_disk_index receipt_inI\<close>)
  qed
  have dec: "triple (holding {Receipts} (?at b)) (case decrypt (lib X) (spool_key X) b of
       Inl KeyMismatch \<Rightarrow> fail SpoolKeyMismatch
     | Inl InvalidCiphertext \<Rightarrow> bindR (quarantine_file_bounded X (Receipts, name)) (\<lambda>_. bump_corrupt)
     | Inr plaintext \<Rightarrow>
         (case json_from_slice (lib X) dec_receipt plaintext of
            None \<Rightarrow> bindR (quarantine_file_bounded X (Receipts, name)) (\<lambda>_. bump_corrupt)
          | Some r \<Rightarrow>
              bindR (gets state_of) (\<lambda>st.
              if \<not> valid_receipt r name st
              then bindR (quarantine_file_bounded X (Receipts, name)) (\<lambda>_. bump_corrupt)
              else upd_state (index_receipt r (Receipts, name))))) (\<lambda>_. holding {Receipts} ?I) (\<lambda>_. holding {Receipts} ?I)" for b
    by (auto split: sum.split crypto_error.split option.split intro!: skip idx triple_fail simp: file_holds_def elim: having_mono)
  show ?thesis
    unfolding recover_receipt_file_def Let_def
    by (intro keeps_bind [OF calm_dir_entry] triple_if keeps_bind [OF calm_map_err [OF calm_io(2)]] triple_bind [OF rd] dec skip)
qed

text \<open>The numbers a receipt of the state releases.\<close>

lemma receipt_seqs_names:
  assumes "base_inv X st" "digest_laws (lib X)" "q \<in> receipt_seqs (lib X) st r"
  shows "receipt_names (lib X) r q"
proof (cases "q \<in> ra_spool_seq ` set (rc_accepted_admissions r)")
  case False
  then obtain n where n: "n \<in> set (rc_accepted_gap_notice_ids r)" "(n, q) \<in> notice_ids (lib X) st"
    using assms(3) by (auto simp: receipt_seqs_def)
  then consider (e) e reason where "e \<in> set (bt_values (entries st))" "n = gap_notice_id (gap_notice (lib X) e 0 reason)" "q = e_spool_seq e"
    | (g) g where "g \<in> set (bt_values (gaps st))" "n = gap_notice_id (g_notice g)" "q = gap_spool_seq (g_notice g)"
    by (auto simp: notice_ids_def)
  then show ?thesis
  proof cases
    case e
    from entry_get [OF assms(1) e(1)] have "0 < e_spool_seq e" using assms(1) by (auto dest: entry_facts)
    from valid_gap_notice_gap_notice [OF assms(2) this] e n(1) show ?thesis
      by (auto simp: receipt_names_def gap_notice_def gap_notice_for_identity_def Let_def intro!: exI [of _ "gap_notice (lib X) e 0 reason"])
  next
    case g
    then obtain k where "bt_get (gaps st) k = Some g" using assms(1) by (auto simp: bt_values_iff base_inv_def maps_ok_def)
    then have "valid_gap_notice (lib X) (g_notice g)" using assms(1) by (auto simp: base_inv_def gaps_inv_def gap_ok_def)
    with g n(1) show ?thesis by (auto simp: receipt_names_def)
  qed
qed (simp add: receipt_names_def)

section \<open>Completing the receipts\<close>

text \<open>The state found on the disk: durable, with the numbers of \<open>B\<close> in it, and without collisions.\<close>

definition indexed :: "ctx \<Rightarrow> nat set \<Rightarrow> (rid \<times> nat) set \<Rightarrow> spool_state \<Rightarrow> store \<Rightarrow> bool" where
  "indexed X B I st f \<longleftrightarrow> durable X B st f \<and> notice_ids (lib X) st \<subseteq> I \<and> (\<forall>q \<in> B. in_state q st)"

lemma indexed_upd:
  "(\<And>st. gaps (g st) = gaps st) \<Longrightarrow> (\<And>st. entries (g st) = entries st) \<Longrightarrow> keeps (having (indexed X B I)) (upd_state g)"
  by (rule triple_upd_having) (auto simp: indexed_def in_state_def has_gap_def notice_ids_def intro: durable_cong)

lemma indexed_counters: "keeps (having (indexed X B I)) (recover_counters X)"
  unfolding recover_counters_def
  by (intro keeps_bind keeps_pure calm indexed_upd) (simp_all add: apply_sequence_state_def)

lemma indexed_receipt_file: "keeps (having (indexed X B I)) (recover_receipt_file X name)"
proof -
  have skip: "keeps (having (indexed X B I)) (bindR (quarantine_file_bounded X (Receipts, name)) (\<lambda>_. bump_corrupt))"
    unfolding bump_corrupt_def by (intro keeps_bind calm indexed_upd) simp_all
  have idx: "keeps (having (indexed X B I)) (upd_state (index_receipt r p))" for r p
    by (rule indexed_upd) (simp_all add: index_receipt_def)
  show ?thesis
    unfolding recover_receipt_file_def Let_def
    by (intro keeps_bind keeps_pure calm triple_if skip)
      (auto split: sum.split crypto_error.split option.split intro!: keeps_bind keeps_pure triple_if skip idx)
qed

text \<open>A later state in custody of such a state, with what the receipts release.\<close>

definition settled :: "ctx \<Rightarrow> nat set \<Rightarrow> nat set \<Rightarrow> spool \<Rightarrow> bool" where
  "settled X A B s \<longleftrightarrow> (\<exists>st0. state_inv X st0 \<and> collision_free (lib X) st0 \<and> B \<subseteq> live_seqs st0 \<and> having (kept X st0 A B) s)"

lemma settled_keeps:
  assumes "\<And>st0. keeps (having (kept X st0 A B)) m"
  shows "keeps (settled X A B) m"
proof (rule keepsI)
  fix s assume "settled X A B s"
  then obtain st0 where st0: "state_inv X st0" "collision_free (lib X) st0" "B \<subseteq> live_seqs st0" "having (kept X st0 A B) s"
    by (auto simp: settled_def)
  from keepsD [OF assms st0(4)] st0(1-3) show "settled X A B (snd (m s))" by (auto simp: settled_def)
qed

lemma settled_facts:
  assumes "settled X A B s" "A \<inter> B = {}"
  shows "state_inv X (state_of s)" "collision_free (lib X) (state_of s)" "B \<subseteq> live_seqs (state_of s)"
    "having (durable X B) s" "disk_ok s"
proof -
  obtain st0 where st0: "state_inv X st0" "collision_free (lib X) st0" "B \<subseteq> live_seqs st0" "having (kept X st0 A B) s"
    using assms(1) by (auto simp: settled_def)
  then have c: "custody X st0 A (state_of s)" and d: "having (durable X B) s" "disk_ok s" by (auto simp: holding_def kept_def)
  show "state_inv X (state_of s)" by (rule custody_state_inv [OF st0(1) c])
  have "notice_ids (lib X) (state_of s) \<subseteq> notice_ids (lib X) st0" using c by (simp add: custody_def)
  with st0(2) show "collision_free (lib X) (state_of s)" unfolding collision_free_def by (blast intro: single_valued_subset)
  have "live_seqs st0 \<subseteq> live_seqs (state_of s) \<union> A" using c by (simp add: custody_def)
  with st0(3) assms(2) show "B \<subseteq> live_seqs (state_of s)" by blast
  show "having (durable X B) s" "disk_ok s" by (rule d)+
qed

lemma recover_receipts_settled:
  assumes P: "phase X A B" and I: "single_valued I"
    and A: "\<And>r q. receipt_in X f0 r \<Longrightarrow> receipt_names (lib X) r q \<Longrightarrow> q \<in> A"
  shows "triple (\<lambda>s. on (state_inv X) s \<and> having (indexed X B I) s \<and> holding {Receipts} (untouched f0) s) (recover_receipts X)
    (\<lambda>_. settled X A B) (\<lambda>_. having (durable X B))"
proof -
  let ?R = "\<lambda>s. on (state_inv X) s \<and> having (indexed X B I) s \<and> holding {Receipts} (from_disk X f0) s"
  have err: "having (durable X B) s" if "?R s" for s using that by (auto simp: indexed_def elim: having_mono)
  have files: "keeps ?R (for_each names (recover_receipt_file X))" for names
    by (rule triple_for_each, rule triple_conj [OF recover_receipt_file_state triple_conj [OF indexed_receipt_file recover_receipt_from_disk]])
  have dir: "keeps ?R (read_dir X Receipts)"
    by (rule triple_conj [OF quiet_read_dir triple_conj [OF calm_read_dir calm_read_dir]])
  have start: "kept X st A B st f \<and> state_inv X st \<and> collision_free (lib X) st \<and> B \<subseteq> live_seqs st"
    if "state_inv X st" "indexed X B I st f" for st f
  proof -
    have "collision_free (lib X) st"
      using that(2) I unfolding indexed_def collision_free_def by (blast intro: single_valued_subset)
    then show ?thesis using that by (auto simp: kept_def indexed_def state_inv_def intro: custody_refl in_state_live)
  qed
  have rest: "triple (\<lambda>s. ?R s \<and> st = state_of s) (bindR (for_fold (map re_receipt (bt_values (receipts st))) (False, False)
        (\<lambda>fl r. complete_removals X r fl)) (\<lambda>(removed_pending, removed_gaps).
     bindR (if removed_pending then sync_directory (ev X) Pending else ok ()) (\<lambda>_.
     if removed_gaps then sync_directory (ev X) Gaps else ok ()))) (\<lambda>_. settled X A B) (\<lambda>_. having (durable X B))" for st
  proof (rule triple_pre, goal_cases)
    case (1 s)
    then have st: "state_inv X st" "having (indexed X B I) s" "holding {Receipts} (from_disk X f0) s" "disk_ok s" "state_of s = st"
      by (auto simp: on_def holding_def)
    have k: "having (kept X st A B) s" "collision_free (lib X) st" "B \<subseteq> live_seqs st"
      using start [OF st(1), of "store_of s"] st by (auto simp: holding_def)
    have laws: "base_inv X st" "digest_laws (lib X)"
      using st(1) P by (auto simp: state_inv_def phase_def file_laws_def)
    have rs: "receipt_seqs (lib X) st r \<subseteq> A" if r: "r \<in> re_receipt ` set (bt_values (receipts st))" for r
    proof -
      have "receipt_in X f0 r" using st(3,5) r by (auto simp: holding_def from_disk_def)
      then show ?thesis using receipt_seqs_names [OF laws] A by blast
    qed
    have "keeps (having (kept X st A B)) (bindR (for_fold (map re_receipt (bt_values (receipts st))) (False, False)
        (\<lambda>fl r. complete_removals X r fl)) (\<lambda>(removed_pending, removed_gaps).
      bindR (if removed_pending then sync_directory (ev X) Pending else ok ()) (\<lambda>_.
      if removed_gaps then sync_directory (ev X) Gaps else ok ())))"
      by (auto intro!: keeps_bind keeps_pure calm triple_for_fold complete_removals_kept [OF P] subsetI
          dest: subsetD [OF rs, rotated] split: prod.split)
    then show ?case
      by (rule triple_conseq) (use k st(1) in \<open>auto simp: settled_def kept_def elim: having_mono\<close>)
  qed
  show ?thesis
    unfolding recover_receipts_def
  proof (rule triple_weak [where P' = ?R], rule triple_bind [OF triple_conseq [OF dir]], assumption, assumption, erule err,
      rule triple_bind [OF triple_conseq [OF files]], assumption, assumption, erule err, rule triple_gets_bind, goal_cases)
    case (1 names u st)
    show ?case by (rule rest)
  qed (auto intro: untouched_from_disk elim: having_mono)
qed

lemma recover_finish_settled:
  assumes P: "phase X A B"
  shows "keeps (settled X A B) (recover_finish X now)"
proof (rule settled_keeps)
  fix st0
  have "custody X st0 A (st\<lparr>counted_pending_expirations := filter Q (counted_pending_expirations st)\<rparr>)"
    if "custody X st0 A st" for st Q
    by (rule custody_cong [OF that base_inv_cong [OF _ _ _ _ _ _ _ _ custody_base [OF that]]])
      (use custody_base [OF that] in \<open>auto simp: base_inv_def maps_ok_def bt_ok_def sorted_wrt_map intro: sorted_wrt_filter\<close>)
  then have filt: "keeps (having (kept X st0 A B)) (upd_state (\<lambda>st. st\<lparr>counted_pending_expirations :=
      filter (\<lambda>p. fst p \<in> set (pending_sequences st)) (counted_pending_expirations st)\<rparr>))"
    by (intro kept_upd) auto
  show "keeps (having (kept X st0 A B)) (recover_finish X now)"
    unfolding recover_finish_def
    by (intro keeps_bind keeps_pure calm filt expire_due_kept [OF P] prune_kept)
qed

section \<open>Opening\<close>

definition disk_keeps :: "ctx \<Rightarrow> nat set \<Rightarrow> spool \<Rightarrow> bool" where
  "disk_keeps X B s \<longleftrightarrow> disk_ok s \<and> named X (store_of s) \<and> (\<forall>q \<in> B. backed X (store_of s) q)"

lemma durable_disk_keeps: "having (durable X B) s \<Longrightarrow> disk_keeps X B s"
  by (simp add: holding_def durable_def disk_keeps_def)

lemma recover_settled:
  assumes P: "phase X A B" and now: "i64_ok now" and I: "single_valued (disk_ids X f0)"
    and A: "\<And>r q. receipt_in X fr r \<Longrightarrow> receipt_names (lib X) r q \<Longrightarrow> q \<in> A"
  shows "triple (\<lambda>s. on (empty_inv X) s \<and> having (\<lambda>st f. f = f0 \<and> gaps st = [] \<and> durable X B st f) s \<and> holding {Receipts} (untouched fr) s)
    (recover X now) (\<lambda>_. settled X A B) (\<lambda>_. disk_keeps X B)"
proof -
  have X: "file_laws X" "ctx_ok X" "env_laws (ev X)" using P by (simp_all add: phase_def file_laws_def)
  let ?E = "on (empty_inv X)"
  let ?U = "holding {Receipts} (untouched fr)"
  let ?D = "\<lambda>st f. f = f0 \<and> notice_ids (lib X) st \<subseteq> disk_ids X f0 \<and> durable X B st f"
  let ?G = "\<lambda>st f. f = f0 \<and> notice_ids (lib X) st \<subseteq> disk_ids X f0 \<and> durable X B st f \<and> gaps_seen X UNIV st f"
  have d: "disk_keeps X B s" if "having P s" "\<And>st f. P st f \<Longrightarrow> durable X B st f" for P s
    by (rule durable_disk_keeps) (use that in \<open>auto elim: having_mono\<close>)
  have prepare: "triple (\<lambda>s. ?E s \<and> having ?D s \<and> ?U s) (recover_prepare X) (\<lambda>_ s. ?E s \<and> having ?D s \<and> ?U s) (\<lambda>_. disk_keeps X B)"
  proof -
    have "keeps (having ?D) (recover_prepare X)"
      unfolding recover_prepare_def bump_corrupt_def
      by (intro keeps_bind keeps_pure calm triple_upd_having) (auto simp: notice_ids_def intro: durable_cong)
    from triple_conj [OF recover_prepare_empty triple_conj [OF this untouched_prepare]] show ?thesis
      by (rule triple_conseq) (auto elim!: d)
  qed
  have gaps: "triple (\<lambda>s. ?E s \<and> having ?D s \<and> ?U s) (recover_gaps X) (\<lambda>_ s. ?E s \<and> having ?G s \<and> ?U s) (\<lambda>_. disk_keeps X B)"
    using triple_conj [OF recover_gaps_empty [OF X(2)] triple_conj [OF recover_gaps_seen [OF X(3)] untouched_gaps]]
    by (rule triple_conseq) (auto elim!: d)
  have pending: "triple (\<lambda>s. ?E s \<and> having ?G s \<and> ?U s) (recover_pending X now)
      (\<lambda>_ s. on (base_inv X) s \<and> having (indexed X B (disk_ids X f0)) s \<and> ?U s) (\<lambda>_. disk_keeps X B)"
    using triple_conj [OF recover_pending_base [OF X(2)] triple_conj [OF recover_pending_indexed [OF X(1,2) now] untouched_pending]]
    by (rule triple_conseq) (auto elim!: d simp: having_on indexed_def elim: having_mono)
  have counters: "triple (\<lambda>s. on (base_inv X) s \<and> having (indexed X B (disk_ids X f0)) s \<and> ?U s) (recover_counters X)
      (\<lambda>_ s. on (state_inv X) s \<and> having (indexed X B (disk_ids X f0)) s \<and> ?U s) (\<lambda>_. disk_keeps X B)"
    using triple_conj [OF recover_counters_state triple_conj [OF indexed_counters untouched_counters]]
    by (rule triple_conseq) (auto elim!: d simp: indexed_def)
  have receipts: "triple (\<lambda>s. on (state_inv X) s \<and> having (indexed X B (disk_ids X f0)) s \<and> ?U s) (recover_receipts X)
      (\<lambda>_. settled X A B) (\<lambda>_. disk_keeps X B)"
    by (rule triple_conseq [OF recover_receipts_settled [OF P I A]]) (auto elim!: d)
  have finish: "triple (settled X A B) (recover_finish X now) (\<lambda>_. settled X A B) (\<lambda>_. disk_keeps X B)"
    by (rule triple_conseq [OF recover_finish_settled [OF P]]) (auto simp: settled_def kept_def elim!: d)
  show ?thesis
    unfolding recover_def
    by (rule triple_weak, rule triple_bind [OF prepare], rule triple_bind [OF gaps], rule triple_bind [OF pending],
        rule triple_bind [OF counters], rule triple_bind [OF receipts], rule finish)
      (auto simp: holding_def on_def empty_inv_def notice_ids_def)
qed

text \<open>The disk as it was when the call began.\<close>

abbreviation as_found :: "spool \<Rightarrow> spool \<Rightarrow> bool" where
  "as_found s0 \<equiv> holding {Pending, Gaps, Receipts} (\<lambda>_ f. f = store_in {Pending, Gaps, Receipts} s0)"

lemma as_found_stores:
  assumes "as_found s0 s"
  shows "disk_ok s" "store_of s = store_of s0" "store_in {Receipts} s = store_in {Receipts} s0"
proof -
  have eq: "store_in {Pending, Gaps, Receipts} s = store_in {Pending, Gaps, Receipts} s0"
    using assms by (simp add: holding_def)
  have sub: "store_in D u = (\<lambda>p. if fst p \<in> D then store_in {Pending, Gaps, Receipts} u p else None)"
    if "D \<subseteq> {Pending, Gaps, Receipts}" for D u
    using that by (auto simp: store_in_def fun_eq_iff)
  have "store_in D s = store_in D s0" if "D \<subseteq> {Pending, Gaps, Receipts}" for D
    unfolding sub [OF that] eq ..
  then show "store_of s = store_of s0" "store_in {Receipts} s = store_in {Receipts} s0" by simp_all
  show "disk_ok s" using assms by (simp add: holding_def)
qed

lemma as_found_calls:
  "keeps (as_found s0) (acquire_spool_lock X lock_held)" "keeps (as_found s0) (create_directories X)"
  "keeps (as_found s0) (read_spool_format_marker X)" "keeps (as_found s0) (reject_ambiguous_previous_receipts X)"
  unfolding acquire_spool_lock_def create_directories_def read_spool_format_marker_def reject_ambiguous_previous_receipts_def
  by (intro keeps_bind keeps_match keeps_pure calm)+

lemma spool_open_settled:
  assumes P: "phase X (acked_on_disk X s0) B" and now: "i64_ok now"
    and I: "single_valued (disk_ids X (store_of s0))" and d: "disk_keeps X B s0"
  shows "triple (\<lambda>s. s = s0) (spool_open X lock_held now) (\<lambda>_. settled X (acked_on_disk X s0) B) (\<lambda>_. disk_keeps X B)"
proof -
  let ?A = "acked_on_disk X s0" and ?fr = "store_in {Receipts} s0"
  let ?S = "\<lambda>s. on (empty_inv X) s \<and> having (\<lambda>st f. f = store_of s0 \<and> gaps st = [] \<and> durable X B st f) s \<and> holding {Receipts} (untouched ?fr) s"
  have A: "q \<in> ?A" if "receipt_in X ?fr r" "receipt_names (lib X) r q" for r q
    using that by (auto simp: acked_on_disk_def)
  have found: "disk_keeps X B s" if "as_found s0 s" for s
    using as_found_stores [OF that] d by (simp add: disk_keeps_def)
  have k: "triple (as_found s0) m (\<lambda>_. as_found s0) (\<lambda>_. disk_keeps X B)" if "keeps (as_found s0) m" for m :: "'a spool_proc"
    by (rule triple_conseq [OF that]) (auto intro: found)
  have reset: "triple (as_found s0) (modify (\<lambda>s. s\<lparr>state_of := default_state\<lparr>v1_ack_history_pruned := b\<rparr>,
      storage_write_failed := False\<rparr>)) (\<lambda>_. ?S) (\<lambda>_. disk_keeps X B)" for b
  proof (rule triple_modify)
    fix s assume s: "as_found s0 s"
    have "empty_inv X (default_state\<lparr>v1_ack_history_pruned := b\<rparr>)"
      using base_inv_default [of X b] by (simp add: empty_inv_def default_state_def)
    moreover have "durable X B (default_state\<lparr>v1_ack_history_pruned := b\<rparr>) (store_of s0)"
      using d by (simp add: durable_def disk_keeps_def default_state_def)
    ultimately show "?S (s\<lparr>state_of := default_state\<lparr>v1_ack_history_pruned := b\<rparr>, storage_write_failed := False\<rparr>)"
      using as_found_stores [OF s] by (simp add: holding_def on_def untouched_def default_state_def disk_ok_def)
  qed
  have first: "triple ?S (if c then bindR (recover_sequence_state X) (\<lambda>q. bindR (ok_or q SequenceStateMissing) (\<lambda>_. ok ())) else ok ())
      (\<lambda>_. ?S) (\<lambda>_. disk_keeps X B)" for c
  proof -
    have "keeps (holding D Q) (if c then bindR (recover_sequence_state X) (\<lambda>q. bindR (ok_or q SequenceStateMissing) (\<lambda>_. ok ())) else ok ())" for D Q
      by (intro keeps_bind keeps_pure calm)
    moreover have "keeps (on Q) (if c then bindR (recover_sequence_state X) (\<lambda>q. bindR (ok_or q SequenceStateMissing) (\<lambda>_. ok ())) else ok ())" for Q
      by (intro keeps_bind keeps_pure quiet)
    ultimately have "keeps ?S (if c then bindR (recover_sequence_state X) (\<lambda>q. bindR (ok_or q SequenceStateMissing) (\<lambda>_. ok ())) else ok ())"
      by (intro triple_conj)
    then show ?thesis
      by (rule triple_conseq) (auto intro!: durable_disk_keeps elim: having_mono)
  qed
  have marker: "triple (settled X ?A B) (if c then write_current_spool_format_marker X v else ok ()) (\<lambda>_. settled X ?A B) (\<lambda>_. disk_keeps X B)" for c v
  proof -
    have "keeps (settled X ?A B) (if c then write_current_spool_format_marker X v else ok ())"
      unfolding write_current_spool_format_marker_def
      by (rule settled_keeps) (auto intro!: keeps_pure triple_temporary_bind calm)
    then show ?thesis
      by (rule triple_conseq) (auto simp: settled_def having_kept intro: durable_disk_keeps)
  qed
  have "triple (as_found s0) (spool_open X lock_held now) (\<lambda>_. settled X ?A B) (\<lambda>_. disk_keeps X B)"
    unfolding spool_open_def
    by (rule triple_bind [OF k], rule keeps_pure, rule triple_bind [OF k [OF as_found_calls(1)]],
        rule triple_bind [OF k [OF as_found_calls(2)]], rule triple_bind [OF k [OF as_found_calls(3)]],
        rule triple_bind [OF k], intro calm keeps_pure as_found_calls(4), rule triple_bind [OF reset],
        rule triple_bind [OF first], rule triple_bind [OF recover_settled [OF P now I A]], assumption, assumption, rule marker)
  then show ?thesis
    by (rule triple_weak) (use d in \<open>simp add: holding_def disk_keeps_def\<close>)
qed

section \<open>The life of a spool\<close>

lemma perform_live:
  assumes inv: "spool_inv X s" and ok: "request_ok X (state_of s) r"
  shows "live_seqs (state_of s) \<subseteq> live_seqs (state_of (perform X r s)) \<union> released X (state_of s) r"
proof -
  have X: "ctx_ok X" and si: "state_inv X (state_of s)" "base_inv X (state_of s)" "collision_free (lib X) (state_of s)"
    and s: "on (\<lambda>x. x = state_of s) s"
    using inv by (auto simp: spool_inv_def on_def state_inv_def)
  have c: "live_seqs (state_of s) \<subseteq> live_seqs (state_of t) \<union> A" if "on (custody X (state_of s) A) t" for A t
    using that by (simp add: on_def custody_def)
  have safe: "live_seqs (state_of s) \<subseteq> live_seqs (state_of (snd (m s)))" if "safe X m" for m :: "'a spool_proc"
    using c [OF safe_step [OF that inv]] by simp
  show ?thesis
  proof (cases r)
    case (Enqueue envelope now)
    let ?Q = "on (\<lambda>st. live_seqs (state_of s) \<subseteq> live_seqs st)"
    have "triple (on (\<lambda>x. x = state_of s)) (enqueue X envelope now) (\<lambda>_. ?Q) (\<lambda>_. ?Q)"
      by (rule triple_conseq [OF enqueue_state]) (use X si ok Enqueue in \<open>auto simp: admitted_def elim!: on_mono\<close>)
    from triple_snd [OF this s] show ?thesis by (simp add: Enqueue on_def)
  next
    case (Acknowledge a)
    from c [OF triple_snd [OF acknowledge_v1_custody [OF X si(2,3)] s]] show ?thesis by (simp add: Acknowledge)
  next
    case (AcknowledgeV2 a)
    from c [OF triple_snd [OF acknowledge_v2_custody [OF X si(2,3)] s]] show ?thesis by (simp add: AcknowledgeV2)
  qed (simp_all add: safe [OF safe_next_batch [OF X]] safe [OF safe_next_batch_v2 [OF X]] safe [OF safe_expire_due [OF X]]
      safe [OF safe_spool_sync])
qed

text \<open>
  Requests, failed attempts to open, and reopening, in any order. A request is served by an
  open spool only; the flag says whether the last attempt to open succeeded, and the set
  what was released: by acknowledgements, and by the receipts found when opening.
\<close>

inductive life :: "ctx \<Rightarrow> spool \<Rightarrow> nat set \<Rightarrow> bool \<Rightarrow> spool \<Rightarrow> bool" for X s where
  life_start: "life X s {} True s"
| life_request: "life X s A True t \<Longrightarrow> request_ok X (state_of t) r \<Longrightarrow>
     life X s (A \<union> released X (state_of t) r) True (perform X r t)"
| life_open: "life X s A b t \<Longrightarrow> i64_ok now \<Longrightarrow> single_valued (disk_ids X (store_of t)) \<Longrightarrow>
     spool_open X lock_held now t = (r, u) \<Longrightarrow> life X s (A \<union> acked_on_disk X t) (r = Inr ()) u"

lemma open_keeps:
  assumes X: "file_laws X" "ctx_ok X" and now: "i64_ok now" and I: "single_valued (disk_ids X (store_of s))"
    and d: "disk_keeps X B s" "acked_on_disk X s \<inter> B = {}" and run: "spool_open X lock_held now s = (r, t)"
  shows "disk_keeps X B t" "r = Inr () \<Longrightarrow> B \<subseteq> live_seqs (state_of t) \<and> spool_inv X t \<and> having (durable X B) t"
proof -
  have P: "phase X (acked_on_disk X s) B" using X d(2) by (simp add: phase_def)
  note op = spool_open_settled [OF P now I d(1), of lock_held]
  show goal: "B \<subseteq> live_seqs (state_of t) \<and> spool_inv X t \<and> having (durable X B) t" if "r = Inr ()"
    using settled_facts [OF triple_Inr [OF op refl run [unfolded that]] d(2)] X by (simp add: spool_inv_def)
  show "disk_keeps X B t"
  proof (cases r)
    case (Inl e)
    from triple_Inl [OF op refl run [unfolded Inl]] show ?thesis .
  next
    case (Inr u)
    with goal show ?thesis by (auto intro: durable_disk_keeps)
  qed
qed

lemma life_kept:
  assumes "life X s A b t" "file_inv X s"
  shows "disk_keeps X {} t \<and> (b \<longrightarrow> file_inv X t) \<and>
    (\<forall>q. backed X (store_of s) q \<longrightarrow> q \<in> live_seqs (state_of s) \<longrightarrow> q \<notin> A \<longrightarrow>
       backed X (store_of t) q \<and> (b \<longrightarrow> q \<in> live_seqs (state_of t)))"
  using assms
proof (induction rule: life.induct)
  case life_start
  then show ?case by (auto simp: file_inv_def intro: durable_disk_keeps)
next
  case (life_request A t r)
  then have t: "file_inv X t" "spool_inv X t" and q: "\<And>q. backed X (store_of s) q \<Longrightarrow> q \<in> live_seqs (state_of s) \<Longrightarrow> q \<notin> A \<Longrightarrow>
      backed X (store_of t) q \<and> q \<in> live_seqs (state_of t)"
    by (auto simp: file_inv_def)
  have b: "backed X (store_of (perform X r t)) q" if "backed X (store_of t) q" "q \<notin> released X (state_of t) r" for q
    using perform_durable [OF t(1) life_request(2), of "{q}"] that by (auto simp: holding_def durable_def)
  have inv: "file_inv X (perform X r t)" by (rule perform_file_inv [OF t(1) life_request(2)])
  moreover have "disk_keeps X {} (perform X r t)" using inv by (auto simp: file_inv_def intro: durable_disk_keeps)
  ultimately show ?case using q b perform_live [OF t(2) life_request(2)] by blast
next
  case (life_open A b t now lock_held r u)
  have X: "file_laws X" "ctx_ok X" "validate_config (config X) = Inr ()"
    using life_open.prems by (auto simp: file_inv_def spool_inv_def)
  have d: "disk_keeps X {} t" and q: "\<And>q. backed X (store_of s) q \<Longrightarrow> q \<in> live_seqs (state_of s) \<Longrightarrow> q \<notin> A \<Longrightarrow> backed X (store_of t) q"
    using life_open.IH life_open.prems by auto
  note op = open_keeps [OF X(1,2) life_open(2,3) _ _ life_open(4)]
  have q': "backed X (store_of u) q \<and> (r = Inr () \<longrightarrow> q \<in> live_seqs (state_of u))"
    if "backed X (store_of t) q" "q \<notin> acked_on_disk X t" for q
    using op [of "{q}"] that d by (auto simp: disk_keeps_def)
  have "disk_keeps X {} u \<and> (r = Inr () \<longrightarrow> file_inv X u)"
    using op [of "{}"] d X by (auto simp: file_inv_def)
  with q q' show ?case by blast
qed

section \<open>Properties\<close>

text \<open>
  C9: opening loses nothing. Whatever files are on the disk (with every valid pending
  record under its own name) and whichever calls fail, a sequence number with a valid
  record or gap notice on the disk, and not named by a receipt on the disk, still has one
  after \<open>Spool::open\<close>; when the call succeeds, the number is in custody of the open
  spool and the open spool has its invariant.
\<close>

theorem opening_loses_nothing:
  assumes "file_laws X" "ctx_ok X" "validate_config (config X) = Inr ()" "i64_ok now" "disk_ok s" "named X (store_of s)"
    and "single_valued (disk_ids X (store_of s))" "spool_open X lock_held now s = (r, t)"
    and "backed X (store_of s) q" "q \<notin> acked_on_disk X s"
  shows "backed X (store_of t) q \<and> (r = Inr () \<longrightarrow> q \<in> live_seqs (state_of t) \<and> file_inv X t)"
proof -
  have d: "disk_keeps X {q} s" "acked_on_disk X s \<inter> {q} = {}" using assms by (auto simp: disk_keeps_def)
  from open_keeps [OF assms(1,2,4,7) d assms(8)] show ?thesis
    using assms(1,3) by (auto simp: disk_keeps_def file_inv_def durable_def elim!: having_mono)
qed



end
