(* ===== verification/Life_Witnesses.thy ===== *)
theory Life_Witnesses
  imports Spool_Witnesses Spool_Opened
begin

text \<open>
  The theorems about the files of a spool and about its whole life applied on the concrete
  spool with one admitted record.
\<close>

section \<open>The disk with one record\<close>

lemma toy_file_laws: "file_laws toy_ctx"
  by (simp add: file_laws_def toy_digest_laws toy_aead_laws toy_json_laws calm_env_laws)

lemma toy_validate: "validate_config toy_config = Inr ()"
  by (simp add: validate_config_def toy_config_def)

lemma empty_file_inv: "file_inv toy_ctx empty_spool"
proof -
  have "durable toy_ctx {} default_state (\<lambda>_. None)"
    by (simp add: durable_def default_state_def bt_get_def named_def)
  moreover have "store_of empty_spool = (\<lambda>_. None)" by (simp add: store_in_def empty_look fun_eq_iff)
  ultimately have "having (durable toy_ctx {}) empty_spool" by (simp add: holding_def empty_spool_ok) (simp add: empty_spool_def)
  then show ?thesis by (simp add: file_inv_def toy_file_laws toy_validate empty_spool_init)
qed

lemma toy_stable: "envelope_stable toy_envelope1"
  using toy_envelope_ok(1) by (simp add: envelope_stable_def toy_envelope1_def) (simp add: toy_envelope_def)

lemma toy_request_ok: "request_ok toy_ctx (state_of empty_spool) (Enqueue toy_envelope1 toy_now)"
  by (simp add: empty_distinct toy_stable i64_ok_def toy_now_def i64_min_def i64_max_def)

lemma one_file_inv: "file_inv toy_ctx one_spool"
  using perform_file_inv [OF empty_file_inv toy_request_ok] by (simp add: one_spool_def)

lemma one_look:
  obtains b c where "look one_spool = (\<lambda>_. None)((Pending, pending_file_name 1 (record_id toy_crates toy_envelope1)) \<mapsto> Regular b,
    (Root, SEQUENCE_STATE_FILE) \<mapsto> Regular c)"
proof -
  have e: "look empty_spool = (\<lambda>_. None)" by (simp add: fun_eq_iff empty_look)
  from toy_enqueue_runs that show thesis by (auto simp: one_spool_def e)
qed

lemma one_backed: "backed toy_ctx (store_of one_spool) 1"
proof -
  have "next_spool_sequence (state_of empty_spool) = 1" by (simp add: empty_spool_def)
  with enqueue_stored(2) [OF empty_file_inv toy_request_ok one_spool_run] show ?thesis
    by (auto simp: backed_def stored_for_def)
qed

lemma one_acked: "acked_on_disk toy_ctx one_spool = {}"
  by (rule one_look) (auto simp: acked_on_disk_def receipt_in_def store_in_def)

lemma one_disk_ids: "single_valued (disk_ids toy_ctx (store_of one_spool))"
proof -
  let ?name = "pending_file_name 1 (record_id toy_crates toy_envelope1)"
  obtain b c where l: "look one_spool = (\<lambda>_. None)((Pending, ?name) \<mapsto> Regular b, (Root, SEQUENCE_STATE_FILE) \<mapsto> Regular c)"
    by (rule one_look)
  have gaps: "\<not> notice_in toy_ctx (store_of one_spool) n" for n by (simp add: notice_in_def store_in_def l)
  have pending: "name = ?name" if "store_of one_spool (Pending, name) \<noteq> None" for name
    using that by (simp add: store_in_def l split: if_splits)
  have "valid_digest (record_id toy_crates toy_envelope1)"
    by (simp add: record_id_def record_id_from_sha256_def hex_valid_digest [OF toy_digest_laws])
  then have parse: "parse_v2_pending_file_name ?name = Some (1, record_id toy_crates toy_envelope1)"
    by (intro pending_name_parses) (simp_all add: u64_max_def)
  have "q = 1" if "record_in toy_ctx (store_of one_spool) r" "sr_spool_seq r = Some q" for r q
    using that pending [of "pending_file_name q (sr_record_id r)"] by (auto simp: record_in_def pending_file_name_inject)
  moreover have "q = 1" if "store_of one_spool (Pending, name) \<noteq> None" "parse_v2_pending_file_name name = Some (q, i)" for name q i
    using pending [OF that(1)] that(2) parse by simp
  ultimately have "snd p = 1" if "p \<in> disk_ids toy_ctx (store_of one_spool)" for p
    using that gaps unfolding disk_ids_def by (auto, blast)
  then show ?thesis unfolding single_valued_def by (metis snd_conv)
qed

section \<open>The theorems applied\<close>

theorem opening_loses_nothing_witness:
  "backed toy_ctx (store_of (snd (spool_open toy_ctx False toy_now one_spool))) 1"
proof -
  have d: "disk_ok one_spool" "named toy_ctx (store_of one_spool)"
    using one_file_inv by (simp_all add: file_inv_def holding_def durable_def)
  have cfg: "validate_config (config toy_ctx) = Inr ()" by (simp add: toy_validate)
  have now: "i64_ok toy_now" by (simp add: i64_ok_def toy_now_def i64_min_def i64_max_def)
  have q: "1 \<notin> acked_on_disk toy_ctx one_spool" by (simp add: one_acked)
  from opening_loses_nothing [OF toy_file_laws toy_ctx_ok cfg now d one_disk_ids prod.collapse [symmetric] one_backed q]
  show ?thesis by blast
qed

text \<open>Opening again.\<close>

definition second_life :: spool where
  "second_life = snd (spool_open toy_ctx False toy_now one_spool)"

lemma toy_life: "life toy_ctx one_spool {} (fst (spool_open toy_ctx False toy_now one_spool) = Inr ()) second_life"
proof -
  have now: "i64_ok toy_now" by (simp add: i64_ok_def toy_now_def i64_min_def i64_max_def)
  from life_open [OF life_start now one_disk_ids prod.collapse [symmetric]] show ?thesis
    by (simp add: one_acked second_life_def)
qed



end
