(* ===== verification/Spool_Delivery.thy ===== *)
theory Spool_Delivery
  imports Spool_System "HOL-Library.Multiset"
begin

text \<open>
  What a version 2 batch holds: the lowest sequence numbers in custody, in order and without
  a hole, each with the record of its entry or with a gap notice, within the limits of the
  configuration.
\<close>

section \<open>Items\<close>

fun item_seq :: "batch_item_v2 \<Rightarrow> nat" where
  "item_seq (ItemRecord r) = b2_spool_seq r"
| "item_seq (ItemGap g) = gap_spool_seq g"

fun item_key :: "batch_item_v2 \<Rightarrow> nat \<times> bool \<times> rid" where
  "item_key (ItemRecord r) = (b2_spool_seq r, True, b2_record_id r)"
| "item_key (ItemGap g) = (gap_spool_seq g, False, gap_notice_id g)"

fun records_of :: "batch_item_v2 list \<Rightarrow> hub_batch_record_v2 list" where
  "records_of [] = []"
| "records_of (ItemRecord r # xs) = r # records_of xs"
| "records_of (ItemGap g # xs) = records_of xs"

fun gaps_of :: "batch_item_v2 list \<Rightarrow> gap_notice_v2 list" where
  "gaps_of [] = []"
| "gaps_of (ItemRecord r # xs) = gaps_of xs"
| "gaps_of (ItemGap g # xs) = g # gaps_of xs"

lemma items_snoc: "records_of (xs @ [x]) = records_of xs @ (case x of ItemRecord r \<Rightarrow> [r] | ItemGap g \<Rightarrow> [])"
  "gaps_of (xs @ [x]) = gaps_of xs @ (case x of ItemRecord r \<Rightarrow> [] | ItemGap g \<Rightarrow> [g])"
  by (induction xs rule: records_of.induct) (auto split: batch_item_v2.split)

lemma items_length: "length (records_of xs) + length (gaps_of xs) = length xs"
  by (induction xs rule: records_of.induct) auto

definition item_bytes :: "ctx \<Rightarrow> batch_item_v2 \<Rightarrow> nat" where
  "item_bytes X it = (case json_to_vec (lib X) (item_json it) of None \<Rightarrow> 0 | Some b \<Rightarrow> length b)"

text \<open>What a candidate of the state delivers.\<close>

definition delivers :: "ctx \<Rightarrow> spool_state \<Rightarrow> batch_candidate_v2 \<Rightarrow> batch_item_v2 \<Rightarrow> bool" where
  "delivers X st c it \<longleftrightarrow> (case c of
     CandGap g \<Rightarrow> it = ItemGap g
   | CandRecord e \<Rightarrow>
       if bt_contains (counted_pending_expirations st) (e_spool_seq e)
       then it = ItemGap (gap_notice (lib X) e (e_expires_at_ms e) RetentionExpired)
       else \<exists>stored. valid_stored_record (lib X) stored \<and> sr_record_id stored = e_record_id e
         \<and> sr_stable_record_id stored = Some (e_stable_record_id e) \<and> sr_spool_seq stored = Some (e_spool_seq e)
         \<and> it = ItemRecord \<lparr>b2_record_id = e_stable_record_id e, b2_legacy_record_id = e_record_id e,
             b2_spool_seq = e_spool_seq e, b2_received_at_ms = sr_admitted_at_ms stored, b2_envelope = sr_envelope stored\<rparr>)"

lemma delivers_seq: "delivers X st c it \<Longrightarrow> item_seq it = cand_spool_seq c"
  by (cases c) (auto simp: delivers_def gap_notice_def gap_notice_for_identity_def Let_def split: if_splits)

lemma read_entry_valid:
  "triple (on P) (read_entry X e) (\<lambda>stored. on (\<lambda>st. P st \<and> valid_stored_record (lib X) stored \<and> sr_record_id stored = e_record_id e
     \<and> sr_stable_record_id stored = Some (e_stable_record_id e) \<and> sr_spool_seq stored = Some (e_spool_seq e))) (\<lambda>_. on P)"
  unfolding read_entry_def
  by (intro triple_quiet_bind quiet triple_failIf_bind triple_ok_or_bind triple_ok) (auto simp: on_def)

lemma candidate_item_delivers:
  "triple (on (\<lambda>x. x = st)) (candidate_item X (counted_pending_expirations st) c)
     (\<lambda>item s. \<forall>it. item = Some it \<longrightarrow> disk_ok s \<and> state_of s = st \<and> delivers X st c it) (\<lambda>_ _. True)"
proof (cases c)
  case (CandGap g)
  then show ?thesis by (auto simp: candidate_item_def delivers_def on_def intro: triple_ok)
next
  case (CandRecord e)
  have rd: "triple (on (\<lambda>x. x = st)) (read_entry X e) (\<lambda>stored. on (\<lambda>x. x = st \<and> valid_stored_record (lib X) stored \<and> sr_record_id stored = e_record_id e
     \<and> sr_stable_record_id stored = Some (e_stable_record_id e) \<and> sr_spool_seq stored = Some (e_spool_seq e))) (\<lambda>_ _. True)"
    by (rule triple_conseq [OF read_entry_valid]) auto
  have q: "triple (\<lambda>_. True) (bindR (quarantine_runtime_entry X e) (\<lambda>_. ok None)) (\<lambda>item s. \<forall>it. item = Some it \<longrightarrow> R it s) (\<lambda>_ _. True)"
    for R :: "batch_item_v2 \<Rightarrow> spool \<Rightarrow> bool"
    by (rule triple_bind [where R = "\<lambda>_ _. True"]) (auto simp: triple_def ok_def split: sum.split prod.split)
  show ?thesis
    unfolding candidate_item_def CandRecord batch_candidate_v2.case
  proof (rule triple_if, goal_cases)
    case 1
    then show ?case by (intro triple_bind [OF rd] triple_ok) (auto simp: on_def delivers_def CandRecord)
  next
    case 2
    show ?case
      by (rule triple_match [OF rd]) (use 2 in \<open>auto simp: on_def delivers_def CandRecord intro!: triple_ok triple_if triple_weak [OF q] triple_fail\<close>)
  qed
qed

section \<open>The loop\<close>

text \<open>What was put into the batch so far: the items, exactly, and within the limits.\<close>

definition holds_items :: "ctx \<Rightarrow> batch_item_v2 list \<Rightarrow> batch_acc \<Rightarrow> bool" where
  "holds_items X items a \<longleftrightarrow> ba_records a = records_of items \<and> ba_gaps a = gaps_of items
     \<and> (batch_max_bytes (config X) < u64_max \<longrightarrow>
          ba_body_bytes a = sum_list (map (item_bytes X) items) \<and> ba_body_bytes a \<le> batch_max_bytes (config X))
     \<and> (batch_max_records (config X) \<le> u64_max \<longrightarrow> length items \<le> batch_max_records (config X)) \<and> length (records_of items) \<le> 256 \<and> length (gaps_of items) \<le> 256"

lemma holds_items_push:
  assumes "holds_items X items a" "json_to_vec (lib X) (item_json it) = Some b" "\<not> item_kind_full it a"
    "\<not> batch_max_records (config X) \<le> sat_add_u64 (length (ba_records a)) (length (ba_gaps a))"
    "\<not> ((ba_records a \<noteq> [] \<or> ba_gaps a \<noteq> []) \<and> batch_max_bytes (config X) < sat_add_u64 (ba_body_bytes a) (length b))"
    "\<not> batch_max_bytes (config X) < length b"
  shows "holds_items X (items @ [it]) (push_item it (a\<lparr>ba_body_bytes := sat_add_u64 (ba_body_bytes a) (length b)\<rparr>))"
proof -
  have a: "ba_records a = records_of items" "ba_gaps a = gaps_of items" using assms(1) by (simp_all add: holds_items_def)
  have len: "length items < batch_max_records (config X)" if "batch_max_records (config X) \<le> u64_max"
    using that assms(4) items_length [of items] by (auto simp: a sat_add_u64_def split: if_splits)
  have bytes: "item_bytes X it = length b" using assms(2) by (simp add: item_bytes_def)
  have "sat_add_u64 (ba_body_bytes a) (length b) = sum_list (map (item_bytes X) (items @ [it]))
      \<and> sat_add_u64 (ba_body_bytes a) (length b) \<le> batch_max_bytes (config X)" if small: "batch_max_bytes (config X) < u64_max"
  proof (cases "items = []")
    case True
    with assms(1,6) small bytes show ?thesis by (auto simp: holds_items_def sat_add_u64_def)
  next
    case False
    then have "records_of items \<noteq> [] \<or> gaps_of items \<noteq> []" using items_length [of items] by auto
    with assms(5) a have "sat_add_u64 (ba_body_bytes a) (length b) \<le> batch_max_bytes (config X)" by auto
    with assms(1) small bytes show ?thesis by (auto simp: holds_items_def sat_add_u64_def)
  qed
  with assms(1,3) len show ?thesis by (cases it) (auto simp: holds_items_def items_snoc a)
qed

lemma batch_v2_loop_quarantined:
  "ba_quarantined a \<Longrightarrow> triple (\<lambda>_. True) (batch_v2_loop X counted cs a) (\<lambda>a' _. ba_quarantined a') (\<lambda>_ _. True)"
proof (induction cs arbitrary: a)
  case (Cons c cs)
  have "triple (\<lambda>_. True) (candidate_item X counted c) (\<lambda>_ _. True) (\<lambda>_ _. True)"
    by (simp add: triple_def split: sum.split prod.split)
  then show ?case
    unfolding batch_v2_loop.simps
    by (intro triple_if triple_ok, use Cons.prems in simp, elim triple_bind)
      (auto split: option.split intro!: triple_if triple_ok triple_fail triple_ok_or_bind Cons.IH simp: Cons.prems)
qed (auto intro: triple_ok)

lemma batch_v2_loop_items:
  assumes "holds_items X items a"
  shows "triple (on (\<lambda>x. x = st)) (batch_v2_loop X (counted_pending_expirations st) cs a)
    (\<lambda>a' s. ba_quarantined a' \<or> (disk_ok s \<and> state_of s = st \<and>
       (\<exists>n more. list_all2 (delivers X st) (take n cs) more \<and> holds_items X (items @ more) a'))) (\<lambda>_ _. True)"
  using assms
proof (induction cs arbitrary: a items)
  case Nil
  then show ?case by (auto simp: on_def intro!: triple_ok exI [of _ "[]"])
next
  case (Cons c cs)
  let ?Q = "\<lambda>a' s. ba_quarantined a' \<or> (disk_ok s \<and> state_of s = st \<and>
       (\<exists>n more. list_all2 (delivers X st) (take n (c # cs)) more \<and> holds_items X (items @ more) a'))"
  have none: "\<exists>n more. list_all2 (delivers X st) (take n (c # cs)) more \<and> holds_items X (items @ more) a"
    by (rule exI [of _ 0], rule exI [of _ "[]"]) (simp add: Cons.prems)
  have push: "triple (\<lambda>s. delivers X st c it \<and> (disk_ok s \<and> state_of s = st))
      (batch_v2_loop X (counted_pending_expirations st) cs a') ?Q (\<lambda>_ _. True)"
    if "holds_items X (items @ [it]) a'" for it a'
  proof (rule triple_const, rule triple_conseq [OF Cons.IH [OF that]], goal_cases)
    case (2 a'' s)
    have "\<exists>n more. list_all2 (delivers X st) (take n (c # cs)) more \<and> holds_items X (items @ more) a''"
      if "list_all2 (delivers X st) (take n cs) more" "holds_items X ((items @ [it]) @ more) a''" for n more
      by (rule exI [of _ "Suc n"], rule exI [of _ "it # more"]) (use that 2(1) in simp)
    with 2 show ?case by blast
  qed (simp_all add: on_def)
  show ?case
    unfolding batch_v2_loop.simps
  proof (rule triple_if, rule triple_ok, use none in \<open>simp add: on_def\<close>,
      rule triple_bind [OF candidate_item_delivers], goal_cases)
    case (1 item)
    show ?case
    proof (cases item)
      case None
      then show ?thesis
        by (simp, intro triple_conseq [OF batch_v2_loop_quarantined]) auto
    next
      case (Some it)
      show ?thesis
        unfolding Some option.case
        by (rule triple_weak [where P' = "\<lambda>s. delivers X st c it \<and> (disk_ok s \<and> state_of s = st)"],
            intro triple_if triple_ok triple_ok_or_bind triple_fail push)
          (use 1 none in \<open>auto intro: holds_items_push [OF Cons.prems]\<close>)
    qed
  qed
qed

section \<open>Candidates\<close>

lemma adjacent_distinct: "sorted xs \<Longrightarrow> \<not> adjacent_equal xs \<Longrightarrow> distinct xs"
proof (induction xs rule: adjacent_equal.induct)
  case (1 a b xs)
  then have "a < b" "sorted (b # xs)" "distinct (b # xs)" by auto
  then show ?case by auto
qed auto

lemma candidates_set: "cand_spool_seq ` set (batch_candidates st) = live_seqs st"
  by (force simp: batch_candidates_def live_seqs_def image_Un image_image)

lemma candidates_sorted:
  assumes "\<not> adjacent_equal (map cand_spool_seq (batch_candidates st))"
  shows "map cand_spool_seq (batch_candidates st) = sorted_list_of_set (live_seqs st)"
proof -
  have s: "sorted (map cand_spool_seq (batch_candidates st))" by (simp add: batch_candidates_def)
  have "set (map cand_spool_seq (batch_candidates st)) = live_seqs st" using candidates_set by simp
  with s adjacent_distinct [OF s assms] show ?thesis by (metis sorted_list_of_set.idem_if_sorted_distinct)
qed

lemma candidate_cases:
  assumes "c \<in> set (batch_candidates st)"
  obtains e where "c = CandRecord e" "e \<in> set (bt_values (entries st))"
    | g where "c = CandGap (g_notice g)" "g \<in> set (bt_values (gaps st))"
  using assms by (auto simp: batch_candidates_def)

text \<open>A batch that was returned: its items are what a prefix of the candidates delivers.\<close>

definition batch_of :: "ctx \<Rightarrow> spool_state \<Rightarrow> batch_item_v2 list \<Rightarrow> hub_batch_v2 \<Rightarrow> bool" where
  "batch_of X st items b \<longleftrightarrow> (\<exists>n. list_all2 (delivers X st) (take n (batch_candidates st)) items)
     \<and> map cand_spool_seq (batch_candidates st) = sorted_list_of_set (live_seqs st)
     \<and> (\<exists>a. holds_items X items a) \<and> bv2_records b = records_of items \<and> bv2_gaps b = gaps_of items \<and> bv2_version b = 2
     \<and> bv2_batch_id b = batch_id_v2 (lib X) (records_of items) (gaps_of items)"

lemma build_batch_v2_once_items:
  "triple disk_ok (build_batch_v2_once X) (\<lambda>r s. \<forall>b. r = Some b \<longrightarrow> disk_ok s \<and> (\<exists>items. batch_of X (state_of s) items b)) (\<lambda>_ _. True)"
proof -
  have start: "holds_items X [] \<lparr>ba_records = [], ba_gaps = [], ba_body_bytes = 0, ba_quarantined = False\<rparr>"
    by (simp add: holds_items_def)
  show ?thesis
    unfolding build_batch_v2_once_def Let_def
  proof (rule triple_weak [where P' = "on (\<lambda>_. True)"], rule triple_gets_state,
      intro triple_failIf_bind triple_bind [OF batch_v2_loop_items [OF start]], goal_cases)
    case (1 st a)
    show ?case
      by (intro triple_if triple_ok)
        (use candidates_sorted [of st] 1 in \<open>auto simp: batch_of_def holds_items_def\<close>)
  qed (auto simp: on_def)
qed

lemma build_batch_v2_items:
  "triple (loop_inv X) (build_batch_v2 X) (\<lambda>b s. disk_ok s \<and> (\<exists>items. batch_of X (state_of s) items b)) (\<lambda>_ _. True)"
  unfolding build_batch_v2_def
proof (rule triple_loopR, rule tripleI)
  fix s r t assume s: "loop_inv X s" "build_batch_v2_once X s = (Inr r, t)"
  have "disk_ok s" using s(1) by (simp add: loop_inv_def on_def)
  from triple_Inr [OF build_batch_v2_once_items this s(2)] build_batch_v2_once_None(1) [of X s t] s
  show "case r of None \<Rightarrow> loop_inv X t | Some b \<Rightarrow> disk_ok t \<and> (\<exists>items. batch_of X (state_of t) items b)"
    by (cases r) auto
qed simp_all

lemma next_batch_v2_items:
  assumes "spool_inv X s" "next_batch_v2 X now s = (Inr b, t)"
  shows "\<exists>items. batch_of X (state_of t) items b"
proof -
  have X: "ctx_ok X" using assms(1) by (simp add: spool_inv_def)
  have s: "on (state_inv X) s" using assms(1) by (simp add: spool_inv_def on_def)
  have e: "keeps (on (state_inv X)) (expire_due X now)"
    by (rule state_custody_UNIV) (intro safe_keeps [OF safe_expire_due [OF X]])
  have "triple (on (state_inv X)) (next_batch_v2 X now)
      (\<lambda>b s. disk_ok s \<and> (\<exists>items. batch_of X (state_of s) items b)) (\<lambda>_ _. True)"
    unfolding next_batch_v2_def
    by (rule triple_bind [OF triple_conseq [OF e] triple_weak [OF build_batch_v2_items]])
      (use X in \<open>auto simp: loop_inv_def on_def state_inv_def\<close>)
  from triple_Inr [OF this s assms(2)] show ?thesis by blast
qed

section \<open>Properties\<close>

lemma batch_of_seqs:
  assumes "batch_of X st items b"
  shows "map item_seq items = take (length items) (sorted_list_of_set (live_seqs st))"
proof -
  obtain n where n: "list_all2 (delivers X st) (take n (batch_candidates st)) items"
    "map cand_spool_seq (batch_candidates st) = sorted_list_of_set (live_seqs st)"
    using assms by (auto simp: batch_of_def)
  have "map item_seq items = map cand_spool_seq (take n (batch_candidates st))"
    using n(1) by (induction rule: list_all2_induct) (auto dest: delivers_seq)
  also have "\<dots> = take (length items) (map cand_spool_seq (batch_candidates st))"
    using list_all2_lengthD [OF n(1)] by (simp add: take_map min_def split: if_splits)
  finally show ?thesis using n(2) by simp
qed

lemma batch_of_order:
  assumes "batch_of X st items b"
  shows "batch_items (bv2_records b) (bv2_gaps b) = map item_key items"
proof -
  have "sorted (map item_seq items)" "distinct (map item_seq items)"
    unfolding batch_of_seqs [OF assms] by (simp_all add: sorted_wrt_take)
  moreover have "fst \<circ> item_key = item_seq" by (rule ext, case_tac x) simp_all
  ultimately have s: "sorted (map fst (map item_key items))" "inj_on fst (set (map item_key items))"
    by (simp_all add: distinct_map inj_on_def) (metis comp_def)
  have m: "mset (map (\<lambda>r. (b2_spool_seq r, True, b2_record_id r)) (records_of items)
      @ map (\<lambda>g. (gap_spool_seq g, False, gap_notice_id g)) (gaps_of items)) = mset (map item_key items)"
    by (induction items rule: records_of.induct) auto
  from sort_key_inj_key_eq [OF m _ s(1)] s(2) mset_eq_setD [OF m] assms show ?thesis
    by (simp add: batch_items_def batch_of_def)
qed

lemma batch_of_item:
  assumes "batch_of X st items b" "it \<in> set items"
  shows "(\<exists>e \<in> set (bt_values (entries st)). delivers X st (CandRecord e) it) \<or>
    (\<exists>g \<in> set (bt_values (gaps st)). it = ItemGap (g_notice g))"
proof -
  obtain n where "list_all2 (delivers X st) (take n (batch_candidates st)) items" using assms(1) by (auto simp: batch_of_def)
  then obtain c where c: "c \<in> set (batch_candidates st)" "delivers X st c it"
    using assms(2) by (metis in_set_conv_nth in_set_takeD list_all2_conv_all_nth)
  have gap: "delivers X st (CandGap g) it \<Longrightarrow> it = ItemGap g" for g by (simp add: delivers_def)
  from c(1) show ?thesis by (cases rule: candidate_cases) (use c(2) gap in blast)+
qed

text \<open>
  C20: a version 2 batch is the lowest part of what is in custody, in order. The sequence
  numbers of its items, merged, are exactly the first ones of the sequence numbers in
  custody after the call; the batch has at most the configured number of items, at most 256
  of each kind, and at most the configured number of bytes.
\<close>

theorem batch_v2_is_lowest_prefix:
  assumes "spool_inv X s" "validate_config (config X) = Inr ()" "next_batch_v2 X now s = (Inr b, t)"
  shows "map fst (batch_items (bv2_records b) (bv2_gaps b)) =
      take (length (bv2_records b) + length (bv2_gaps b)) (sorted_list_of_set (live_seqs (state_of t))) \<and>
    length (bv2_records b) + length (bv2_gaps b) \<le> batch_max_records (config X) \<and>
    length (bv2_records b) \<le> 256 \<and> length (bv2_gaps b) \<le> 256 \<and>
    (batch_max_bytes (config X) < u64_max \<longrightarrow>
      (\<Sum>r \<leftarrow> bv2_records b. item_bytes X (ItemRecord r)) + (\<Sum>g \<leftarrow> bv2_gaps b. item_bytes X (ItemGap g))
        \<le> batch_max_bytes (config X))"
proof -
  obtain items where items: "batch_of X (state_of t) items b" using next_batch_v2_items [OF assms(1,3)] by blast
  then obtain a where a: "holds_items X items a" "bv2_records b = records_of items" "bv2_gaps b = gaps_of items"
    by (auto simp: batch_of_def)
  have max: "batch_max_records (config X) \<le> u64_max"
    using assms(1,2) by (auto simp: spool_inv_def ctx_ok_def validate_config_def split: if_splits)
  have "fst \<circ> item_key = item_seq" by (rule ext, case_tac x) simp_all
  then have "map fst (batch_items (bv2_records b) (bv2_gaps b)) = take (length items) (sorted_list_of_set (live_seqs (state_of t)))"
    using batch_of_order [OF items] batch_of_seqs [OF items] by simp
  moreover have "(\<Sum>r \<leftarrow> records_of items. item_bytes X (ItemRecord r)) + (\<Sum>g \<leftarrow> gaps_of items. item_bytes X (ItemGap g))
      = sum_list (map (item_bytes X) items)"
    by (induction items rule: records_of.induct) auto
  ultimately show ?thesis
    using a max items_length [of items] by (auto simp: holds_items_def)
qed

text \<open>
  C21: what a version 2 batch delivers is what was admitted. Every record of the batch is of
  an entry in custody whose number is not counted as expired, with the envelope whose stable
  identifier is the one of the entry, and the envelope is valid; every gap notice is one of
  the state, or the notice of the expiry of an entry that is counted as expired.
\<close>

theorem batch_v2_delivers_admitted:
  assumes "spool_inv X s" "next_batch_v2 X now s = (Inr b, t)"
  shows "(\<forall>r \<in> set (bv2_records b). \<exists>e. bt_get (entries (state_of t)) (b2_legacy_record_id r) = Some e \<and>
       e_spool_seq e = b2_spool_seq r \<and> e_stable_record_id e = b2_record_id r \<and>
       \<not> bt_contains (counted_pending_expirations (state_of t)) (b2_spool_seq r) \<and>
       b2_record_id r = stable_record_id (lib X) (b2_envelope r) \<and>
       b2_legacy_record_id r = record_id (lib X) (b2_envelope r) \<and> validate (b2_envelope r) = Inr ()) \<and>
    (\<forall>g \<in> set (bv2_gaps b). g \<in> g_notice ` set (bt_values (gaps (state_of t))) \<or>
       (\<exists>e \<in> set (bt_values (entries (state_of t))).
          bt_contains (counted_pending_expirations (state_of t)) (e_spool_seq e) \<and>
          g = gap_notice (lib X) e (e_expires_at_ms e) RetentionExpired))"
proof -
  obtain items where items: "batch_of X (state_of t) items b" using next_batch_v2_items [OF assms] by blast
  then have rg: "bv2_records b = records_of items" "bv2_gaps b = gaps_of items" by (auto simp: batch_of_def)
  have mem: "r \<in> set (records_of items) \<longleftrightarrow> ItemRecord r \<in> set items" "g \<in> set (gaps_of items) \<longleftrightarrow> ItemGap g \<in> set items" for r g
    by (induction items rule: records_of.induct) auto
  have base: "base_inv X (state_of t)"
    using safe_step [OF safe_next_batch_v2 assms(1), of now] assms by (simp add: spool_inv_def on_def custody_def)
  have rec: "\<exists>e. bt_get (entries (state_of t)) (b2_legacy_record_id r) = Some e \<and>
       e_spool_seq e = b2_spool_seq r \<and> e_stable_record_id e = b2_record_id r \<and>
       \<not> bt_contains (counted_pending_expirations (state_of t)) (b2_spool_seq r) \<and>
       b2_record_id r = stable_record_id (lib X) (b2_envelope r) \<and>
       b2_legacy_record_id r = record_id (lib X) (b2_envelope r) \<and> validate (b2_envelope r) = Inr ()"
    if r: "ItemRecord r \<in> set items" for r
  proof -
    obtain e where e: "e \<in> set (bt_values (entries (state_of t)))" "delivers X (state_of t) (CandRecord e) (ItemRecord r)"
      using batch_of_item [OF items r] by auto
    with entry_get [OF base e(1)] show ?thesis
      by (auto simp: delivers_def valid_stored_record_def split: if_splits sum.splits)
  qed
  have "g \<in> g_notice ` set (bt_values (gaps (state_of t))) \<or>
       (\<exists>e \<in> set (bt_values (entries (state_of t))).
          bt_contains (counted_pending_expirations (state_of t)) (e_spool_seq e) \<and>
          g = gap_notice (lib X) e (e_expires_at_ms e) RetentionExpired)" if "ItemGap g \<in> set items" for g
    using batch_of_item [OF items that] by (auto simp: delivers_def split: if_splits)
  with rec show ?thesis unfolding rg by (simp add: mem)
qed

end
