(* ===== verification/Spool_Progress.thy ===== *)
theory Spool_Progress
  imports Spool_Delivery Spool_Durable
begin

text \<open>
  What a successful acknowledgement achieves: the records and gap notices it accepts are no
  longer in the spool, and nothing else has left it.
\<close>

section \<open>Removals that succeed\<close>

text \<open>
  From \<open>st1\<close> on, entries and gaps are only removed, and the entries with numbers in
  \<open>C\<close> stay counted as expired; the numbers in \<open>Q\<close> are gone.
\<close>

definition shrinking :: "ctx \<Rightarrow> spool_state \<Rightarrow> nat set \<Rightarrow> nat set \<Rightarrow> spool_state \<Rightarrow> bool" where
  "shrinking X st1 C Q st \<longleftrightarrow> base_inv X st \<and> bt_get (entries st) \<subseteq>\<^sub>m bt_get (entries st1)
     \<and> bt_get (gaps st) \<subseteq>\<^sub>m bt_get (gaps st1)
     \<and> (\<forall>k e. bt_get (entries st) k = Some e \<longrightarrow> e_spool_seq e \<in> C \<longrightarrow> bt_contains (counted_pending_expirations st) (e_spool_seq e))
     \<and> Q \<inter> live_seqs st = {}"

text \<open>No record and gap notice of one number, as in every state a batch was built from.\<close>

definition apart :: "spool_state \<Rightarrow> bool" where
  "apart st \<longleftrightarrow> (\<forall>k e k' g. bt_get (entries st) k = Some e \<longrightarrow> bt_get (gaps st) k' = Some g \<longrightarrow>
     e_spool_seq e \<noteq> gap_spool_seq (g_notice g))"

lemma live_iff: "base_inv X st \<Longrightarrow> q \<in> live_seqs st \<longleftrightarrow>
    (\<exists>k e. bt_get (entries st) k = Some e \<and> e_spool_seq e = q) \<or> has_gap q st"
  by (auto simp: live_seqs_iff base_inv_def has_gap_def)

lemma map_le_get: "m \<subseteq>\<^sub>m m' \<Longrightarrow> m k = Some v \<Longrightarrow> m' k = Some v"
  unfolding map_le_def by (metis domI)

lemma entry_seq_unique: "base_inv X st \<Longrightarrow> bt_get (entries st) k = Some e \<Longrightarrow> bt_get (entries st) k' = Some e' \<Longrightarrow>
    e_spool_seq e' = e_spool_seq e \<Longrightarrow> e' = e \<and> k' = k"
  unfolding base_inv_def entries_inv_def by (metis option.inject)

lemma shrinking_more: "shrinking X st1 C Q st \<Longrightarrow> q \<notin> live_seqs st \<Longrightarrow> shrinking X st1 C (insert q Q) st"
  by (simp add: shrinking_def)

lemma shrinking_uncount:
  assumes "shrinking X st1 C Q st" "q \<in> C \<Longrightarrow> \<forall>k e. bt_get (entries st) k = Some e \<longrightarrow> e_spool_seq e \<noteq> q"
  shows "shrinking X st1 C Q (uncount q st)"
  using assms base_inv_uncount [of X st q] by (auto simp: shrinking_def uncount_def live_seqs_def bt_contains_def)

lemma shrinking_drop:
  assumes s: "shrinking X st1 C Q st" and e: "bt_get (entries st) (e_record_id e) = Some e"
  shows "shrinking X st1 C Q (drop_entry e st)"
    "\<forall>k e'. bt_get (entries (drop_entry e st)) k = Some e' \<longrightarrow> e_spool_seq e' \<noteq> e_spool_seq e"
proof -
  have b: "base_inv X st" using s by (simp add: shrinking_def)
  have get: "bt_get (entries (drop_entry e st)) k = (if k = e_record_id e then None else bt_get (entries st) k)" for k
    by (simp add: drop_entry_def)
  show "\<forall>k e'. bt_get (entries (drop_entry e st)) k = Some e' \<longrightarrow> e_spool_seq e' \<noteq> e_spool_seq e"
    using entry_seq_unique [OF b e] by (auto simp: get)
  show "shrinking X st1 C Q (drop_entry e st)"
    using s base_inv_drop_entry [OF b e] live_drop_entry(1) [OF b e]
    by (auto simp: shrinking_def get map_le_def drop_entry_def)
qed

lemma shrinking_remove_gap:
  assumes s: "shrinking X st1 C Q st" and g: "bt_get (gaps st) k = Some g"
  shows "shrinking X st1 C Q (remove_gap g k st)"
proof -
  have b: "base_inv X st" using s by (simp add: shrinking_def)
  show ?thesis
    using s base_inv_remove_gap [OF b g] live_remove_gap(1) [OF b g]
    by (auto simp: shrinking_def map_le_def remove_gap_def)
qed

lemma shrinking_gone: "shrinking X st1 C (insert q Q) st \<Longrightarrow> bt_get (entries st) k = Some e \<Longrightarrow> e_spool_seq e \<noteq> q"
  using live_iff [of X st q] by (auto simp: shrinking_def)

lemma remove_any: "triple (on P) (remove_if_present X p) (\<lambda>_. on P) (\<lambda>_ _. True)"
  by (rule triple_conseq [OF quiet_remove_if_present]) auto

lemma gone_entry:
  assumes s: "shrinking X st1 C Q st" and ap: "apart st1" and e: "bt_get (entries st1) k = Some e"
    and none: "\<forall>k e'. bt_get (entries st) k = Some e' \<longrightarrow> e_spool_seq e' \<noteq> e_spool_seq e"
  shows "e_spool_seq e \<notin> live_seqs st"
proof -
  have b: "base_inv X st" and sub: "bt_get (gaps st) \<subseteq>\<^sub>m bt_get (gaps st1)" using s by (simp_all add: shrinking_def)
  have "\<not> has_gap (e_spool_seq e) st"
    using ap e map_le_get [OF sub] unfolding apart_def has_gap_def by metis
  with none show ?thesis by (simp add: live_iff [OF b])
qed

lemma remove_admitted_shrinking:
  assumes b: "base_inv X st1" and ap: "apart st1" and e: "bt_get (entries st1) (e_record_id e) = Some e"
  shows "triple (on (shrinking X st1 C Q)) (remove_admitted_record X (admission_of e))
    (\<lambda>_. on (shrinking X st1 C (insert (e_spool_seq e) Q))) (\<lambda>_ _. True)"
  unfolding remove_admitted_record_def Let_def
proof (rule triple_gets_state, goal_cases)
  case (1 st)
  then have sub: "bt_get (entries st) \<subseteq>\<^sub>m bt_get (entries st1)" by (simp add: shrinking_def)
  have same: "admitted_entry st (admission_of e) = Some e" if "bt_get (entries st) k = Some e'" "e_spool_seq e' = e_spool_seq e" for k e'
    using entry_seq_unique [OF b e map_le_get [OF sub that(1)] that(2)] that(1) by (auto simp: admitted_entry_def admission_of_def)
  let ?gone = "\<lambda>x. shrinking X st1 C Q x \<and> (\<forall>k e'. bt_get (entries x) k = Some e' \<longrightarrow> e_spool_seq e' \<noteq> e_spool_seq e)"
  have fin: "triple (on ?gone) (bindR (if c then upd_state (uncount (ra_spool_seq (admission_of e))) else ok ()) (\<lambda>_. ok z))
      (\<lambda>_. on (shrinking X st1 C (insert (e_spool_seq e) Q))) (\<lambda>_ _. True)" for c and z :: bool
  proof (rule triple_bind [where R = "\<lambda>_. on ?gone"], rule triple_if)
    have "?gone (uncount (e_spool_seq e) x)" if "?gone x" for x
      using shrinking_uncount [of X st1 C Q x "e_spool_seq e"] that by (auto simp: uncount_def)
    then show "triple (on ?gone) (upd_state (uncount (ra_spool_seq (admission_of e)))) (\<lambda>_. on ?gone) (\<lambda>_ _. True)"
      by (intro triple_upd_state) (simp add: admission_of_def)
  next
    show "triple (on ?gone) (ok z) (\<lambda>_. on (shrinking X st1 C (insert (e_spool_seq e) Q))) (\<lambda>_ _. True)"
      by (rule triple_ok, erule on_mono, elim conjE, rule shrinking_more, assumption, rule gone_entry [OF _ ap e])
  qed (auto intro: triple_ok)
  show ?case
  proof (cases "admitted_entry st (admission_of e)")
    case None
    show ?thesis unfolding None option.case by (rule triple_from [OF fin]) (use None same 1 in fastforce)
  next
    case (Some e')
    then have e': "bt_get (entries st) (e_record_id e') = Some e'" "e_spool_seq e' = e_spool_seq e"
      by (auto simp: admission_of_def dest: admitted_entry_Some)
    with same Some have [simp]: "e' = e" by fastforce
    have dr: "triple (on (\<lambda>x. x = st)) (upd_state (drop_entry e)) (\<lambda>_. on ?gone) (\<lambda>_ _. True)"
      by (rule triple_upd_state) (use shrinking_drop [OF 1] e' in auto)
    show ?thesis unfolding Some option.case \<open>e' = e\<close>
      by (rule triple_bind [OF remove_any], rule triple_bind [OF dr], rule fin)
  qed
qed

text \<open>An accepted gap notice: one of the state, or the notice of an entry that is counted as expired.\<close>

definition notice_of :: "ctx \<Rightarrow> spool_state \<Rightarrow> nat set \<Rightarrow> rid \<Rightarrow> nat \<Rightarrow> bool" where
  "notice_of X st1 C n q \<longleftrightarrow> (\<exists>g. bt_get (gaps st1) n = Some g \<and> gap_spool_seq (g_notice g) = q) \<or>
     bt_get (gaps st1) n = None \<and> (\<exists>k e. bt_get (entries st1) k = Some e \<and> e_spool_seq e = q \<and> q \<in> C \<and>
       gap_notice_id (gap_notice (lib X) e (e_expires_at_ms e) RetentionExpired) = n)"

lemma remove_gap_shrinking:
  assumes b: "base_inv X st1" and ap: "apart st1" and n: "notice_of X st1 C n q"
    and st: "shrinking X st1 C Q st" "bt_get (gaps st) n = Some g"
  shows "shrinking X st1 C (insert q Q) (remove_gap g n st)"
proof -
  have sub: "bt_get (entries st) \<subseteq>\<^sub>m bt_get (entries st1)" "bt_get (gaps st) \<subseteq>\<^sub>m bt_get (gaps st1)"
    using st(1) by (simp_all add: shrinking_def)
  have g: "bt_get (gaps st1) n = Some g" by (rule map_le_get [OF sub(2) st(2)])
  with n have q: "gap_spool_seq (g_notice g) = q" by (auto simp: notice_of_def)
  have s: "shrinking X st1 C Q (remove_gap g n st)" by (rule shrinking_remove_gap [OF st])
  have "\<not> has_gap q (remove_gap g n st)"
    using gap_seq_unique [OF b g] map_le_get [OF sub(2)] q by (auto simp: has_gap_def remove_gap_def split: if_splits)
  moreover have "e_spool_seq e \<noteq> q" if "bt_get (entries (remove_gap g n st)) k = Some e" for k e
    using ap g q map_le_get [OF sub(1)] that unfolding apart_def by (auto simp: remove_gap_def)
  moreover have "base_inv X (remove_gap g n st)" using s by (simp add: shrinking_def)
  ultimately have "q \<notin> live_seqs (remove_gap g n st)" by (auto simp: live_iff)
  then show ?thesis using s by (rule shrinking_more [rotated])
qed

lemma notice_of_ids:
  assumes b: "base_inv X st1" and n: "notice_of X st1 C n q"
  shows "(n, q) \<in> notice_ids (lib X) st1"
proof -
  have "e_record_id e = k" if "bt_get (entries st1) k = Some e" for k e
    using entry_get [OF b bt_get_values [OF that]] entry_seq_unique [OF b that] by metis
  then show ?thesis using n gap_facts(1) [OF b] entry_facts(4) [OF b] unfolding notice_of_def by metis
qed

lemma notice_of_gone:
  assumes b: "base_inv X st1" and ap: "apart st1" and n: "notice_of X st1 C n q"
    and st: "shrinking X st1 C Q st" "bt_get (gaps st) n = None"
    and none: "find (\<lambda>e. bt_contains (counted_pending_expirations st) (e_spool_seq e)
      \<and> gap_notice_id (gap_notice (lib X) e (e_expires_at_ms e) RetentionExpired) = n) (bt_values (entries st)) = None"
  shows "q \<notin> live_seqs st"
proof -
  have bs: "base_inv X st" and sub: "bt_get (entries st) \<subseteq>\<^sub>m bt_get (entries st1)" "bt_get (gaps st) \<subseteq>\<^sub>m bt_get (gaps st1)"
    using st(1) by (simp_all add: shrinking_def)
  have "\<not> has_gap q st"
  proof
    assume "has_gap q st"
    then obtain k g where g: "bt_get (gaps st) k = Some g" "gap_spool_seq (g_notice g) = q" by (auto simp: has_gap_def)
    note g1 = map_le_get [OF sub(2) g(1)]
    with n g(2) st(2) gap_seq_unique [OF b g1] ap show False unfolding notice_of_def apart_def g(1) by (metis g(1) option.distinct(1))
  qed
  moreover have "e_spool_seq e \<noteq> q" if e: "bt_get (entries st) k = Some e" for k e
  proof
    assume q: "e_spool_seq e = q"
    note e1 = map_le_get [OF sub(1) e]
    have "\<not> (bt_contains (counted_pending_expirations st) (e_spool_seq e) \<and>
        gap_notice_id (gap_notice (lib X) e (e_expires_at_ms e) RetentionExpired) = n)"
      using none bt_get_values [OF e] by (auto simp: find_None_iff)
    with n q e1 entry_seq_unique [OF b e1] ap st(1) e show False
      unfolding notice_of_def apart_def shrinking_def by metis
  qed
  ultimately show ?thesis by (auto simp: live_iff [OF bs])
qed

lemma remove_expired_shrinking:
  assumes b: "base_inv X st1" and ap: "apart st1" and cf: "collision_free (lib X) st1" and n: "notice_of X st1 C n q"
    and st: "shrinking X st1 C Q st" "bt_get (gaps st) n = None"
  shows "triple (on (\<lambda>x. x = st)) (remove_expired_gap_backing X n) (\<lambda>_. on (shrinking X st1 C (insert q Q))) (\<lambda>_ _. True)"
  unfolding remove_expired_gap_backing_def
proof (rule triple_gets_state, hypsubst, goal_cases)
  case 1
  let ?P = "\<lambda>e. bt_contains (counted_pending_expirations st) (e_spool_seq e)
        \<and> gap_notice_id (gap_notice (lib X) e (e_expires_at_ms e) RetentionExpired) = n"
  have fin: "triple (on (shrinking X st1 C (insert q Q))) (bindR (upd_state (uncount q)) (\<lambda>_. ok z)) (\<lambda>_. on (shrinking X st1 C (insert q Q))) (\<lambda>_ _. True)"
    for z :: bool
    by (rule triple_bind [OF triple_upd_state triple_ok], rule shrinking_uncount, assumption)
      (blast dest: shrinking_gone, assumption)
  show ?case
  proof (cases "find ?P (bt_values (entries st))")
    case None
    with notice_of_gone [OF b ap n st None] st(1) show ?thesis by (auto simp: on_def intro!: triple_ok shrinking_more)
  next
    case (Some e)
    have "base_inv X st" and sub: "bt_get (entries st) \<subseteq>\<^sub>m bt_get (entries st1)" using st(1) by (simp_all add: shrinking_def)
    then have e: "bt_get (entries st) (e_record_id e) = Some e" "?P e"
      using find_Some [OF Some] entry_get [OF \<open>base_inv X st\<close>] by auto
    note e1 = map_le_get [OF sub e(1)]
    have "(n, e_spool_seq e) \<in> notice_ids (lib X) st1" using entry_facts(4) [OF b e1] e(2) by blast
    with notice_of_ids [OF b n] cf have [simp]: "e_spool_seq e = q" unfolding collision_free_def single_valued_def by blast
    show ?thesis unfolding Some option.case
      by (rule triple_bind [OF triple_from [OF remove_admitted_shrinking [OF b ap e1] st(1)]]) (use fin in simp)
  qed
qed

lemma complete_gap_shrinking:
  assumes b: "base_inv X st1" and ap: "apart st1" and cf: "collision_free (lib X) st1" and n: "notice_of X st1 C n q"
  shows "triple (on (shrinking X st1 C Q)) (complete_gap X fl n) (\<lambda>_. on (shrinking X st1 C (insert q Q))) (\<lambda>_ _. True)"
  unfolding complete_gap_def
proof (rule triple_gets_state, goal_cases)
  case (1 st)
  show ?case
  proof (cases "bt_get (gaps st) n")
    case (Some g)
    with remove_gap_shrinking [OF b ap n 1 Some] show ?thesis unfolding Some option.case
      by (intro triple_bind [OF remove_any] triple_bind [OF triple_upd_state [where P = "\<lambda>x. x = st" and Q = "shrinking X st1 C (insert q Q)"]] triple_ok) auto
  next
    case None
    show ?thesis unfolding None option.case
      by (rule triple_bind [OF remove_expired_shrinking [OF b ap cf n 1 None] triple_ok])
  qed
qed

lemma shrinking_state:
  assumes "shrinking X st1 C Q st" "base_inv X st'" "entries st' = entries st" "gaps st' = gaps st"
    "counted_pending_expirations st' = counted_pending_expirations st"
  shows "shrinking X st1 C Q st'"
  using assms by (simp add: shrinking_def live_seqs_def)

lemma shrinking_base: "shrinking X st1 C Q st \<Longrightarrow> base_inv X st"
  by (simp add: shrinking_def)

lemma prune_shrinking: "keeps (on (shrinking X st1 C Q)) (prune_receipts X)"
proof -
  have "shrinking X st1 C Q (st\<lparr>receipts := bt_remove k (receipts st)\<rparr>)" if "shrinking X st1 C Q st" for st k
    by (rule shrinking_state [OF that base_inv_remove_receipt [OF shrinking_base [OF that]]]) simp_all
  moreover have "shrinking X st1 C Q (st\<lparr>v1_ack_history_pruned := b\<rparr>)" if "shrinking X st1 C Q st" for st b
    by (rule shrinking_state [OF that base_inv_cong [OF _ _ _ _ _ _ _ _ shrinking_base [OF that]]])
      (use shrinking_base [OF that] in \<open>auto simp: base_inv_def maps_ok_def\<close>)
  ultimately show ?thesis
    unfolding prune_receipts_def prune_once_def
    by (intro keeps_loopR keeps_bind keeps_pure quiet triple_upd_state)
qed

lemma complete_receipt_shrinking:
  assumes b: "base_inv X st1" and ap: "apart st1" and cf: "collision_free (lib X) st1"
    and adm: "\<And>a. a \<in> set (rc_accepted_admissions r) \<Longrightarrow> \<exists>e. bt_get (entries st1) (e_record_id e) = Some e \<and> a = admission_of e"
    and gaps: "\<And>n. n \<in> set (rc_accepted_gap_notice_ids r) \<Longrightarrow> notice_of X st1 C n (num n)"
  shows "triple (on (shrinking X st1 C {})) (complete_receipt X r)
    (\<lambda>_. on (shrinking X st1 C (ra_spool_seq ` set (rc_accepted_admissions r) \<union> num ` set (rc_accepted_gap_notice_ids r)))) (\<lambda>_ _. True)"
proof -
  let ?A = "set (rc_accepted_admissions r)" and ?N = "set (rc_accepted_gap_notice_ids r)"
  have one: "triple (on (shrinking X st1 C (ra_spool_seq ` D))) (bindR (remove_admitted_record X a) (\<lambda>removed. ok (fst fl \<or> removed, snd fl)))
      (\<lambda>_. on (shrinking X st1 C (ra_spool_seq ` insert a D))) (\<lambda>_ _. True)" if a: "a \<in> ?A" for a D and fl :: "bool \<times> bool"
  proof -
    obtain e where e: "bt_get (entries st1) (e_record_id e) = Some e" "a = admission_of e" using adm [OF a] by blast
    from triple_bind [OF remove_admitted_shrinking [OF b ap e(1), of C "ra_spool_seq ` D"] triple_ok] show ?thesis
      by (simp add: e(2) admission_of_def)
  qed
  have first: "triple (on (shrinking X st1 C {})) (for_fold (rc_accepted_admissions r) fl (\<lambda>fl a.
        bindR (remove_admitted_record X a) (\<lambda>removed. ok (fst fl \<or> removed, snd fl))))
      (\<lambda>_. on (shrinking X st1 C (ra_spool_seq ` ?A))) (\<lambda>_ _. True)" for fl :: "bool \<times> bool"
  proof -
    let ?I = "\<lambda>(D :: receipt_admission set) _. on (shrinking X st1 C (ra_spool_seq ` D))"
    have "triple (?I {} fl) (for_fold (rc_accepted_admissions r) fl (\<lambda>fl a.
        bindR (remove_admitted_record X a) (\<lambda>removed. ok (fst fl \<or> removed, snd fl)))) (?I ({} \<union> ?A)) (\<lambda>_ _. True)"
      by (rule triple_for_fold_seen [where I = ?I]) (rule one)
    then show ?thesis by simp
  qed
  have second: "triple (on (shrinking X st1 C (ra_spool_seq ` ?A \<union> num ` {}))) (for_fold (rc_accepted_gap_notice_ids r) fl (complete_gap X))
      (\<lambda>_. on (shrinking X st1 C (ra_spool_seq ` ?A \<union> num ` ({} \<union> ?N)))) (\<lambda>_ _. True)" for fl
  proof (rule triple_for_fold_seen [where I = "\<lambda>D _. on (shrinking X st1 C (ra_spool_seq ` ?A \<union> num ` D))"], goal_cases)
    case (1 n fl D)
    from complete_gap_shrinking [OF b ap cf gaps [OF 1], of "ra_spool_seq ` ?A \<union> num ` D"] show ?case by simp
  qed
  have quiet_tail: "triple (on P) (bindR (if c then sync_directory (ev X) Pending else ok ()) (\<lambda>_.
     bindR (sync_directory (ev X) Gaps) (\<lambda>_. persist_current X))) (\<lambda>_. on P) (\<lambda>_ _. True)" for P c
    by (rule triple_conseq [where P' = "on P" and Q' = "\<lambda>_. on P" and E' = "\<lambda>_. on P"], intro keeps_bind keeps_pure quiet) auto
  show ?thesis
    unfolding complete_receipt_def complete_removals_def
    by (rule triple_bind [OF triple_bind [OF first second [simplified]] quiet_tail])
qed

section \<open>A new acknowledgement\<close>

text \<open>The calls of a successful first acknowledgement of a batch.\<close>

definition receipt_v2 :: "hub_ack_v2 \<Rightarrow> nat \<Rightarrow> receipt_admission list \<Rightarrow> ack_receipt" where
  "receipt_v2 a n adm = \<lparr>rc_version = 2, rc_sequence = n, rc_batch_id = a2_batch_id a, rc_accepted_record_ids = [],
     rc_accepted_stable_record_ids = a2_accepted_record_ids a, rc_accepted_gap_notice_ids = a2_accepted_gap_notice_ids a,
     rc_accepted_admissions = adm\<rparr>"

lemma acknowledge_v2_run:
  assumes "acknowledge_v2 X a s = (Inr r, t)" "bt_get (receipts (state_of s)) (a2_batch_id a) = None"
  obtains d u adm n u2 u3 u4 where "build_batch_v2 X s = (Inr d, u)" "bv2_batch_id d = a2_batch_id a"
    "\<forall>i \<in> set (a2_accepted_record_ids a). i \<in> b2_record_id ` set (bv2_records d)"
    "\<forall>n \<in> set (a2_accepted_gap_notice_ids a). n \<in> gap_notice_id ` set (bv2_gaps d)" "v2_ack_is_merged_prefix d a"
    "receipt_admissions_v2 (state_of u) d a = Inr adm" "take_receipt_sequence u = (Inr n, u2)"
    "store_receipt X (receipt_v2 a n adm) u2 = (Inr (), u3)" "complete_receipt X (receipt_v2 a n adm) u3 = (Inr (), u4)"
    "prune_receipts X u4 = (Inr (), t)"
  using assms
  by (auto simp: acknowledge_v2_def bindR_eq_Inr failIf_def gets_def ok_def fail_def lift_result_def Let_def list_ex_iff
      receipt_v2_def [symmetric] split: if_splits sum.splits)

lemma distinct_map_eq: "distinct (map f xs) \<Longrightarrow> x \<in> set xs \<Longrightarrow> y \<in> set xs \<Longrightarrow> f x = f y \<Longrightarrow> x = y"
  unfolding distinct_map by (blast dest: inj_onD)

lemma distinct_map_finer:
  "distinct (map f xs) \<Longrightarrow> (\<And>x y. x \<in> set xs \<Longrightarrow> y \<in> set xs \<Longrightarrow> g x = g y \<Longrightarrow> f x = f y) \<Longrightarrow> distinct (map g xs)"
  unfolding distinct_map inj_on_def by blast

lemma batch_of_record:
  assumes "base_inv X st" "batch_of X st items d" "ItemRecord r \<in> set items"
  shows "\<exists>e. bt_get (entries st) (e_record_id e) = Some e \<and> e_record_id e = b2_legacy_record_id r \<and>
    e_spool_seq e = b2_spool_seq r \<and> e_stable_record_id e = b2_record_id r"
proof -
  obtain e where "e \<in> set (bt_values (entries st))" "delivers X st (CandRecord e) (ItemRecord r)"
    using batch_of_item [OF assms(2,3)] by blast
  then show ?thesis
    using entry_get [OF assms(1), of e] by (intro exI [of _ e]) (auto simp add: delivers_def split: if_splits)
qed

lemma batch_of_apart:
  assumes "batch_of X st items d"
  shows "apart st"
  unfolding apart_def
proof (intro allI impI notI)
  fix k e k' g
  assume e: "bt_get (entries st) k = Some e" and g: "bt_get (gaps st) k' = Some g" and eq: "e_spool_seq e = gap_spool_seq (g_notice g)"
  have "distinct (map cand_spool_seq (batch_candidates st))" using assms by (simp add: batch_of_def)
  moreover have "CandRecord e \<in> set (batch_candidates st)" "CandGap (g_notice g) \<in> set (batch_candidates st)"
    using bt_get_values [OF e] bt_get_values [OF g] by (simp_all add: batch_candidates_def)
  ultimately have "CandRecord e = CandGap (g_notice g)"
    by (rule distinct_map_eq) (simp add: eq)
  then show False by simp
qed

lemma batch_of_gap:
  assumes b: "base_inv X st" and cf: "collision_free (lib X) st" and items: "batch_of X st items d" and g: "ItemGap g \<in> set items"
  shows "notice_of X st {q. bt_contains (counted_pending_expirations st) q} (gap_notice_id g) (gap_spool_seq g)"
    "(gap_notice_id g, gap_spool_seq g) \<in> notice_ids (lib X) st"
proof -
  consider (gap) h where "h \<in> set (bt_values (gaps st))" "g = g_notice h"
    | (entry) e where "e \<in> set (bt_values (entries st))" "bt_contains (counted_pending_expirations st) (e_spool_seq e)"
        "g = gap_notice (lib X) e (e_expires_at_ms e) RetentionExpired"
    using batch_of_item [OF items g] by (auto simp: delivers_def split: if_splits)
  then show "notice_of X st {q. bt_contains (counted_pending_expirations st) q} (gap_notice_id g) (gap_spool_seq g)"
    "(gap_notice_id g, gap_spool_seq g) \<in> notice_ids (lib X) st"
  proof (atomize (full), cases)
    case gap
    from gap_get [OF b gap(1)] gap(2) gap_facts(1) [OF b] show "notice_of X st {q. bt_contains (counted_pending_expirations st) q} (gap_notice_id g) (gap_spool_seq g) \<and>
      (gap_notice_id g, gap_spool_seq g) \<in> notice_ids (lib X) st" by (auto simp: notice_of_def)
  next
    case entry
    note e = entry_get [OF b entry(1)]
    have id: "(gap_notice_id g, e_spool_seq e) \<in> notice_ids (lib X) st" using entry_facts(4) [OF b e] entry(3) by simp
    have "bt_get (gaps st) (gap_notice_id g) = None"
    proof (rule ccontr)
      assume "bt_get (gaps st) (gap_notice_id g) \<noteq> None"
      then obtain h where h: "bt_get (gaps st) (gap_notice_id g) = Some h" by blast
      with gap_facts(1) [OF b h] id cf have "gap_spool_seq (g_notice h) = e_spool_seq e"
        unfolding collision_free_def single_valued_def by blast
      with batch_of_apart [OF items] e h show False unfolding apart_def by metis
    qed
    with e entry id show "notice_of X st {q. bt_contains (counted_pending_expirations st) q} (gap_notice_id g) (gap_spool_seq g) \<and>
      (gap_notice_id g, gap_spool_seq g) \<in> notice_ids (lib X) st" by (auto simp: notice_of_def)
  qed
qed

text \<open>The delivered items have different identities.\<close>

lemma stable_unique:
  assumes b: "base_inv X st" and e: "bt_get (entries st) k = Some e" "bt_get (entries st) k' = Some e'"
    and eq: "e_stable_record_id e = e_stable_record_id e'"
  shows "e = e'"
proof -
  have "bt_get (stable_index st) (e_stable_record_id e) = Some k" "bt_get (stable_index st) (e_stable_record_id e') = Some k'"
    using b e by (simp_all add: base_inv_def entries_inv_def entry_ok_def)
  with eq e show ?thesis by simp
qed

lemma batch_of_distinct:
  assumes b: "base_inv X st" and cf: "collision_free (lib X) st" and items: "batch_of X st items d"
  shows "distinct (map snd (batch_items (bv2_records d) (bv2_gaps d)))"
proof -
  have same: "item_seq x = item_seq y" if x: "x \<in> set items" and y: "y \<in> set items" and eq: "snd (item_key x) = snd (item_key y)" for x y
  proof (cases x)
    case xr: (ItemRecord r)
    with eq obtain r' where yr: "y = ItemRecord r'" "b2_record_id r' = b2_record_id r" by (cases y) auto
    obtain e e' where "bt_get (entries st) (e_record_id e) = Some e" "bt_get (entries st) (e_record_id e') = Some e'"
      and e: "e_spool_seq e = b2_spool_seq r" "e_stable_record_id e = b2_record_id r"
        "e_spool_seq e' = b2_spool_seq r'" "e_stable_record_id e' = b2_record_id r'"
      using batch_of_record [OF b items x [unfolded xr]] batch_of_record [OF b items y [unfolded yr(1)]] by blast
    then have "e = e'" using stable_unique [OF b, of "e_record_id e" e "e_record_id e'" e'] yr(2) by simp
    with e show ?thesis unfolding xr yr(1) item_seq.simps by simp
  next
    case xg: (ItemGap g)
    with eq obtain g' where yg: "y = ItemGap g'" "gap_notice_id g' = gap_notice_id g" by (cases y) auto
    from batch_of_gap(2) [OF b cf items x [unfolded xg]] batch_of_gap(2) [OF b cf items y [unfolded yg(1)]] yg(2) cf
    show ?thesis unfolding collision_free_def single_valued_def by (auto simp: xg yg(1))
  qed
  have "distinct (map item_seq items)" unfolding batch_of_seqs [OF items] by simp
  then have "distinct (map (snd \<circ> item_key) items)" by (rule distinct_map_finer) (rule same, simp_all)
  then show ?thesis by (simp add: batch_of_order [OF items])
qed


section \<open>What the acknowledgement of a prefix removes\<close>

lemma items_mem: "r \<in> set (records_of items) \<longleftrightarrow> ItemRecord r \<in> set items" "g \<in> set (gaps_of items) \<longleftrightarrow> ItemGap g \<in> set items"
  by (induction items rule: records_of.induct) auto

lemma batch_of_prefix:
  assumes b: "base_inv X st" and cf: "collision_free (lib X) st" and items: "batch_of X st items d" and pre: "v2_ack_is_merged_prefix d a"
  obtains n where "n \<le> length items" "accepted_items a = set (map (snd \<circ> item_key) (take n items))"
    "n = card (accepted_items a)"
proof -
  let ?all = "batch_items (bv2_records d) (bv2_gaps d)"
  have rg: "bv2_records d = records_of items" "bv2_gaps d = gaps_of items"
    and few: "length (records_of items) \<le> 256" "length (gaps_of items) \<le> 256"
    using items by (auto simp: batch_of_def holds_items_def)
  have "length (bv2_records d) + length (bv2_gaps d) < u64_max" using few by (simp add: rg u64_max_def)
  with merged_prefix_char [OF batch_of_distinct [OF b cf items]] pre
  obtain k where k: "accepted_items a = set (map snd (take k ?all))" by blast
  define n where "n = min k (length items)"
  have "take n items = take k items" by (simp add: n_def min_def)
  then have k': "accepted_items a = set (map (snd \<circ> item_key) (take n items))"
    using k by (simp add: batch_of_order [OF items] take_map)
  have "distinct (map (snd \<circ> item_key) items)" using batch_of_distinct [OF b cf items] by (simp add: batch_of_order [OF items])
  then have "distinct (map (snd \<circ> item_key) (take n items))" by (simp flip: take_map)
  then have "card (accepted_items a) = n" unfolding k' by (subst distinct_card) (simp_all add: n_def)
  with k' show thesis by (intro that [of n]) (simp_all add: n_def)
qed

lemma take_item_seqs:
  assumes "batch_of X st items d" "n \<le> length items"
  shows "item_seq ` set (take n items) = set (take n (sorted_list_of_set (live_seqs st)))"
proof -
  have "map item_seq (take n items) = take n (sorted_list_of_set (live_seqs st))"
    using assms(2) by (simp add: batch_of_seqs [OF assms(1)] min_absorb1 flip: take_map)
  then show ?thesis by (metis list.set_map)
qed

lemma accepted_item:
  assumes acc: "accepted_items a = set (map (snd \<circ> item_key) its)"
  shows "i \<in> set (a2_accepted_record_ids a) \<Longrightarrow> \<exists>r. ItemRecord r \<in> set its \<and> b2_record_id r = i"
    "n \<in> set (a2_accepted_gap_notice_ids a) \<Longrightarrow> \<exists>g. ItemGap g \<in> set its \<and> gap_notice_id g = n"
    "ItemRecord r \<in> set its \<Longrightarrow> b2_record_id r \<in> set (a2_accepted_record_ids a)"
    "ItemGap g \<in> set its \<Longrightarrow> gap_notice_id g \<in> set (a2_accepted_gap_notice_ids a)"
proof -
  have mem: "x \<in> accepted_items a \<longleftrightarrow> (\<exists>it \<in> set its. snd (item_key it) = x)" for x using acc by auto
  have key: "snd (item_key it) = (True, i) \<longleftrightarrow> (\<exists>r. it = ItemRecord r \<and> b2_record_id r = i)"
    "snd (item_key it) = (False, i) \<longleftrightarrow> (\<exists>g. it = ItemGap g \<and> gap_notice_id g = i)" for it i
    by (cases it; auto)+
  have ids: "i \<in> set (a2_accepted_record_ids a) \<longleftrightarrow> (True, i) \<in> accepted_items a"
    "i \<in> set (a2_accepted_gap_notice_ids a) \<longleftrightarrow> (False, i) \<in> accepted_items a" for i
    by (auto simp: accepted_items_def)
  show "i \<in> set (a2_accepted_record_ids a) \<Longrightarrow> \<exists>r. ItemRecord r \<in> set its \<and> b2_record_id r = i"
    "n \<in> set (a2_accepted_gap_notice_ids a) \<Longrightarrow> \<exists>g. ItemGap g \<in> set its \<and> gap_notice_id g = n"
    "ItemRecord r \<in> set its \<Longrightarrow> b2_record_id r \<in> set (a2_accepted_record_ids a)"
    "ItemGap g \<in> set its \<Longrightarrow> gap_notice_id g \<in> set (a2_accepted_gap_notice_ids a)"
    unfolding ids mem key by blast+
qed

text \<open>The receipt has the entries of the accepted records.\<close>

lemma admissions_v2_set:
  assumes "receipt_admissions_v2 st d a = Inr adm"
  shows "ra_spool_seq ` set adm = b2_spool_seq ` {r \<in> set (bv2_records d). b2_record_id r \<in> set (a2_accepted_record_ids a)}"
    "x \<in> set adm \<Longrightarrow> \<exists>k e. bt_get (entries st) k = Some e \<and> ra_spool_seq x = e_spool_seq e \<and>
       ra_stable_record_id x = e_stable_record_id e \<and> ra_legacy_record_id x = k"
proof -
  let ?acc = "filter (\<lambda>r. b2_record_id r \<in> set (a2_accepted_record_ids a)) (bv2_records d)"
  let ?of = "\<lambda>r x. ra_spool_seq x = b2_spool_seq r \<and> (\<exists>k e. bt_get (entries st) k = Some e \<and>
      ra_spool_seq x = e_spool_seq e \<and> ra_stable_record_id x = e_stable_record_id e \<and> ra_legacy_record_id x = k)"
  have one: "?of r x" if "(case bt_get (entries st) (b2_legacy_record_id r) of None \<Rightarrow> Inl InvalidAcknowledgement
      | Some e \<Rightarrow> if e_spool_seq e \<noteq> b2_spool_seq r \<or> e_stable_record_id e \<noteq> b2_record_id r
          then Inl InvalidAcknowledgement
          else Inr \<lparr>ra_spool_seq = b2_spool_seq r, ra_stable_record_id = b2_record_id r,
            ra_legacy_record_id = b2_legacy_record_id r\<rparr>) = Inr x" for r :: hub_batch_record_v2 and x
  proof (cases "bt_get (entries st) (b2_legacy_record_id r)")
    case (Some e)
    show ?thesis
      using that unfolding Some option.case
      by (intro conjI exI [of _ "b2_legacy_record_id r"] exI [of _ e]) (auto simp: Some split: if_split_asm)
  qed (use that in simp)
  from assms have all: "list_all2 ?of ?acc adm"
    unfolding receipt_admissions_v2_def mapM_Inr_iff by (rule list_all2_mono [where Q = ?of]) (erule one)
  then have "map ra_spool_seq adm = map b2_spool_seq ?acc"
    by (induction rule: list_all2_induct) auto
  then have "set (map ra_spool_seq adm) = set (map b2_spool_seq ?acc)" by (rule arg_cong)
  then show "ra_spool_seq ` set adm = b2_spool_seq ` {r \<in> set (bv2_records d). b2_record_id r \<in> set (a2_accepted_record_ids a)}"
    by simp
  show "x \<in> set adm \<Longrightarrow> \<exists>k e. bt_get (entries st) k = Some e \<and> ra_spool_seq x = e_spool_seq e \<and>
       ra_stable_record_id x = e_stable_record_id e \<and> ra_legacy_record_id x = k"
    using mapM_Inr_set [OF assms [unfolded receipt_admissions_v2_def], of x] one by blast
qed

text \<open>
  A new acknowledgement names the first numbers of the batch, and so the lowest ones in
  custody: as many as it has identifiers.
\<close>

definition names_lowest :: "ctx \<Rightarrow> spool_state \<Rightarrow> hub_ack_v2 \<Rightarrow> batch_item_v2 list \<Rightarrow> bool" where
  "names_lowest X st a its \<longleftrightarrow> accepted_items a = set (map (snd \<circ> item_key) its) \<and>
     (\<forall>it \<in> set its. case it of
        ItemRecord r \<Rightarrow> \<exists>e. bt_get (entries st) (e_record_id e) = Some e \<and> e_spool_seq e = b2_spool_seq r \<and>
          e_stable_record_id e = b2_record_id r
      | ItemGap g \<Rightarrow> (gap_notice_id g, gap_spool_seq g) \<in> notice_ids (lib X) st)"

lemma names_lowest_acked:
  assumes b: "base_inv X st" and cf: "collision_free (lib X) st" and its: "names_lowest X st a its"
    and new: "bt_get (receipts st) (a2_batch_id a) = None"
  shows "acked_v2 X st a = item_seq ` set its"
proof -
  have acc0: "accepted_items a = set (map (snd \<circ> item_key) its)" using its by (simp add: names_lowest_def)
  have rec: "\<exists>e. bt_get (entries st) (e_record_id e) = Some e \<and> e_spool_seq e = b2_spool_seq r \<and> e_stable_record_id e = b2_record_id r"
    if "ItemRecord r \<in> set its" for r using its that by (fastforce simp: names_lowest_def)
  have gap: "(gap_notice_id g, gap_spool_seq g) \<in> notice_ids (lib X) st" if "ItemGap g \<in> set its" for g
    using its that by (fastforce simp: names_lowest_def)
  have "q \<in> item_seq ` set its" if e: "e \<in> set (bt_values (entries st))" "e_stable_record_id e \<in> set (a2_accepted_record_ids a)" "q = e_spool_seq e" for e q
  proof -
    obtain r where r: "ItemRecord r \<in> set its" "b2_record_id r = e_stable_record_id e" using accepted_item(1) [OF acc0 e(2)] by blast
    obtain e' where e': "bt_get (entries st) (e_record_id e') = Some e'" "e_spool_seq e' = b2_spool_seq r" "e_stable_record_id e' = b2_record_id r"
      using rec [OF r(1)] by blast
    with stable_unique [OF b entry_get [OF b e(1)] e'(1)] r(2) have "e_spool_seq e = item_seq (ItemRecord r)" by simp
    with r(1) e(3) show ?thesis by blast
  qed
  moreover have "q \<in> item_seq ` set its" if n: "n \<in> set (a2_accepted_gap_notice_ids a)" "(n, q) \<in> notice_ids (lib X) st" for n q
  proof -
    obtain g where g: "ItemGap g \<in> set its" "gap_notice_id g = n" using accepted_item(2) [OF acc0 n(1)] by blast
    with gap [OF g(1)] n(2) cf have "q = item_seq (ItemGap g)" unfolding collision_free_def single_valued_def by auto
    with g(1) show ?thesis by blast
  qed
  ultimately have "acked_v2 X st a \<subseteq> item_seq ` set its" unfolding acked_v2_def new option.case by blast
  moreover have "item_seq it \<in> acked_v2 X st a" if it: "it \<in> set its" for it
  proof (cases it)
    case (ItemRecord r)
    with it rec obtain e where "bt_get (entries st) (e_record_id e) = Some e" "e_spool_seq e = b2_spool_seq r" "e_stable_record_id e = b2_record_id r"
      by blast
    with accepted_item(3) [OF acc0, of r] it ItemRecord new show ?thesis
      by (auto simp: acked_v2_def dest: bt_get_values intro!: exI [of _ e])
  next
    case (ItemGap g)
    with gap [of g] accepted_item(4) [OF acc0, of g] it new show ?thesis by (auto simp: acked_v2_def)
  qed
  ultimately show ?thesis by blast
qed


lemma batch_names_lowest:
  assumes b: "base_inv X st" and cf: "collision_free (lib X) st" and items: "batch_of X st items d"
    and acc: "accepted_items a = set (map (snd \<circ> item_key) (take n items))"
    and up: "bt_get (entries st) \<subseteq>\<^sub>m bt_get (entries st0)" "notice_ids (lib X) st \<subseteq> notice_ids (lib X) st0"
  shows "names_lowest X st0 a (take n items)"
proof -
  have "\<exists>e. bt_get (entries st0) (e_record_id e) = Some e \<and> e_spool_seq e = b2_spool_seq r \<and> e_stable_record_id e = b2_record_id r"
    if "ItemRecord r \<in> set items" for r
    using batch_of_record [OF b items that] map_le_get [OF up(1)] by blast
  moreover have "(gap_notice_id g, gap_spool_seq g) \<in> notice_ids (lib X) st0" if "ItemGap g \<in> set items" for g
    using batch_of_gap(2) [OF b cf items that] up(2) by blast
  ultimately show ?thesis
    unfolding names_lowest_def using acc in_set_takeD [of _ n items] by (auto split: batch_item_v2.split)
qed

text \<open>The removals of the receipt of such an acknowledgement take every number it names.\<close>

lemma receipt_v2_removes:
  assumes b: "base_inv X st" and cf: "collision_free (lib X) st" and items: "batch_of X st items d"
    and acc: "accepted_items a = set (map (snd \<circ> item_key) (take n items))"
    and adm: "receipt_admissions_v2 st d a = Inr adm" and C0: "C0 = {q. bt_contains (counted_pending_expirations st) q}"
  shows "triple (on (shrinking X st C0 {})) (complete_receipt X (receipt_v2 a m adm))
    (\<lambda>_. on (\<lambda>x. item_seq ` set (take n items) \<inter> live_seqs x = {})) (\<lambda>_ _. True)"
proof -
  define num where "num i = (THE q. (i, q) \<in> notice_ids (lib X) st)" for i
  have num: "num (gap_notice_id g) = gap_spool_seq g" if "ItemGap g \<in> set items" for g
    unfolding num_def using batch_of_gap(2) [OF b cf items that] cf
    by (intro the_equality) (auto simp: collision_free_def single_valued_def)
  have one: "\<exists>e. bt_get (entries st) (e_record_id e) = Some e \<and> x = admission_of e" if x: "x \<in> set adm" for x
  proof -
    obtain e where e: "bt_get (entries st) (ra_legacy_record_id x) = Some e" "ra_spool_seq x = e_spool_seq e" "ra_stable_record_id x = e_stable_record_id e"
      using admissions_v2_set(2) [OF adm x] by blast
    have "e_record_id e = ra_legacy_record_id x" using b e(1) by (simp add: base_inv_def entries_inv_def entry_ok_def)
    with e show ?thesis by (intro exI [of _ e]) (simp add: admission_of_def)
  qed
  have gap: "notice_of X st C0 i (num i)" if "i \<in> set (a2_accepted_gap_notice_ids a)" for i
  proof -
    obtain g where g: "ItemGap g \<in> set (take n items)" "gap_notice_id g = i" using accepted_item(2) [OF acc \<open>i \<in> _\<close>] by blast
    then have "ItemGap g \<in> set items" by (blast dest: in_set_takeD)
    from batch_of_gap(1) [OF b cf items this] num [OF this] show ?thesis unfolding C0 g(2) by simp
  qed
  have "item_seq it \<in> ra_spool_seq ` set adm \<union> num ` set (a2_accepted_gap_notice_ids a)" if it: "it \<in> set (take n items)" for it
  proof (cases it)
    case (ItemRecord r)
    then have "r \<in> set (bv2_records d)" using items in_set_takeD [OF it] by (simp add: batch_of_def items_mem)
    with accepted_item(3) [OF acc, of r] it ItemRecord show ?thesis unfolding admissions_v2_set(1) [OF adm] by auto
  next
    case (ItemGap g)
    with accepted_item(4) [OF acc, of g] it num [of g] in_set_takeD [OF it] show ?thesis
      by (metis UnI2 imageI item_seq.simps(2))
  qed
  then have sub: "item_seq ` set (take n items) \<subseteq> ra_spool_seq ` set adm \<union> num ` set (a2_accepted_gap_notice_ids a)" by blast
  have fin: "item_seq ` set (take n items) \<inter> live_seqs x = {}"
    if "shrinking X st C0 (ra_spool_seq ` set adm \<union> num ` set (a2_accepted_gap_notice_ids a)) x" for x
  proof -
    have "(ra_spool_seq ` set adm \<union> num ` set (a2_accepted_gap_notice_ids a)) \<inter> live_seqs x = {}" using that by (simp add: shrinking_def)
    then show ?thesis using sub by (meson disjoint_iff subsetD)
  qed
  have rc: "rc_accepted_admissions (receipt_v2 a m adm) = adm" "rc_accepted_gap_notice_ids (receipt_v2 a m adm) = a2_accepted_gap_notice_ids a"
    by (simp_all add: receipt_v2_def)
  have "triple (on (shrinking X st C0 {})) (complete_receipt X (receipt_v2 a m adm))
    (\<lambda>_. on (shrinking X st C0 (ra_spool_seq ` set adm \<union> num ` set (a2_accepted_gap_notice_ids a)))) (\<lambda>_ _. True)"
    by (rule complete_receipt_shrinking [OF b batch_of_apart [OF items] cf, where num = num and C = C0 and r = "receipt_v2 a m adm", unfolded rc])
      (erule one, erule gap)
  then show ?thesis by (rule triple_conseq) (assumption, erule on_mono, erule fin, simp)
qed


lemma shrinking_start:
  assumes "base_inv X st'" "entries st' = entries st" "gaps st' = gaps st"
    "counted_pending_expirations st' = counted_pending_expirations st"
  shows "shrinking X st {q. bt_contains (counted_pending_expirations st) q} {} st'"
  using assms by (simp add: shrinking_def)

lemma take_receipt_sequence_same:
  "take_receipt_sequence s = (Inr n, t) \<Longrightarrow> entries (state_of t) = entries (state_of s) \<and> gaps (state_of t) = gaps (state_of s) \<and>
     counted_pending_expirations (state_of t) = counted_pending_expirations (state_of s) \<and> n < next_receipt_sequence (state_of t)"
  by (auto simp: take_receipt_sequence_def upd_state_def proc_defs checked_add_u64_def split: if_splits)

lemma store_receipt_same:
  "triple (on (\<lambda>st. P (entries st) (gaps st) (counted_pending_expirations st))) (store_receipt X r)
     (\<lambda>_. on (\<lambda>st. P (entries st) (gaps st) (counted_pending_expirations st))) (\<lambda>_ _. True)"
  unfolding store_receipt_def Let_def
  by (intro triple_ok_or_bind triple_failIf_bind triple_quiet_bind quiet triple_upd_state) auto


lemma prune_live: "keeps (on (\<lambda>st. P (live_seqs st))) (prune_receipts X)"
  unfolding prune_receipts_def prune_once_def
  by (intro keeps_loopR keeps_bind keeps_pure quiet triple_upd_state) (simp_all add: live_seqs_def)

text \<open>The tail of a new acknowledgement, from the state the batch was built in.\<close>

lemma receipt_tail_removes:
  assumes c: "on (custody X st0 A) u" and cf: "collision_free (lib X) (state_of u)" and items: "batch_of X (state_of u) items d"
    and acc: "accepted_items a = set (map (snd \<circ> item_key) (take n items))"
    and run: "receipt_admissions_v2 (state_of u) d a = Inr adm" "take_receipt_sequence u = (Inr m, u2)"
      "store_receipt X (receipt_v2 a m adm) u2 = (Inr (), u3)" "complete_receipt X (receipt_v2 a m adm) u3 = (Inr (), u4)"
      "prune_receipts X u4 = (Inr (), t)"
  shows "item_seq ` set (take n items) \<inter> live_seqs (state_of t) = {}"
proof -
  let ?st = "state_of u"
  let ?same = "\<lambda>e g c. e = entries ?st \<and> g = gaps ?st \<and> c = counted_pending_expirations ?st"
  have b: "base_inv X ?st" using c by (auto simp: on_def intro: custody_base)
  note same = take_receipt_sequence_same [OF run(2)]
  have u2: "on (\<lambda>st. custody X st0 A st \<and> rc_sequence (receipt_v2 a m adm) < next_receipt_sequence st) u2"
    using triple_Inr [OF take_sequence_custody c run(2)] by (simp add: receipt_v2_def)
  have "on (custody X st0 A) u3" by (rule triple_Inr [OF store_receipt_custody u2 run(3)])
  moreover have "on (\<lambda>st. ?same (entries st) (gaps st) (counted_pending_expirations st)) u3"
    by (rule triple_Inr [OF store_receipt_same [where P = ?same] _ run(3)]) (use u2 same in \<open>simp add: on_def\<close>)
  ultimately have "on (shrinking X ?st {q. bt_contains (counted_pending_expirations ?st) q} {}) u3"
    using shrinking_start [of X "state_of u3" ?st] by (auto simp: on_def dest: custody_base)
  from triple_Inr [OF receipt_v2_removes [OF b cf items acc run(1) refl] this run(4)]
  have "on (\<lambda>x. item_seq ` set (take n items) \<inter> live_seqs x = {}) u4" .
  from triple_Inr [OF prune_live [where P = "\<lambda>l. item_seq ` set (take n items) \<inter> l = {}"] this run(5)] show ?thesis
    by (simp add: on_def)
qed

lemma acknowledge_v2_lengths:
  assumes "acknowledge_v2 X a s = (Inr r, t)"
  shows "card (accepted_items a) = length (a2_accepted_record_ids a) + length (a2_accepted_gap_notice_ids a)"
  using assms by (auto simp: card_accepted_items acknowledge_v2_def bindR_eq_Inr failIf_def fail_def split: if_splits)

lemma acknowledge_v2_pops:
  assumes inv: "spool_inv X s" and run: "acknowledge_v2 X a s = (Inr r, t)"
    and new: "bt_get (receipts (state_of s)) (a2_batch_id a) = None"
  shows "live_seqs (state_of t) = live_seqs (state_of s) -
    set (take (length (a2_accepted_record_ids a) + length (a2_accepted_gap_notice_ids a)) (sorted_list_of_set (live_seqs (state_of s))))"
proof -
  let ?st0 = "state_of s"
  have X: "ctx_ok X" and b0: "base_inv X ?st0" and cf0: "collision_free (lib X) ?st0" and d0: "disk_ok s"
    using inv by (simp_all add: spool_inv_def state_inv_def)
  obtain d u adm m u2 u3 u4 where build: "build_batch_v2 X s = (Inr d, u)" and pre: "v2_ack_is_merged_prefix d a"
    and tail: "receipt_admissions_v2 (state_of u) d a = Inr adm" "take_receipt_sequence u = (Inr m, u2)"
      "store_receipt X (receipt_v2 a m adm) u2 = (Inr (), u3)" "complete_receipt X (receipt_v2 a m adm) u3 = (Inr (), u4)"
      "prune_receipts X u4 = (Inr (), t)"
    by (rule acknowledge_v2_run [OF run new])
  have c: "on (custody X ?st0 {}) u" using safe_step [OF safe_build_batch_v2 [OF X] inv] build by simp
  then have b: "base_inv X (state_of u)" and cf: "collision_free (lib X) (state_of u)" and live: "live_seqs (state_of u) = live_seqs ?st0"
    and up: "bt_get (entries (state_of u)) \<subseteq>\<^sub>m bt_get (entries ?st0)" "notice_ids (lib X) (state_of u) \<subseteq> notice_ids (lib X) ?st0"
    using cf0 unfolding on_def custody_def collision_free_def by (auto intro: single_valued_subset)
  obtain items where items: "batch_of X (state_of u) items d"
    using triple_Inr [OF build_batch_v2_items _ build] X b0 d0 by (auto simp: loop_inv_def on_def)
  obtain n where n: "n \<le> length items" "accepted_items a = set (map (snd \<circ> item_key) (take n items))" "n = card (accepted_items a)"
    by (rule batch_of_prefix [OF b cf items pre])
  have P: "item_seq ` set (take n items) = set (take n (sorted_list_of_set (live_seqs ?st0)))"
    using take_item_seqs [OF items n(1)] by (simp add: live)
  have acked: "acked_v2 X ?st0 a = item_seq ` set (take n items)"
    by (rule names_lowest_acked [OF b0 cf0 batch_names_lowest [OF b cf items n(2) up] new])
  have "on (custody X ?st0 (acked_v2 X ?st0 a)) t"
    using triple_Inr [OF acknowledge_v2_custody [OF X b0 cf0] _ run] d0 by (simp add: on_def)
  then have "live_seqs (state_of t) \<subseteq> live_seqs ?st0" "live_seqs ?st0 \<subseteq> live_seqs (state_of t) \<union> item_seq ` set (take n items)"
    by (simp_all add: on_def custody_def acked)
  moreover have "item_seq ` set (take n items) \<inter> live_seqs (state_of t) = {}"
    by (rule receipt_tail_removes [OF c cf items n(2) tail])
  ultimately show ?thesis using n(3) acknowledge_v2_lengths [OF run] unfolding P by auto
qed

end
