(* ===== verification/Spool_Errors.thy ===== *)
theory Spool_Errors
  imports Spool_Progress
begin

text \<open>
  The errors of the requests: which ones an operation can return, and that the errors by
  which an acknowledgement is refused mean that nothing has left the custody.
\<close>

section \<open>The errors a procedure can return\<close>

named_theorems raising \<open>the errors of a procedure\<close>

definition raises :: "'e set \<Rightarrow> ('s, 'e, 'a) proc \<Rightarrow> bool" where
  "raises S m \<longleftrightarrow> (\<forall>s e t. m s = (Inl e, t) \<longrightarrow> e \<in> S)"

lemma raisesD: "raises S m \<Longrightarrow> m s = (Inl e, t) \<Longrightarrow> e \<in> S"
  by (auto simp: raises_def)

lemma raises_mono: "raises S m \<Longrightarrow> S \<subseteq> T \<Longrightarrow> raises T m"
  by (auto simp: raises_def)

lemma raises_pure [raising]: "raises S (ok x)" "raises S (gets f)" "raises S (modify g)"
  by (auto simp: raises_def proc_defs)

lemma raises_upd [raising]: "raises S (upd_state h)"
  by (auto simp: raises_def upd_state_def proc_defs)

lemma raises_fail [raising]: "e \<in> S \<Longrightarrow> raises S (fail e)"
  by (simp add: raises_def fail_def)

lemma raises_failIf [raising]: "(b \<Longrightarrow> e \<in> S) \<Longrightarrow> raises S (failIf b e)"
  by (auto simp: raises_def failIf_def fail_def ok_def)

lemma raises_ok_or [raising]: "e \<in> S \<Longrightarrow> raises S (ok_or x e)"
  by (cases x) (auto simp: raises_def ok_or_def fail_def ok_def)

lemma raises_lift [raising]: "(\<And>e. r = Inl e \<Longrightarrow> e \<in> S) \<Longrightarrow> raises S (lift_result r)"
  by (auto simp: raises_def lift_result_def)

lemma raises_bind [raising]: "raises S m \<Longrightarrow> (\<And>x. raises S (f x)) \<Longrightarrow> raises S (bindR m f)"
  unfolding raises_def bindR_eq_Inl by blast

lemma raises_match: "raises T m \<Longrightarrow> (\<And>x. raises S (f x)) \<Longrightarrow> (\<And>e. e \<in> T \<Longrightarrow> raises S (h e)) \<Longrightarrow> raises S (matchR m f h)"
  unfolding raises_def matchR_def by (fastforce split: prod.splits sum.splits)

lemma raises_map_err [raising]: "(\<And>e. g e \<in> S) \<Longrightarrow> raises S (map_err g m)"
  by (auto simp: raises_def map_err_def split: prod.splits sum.splits)

lemma raises_if [raising]: "(b \<Longrightarrow> raises S m) \<Longrightarrow> (\<not> b \<Longrightarrow> raises S n) \<Longrightarrow> raises S (if b then m else n)"
  by simp

lemma raises_option [raising]: "(x = None \<Longrightarrow> raises S m) \<Longrightarrow> (\<And>v. x = Some v \<Longrightarrow> raises S (f v)) \<Longrightarrow>
    raises S (case x of None \<Rightarrow> m | Some v \<Rightarrow> f v)"
  by (cases x) simp_all

lemma raises_prod [raising]: "(\<And>a b. raises S (f a b)) \<Longrightarrow> raises S (case p of (a, b) \<Rightarrow> f a b)"
  by (cases p) simp

lemma raises_prod_apply [raising]: "(\<And>a b. raises S (f a b x)) \<Longrightarrow> raises S ((case p of (a, b) \<Rightarrow> f a b) x)"
  by (cases p) simp

lemma raises_for_fold [raising]: "(\<And>x a. raises S (body a x)) \<Longrightarrow> raises S (for_fold xs a body)"
  by (induction xs arbitrary: a) (simp_all add: raising)

lemma raises_loop [raising]: "raises S body \<Longrightarrow> e \<in> S \<Longrightarrow> raises S (loopR fuel e body)"
proof -
  assume b: "raises S body" and e: "e \<in> S"
  have "triple (\<lambda>_. True) body (\<lambda>r s. case r of None \<Rightarrow> True | Some x \<Rightarrow> True) (\<lambda>e _. e \<in> S)"
    by (rule tripleI) (auto split: option.split dest: raisesD [OF b])
  from triple_loopR [where Q = "\<lambda>_ _. True", OF this] e show ?thesis
    by (auto simp: raises_def dest: triple_Inl)
qed

section \<open>The spool\<close>

text \<open>What writing and deleting files can return.\<close>

definition storage_errors :: "spool_error set" where
  "storage_errors = {Io, StorageFull, Serialization, CapacityExceeded, CorruptRecord}"

lemma map_io_storage [simp]: "map_io_error e \<in> storage_errors"
  by (simp add: map_io_error_def storage_errors_def)

lemma storage_mem [simp]: "Io \<in> storage_errors" "StorageFull \<in> storage_errors" "Serialization \<in> storage_errors"
  "CapacityExceeded \<in> storage_errors" "CorruptRecord \<in> storage_errors"
  "InvalidAcknowledgement \<notin> storage_errors" "V1AcknowledgementHistoryPruned \<notin> storage_errors"
  "InvalidConfig \<notin> storage_errors" "BatchItemTooLarge \<notin> storage_errors" "SpoolKeyMismatch \<notin> storage_errors"
  by (simp_all add: storage_errors_def)

lemma raises_encrypt [raising]: "raises storage_errors (spool_encrypt X p)"
  unfolding spool_encrypt_def
  by (auto simp: raises_def new_nonce_def bindR_def lift_result_def encrypt_def map_crypto_error_def split: sum.splits option.splits if_splits)

lemma raises_temporary [raising]: "raises S (temporary_path X)" "raises S (new_uuid C E)"
  by (auto simp: raises_def temporary_path_def new_uuid_def proc_defs)

lemma raises_sync [raising]: "raises storage_errors (sync_directory E d)"
  unfolding sync_directory_def by (intro raising) simp

lemma raises_write_atomic [raising]: "raises storage_errors (write_atomic E tmp dst b)"
  unfolding write_atomic_def
  by (intro raising raises_match [where T = UNIV]) (simp_all add: raises_def)

lemma raises_spool_write [raising]: "raises storage_errors (spool_write_atomic X tmp dst b)"
  unfolding spool_write_atomic_def
  by (intro raising raises_match [OF raises_write_atomic]) simp_all

lemma raises_persist [raising]: "raises storage_errors (persist_sequence_state X n m p c)"
  "raises storage_errors (persist_current X)"
  unfolding persist_current_def persist_sequence_state_def by (intro raising; simp)+

lemma raises_remove [raising]: "raises storage_errors (remove_if_present X p)"
  unfolding remove_if_present_def by (rule raises_match [where T = UNIV]) (auto simp: raises_def [of UNIV] intro!: raising)

lemma raises_store_receipt [raising]: "raises storage_errors (store_receipt X r)"
  unfolding store_receipt_def Let_def by (intro raising) simp_all

lemma raises_remove_admitted [raising]: "raises storage_errors (remove_admitted_record X a)"
  unfolding remove_admitted_record_def Let_def by (intro raising)

lemma raises_complete_gap [raising]: "raises storage_errors (complete_gap X fl n)"
  unfolding complete_gap_def remove_expired_gap_backing_def by (intro raising)

lemma raises_complete_receipt [raising]: "raises storage_errors (complete_receipt X r)"
  unfolding complete_receipt_def complete_removals_def by (intro raising)

lemma raises_prune [raising]: "raises storage_errors (prune_receipts X)"
  unfolding prune_receipts_def prune_once_def by (intro raising) simp_all


section \<open>Refused acknowledgements\<close>

definition refusals :: "spool_error set" where
  "refusals = {InvalidAcknowledgement, V1AcknowledgementHistoryPruned, ProtocolUpgradeRequired}"

lemma storage_not_refused: "e \<in> insert InvalidConfig storage_errors \<Longrightarrow> e \<notin> refusals"
  by (auto simp: refusals_def storage_errors_def)

lemma triple_raises: "raises S m \<Longrightarrow> (\<And>e s. e \<in> S \<Longrightarrow> E e s) \<Longrightarrow> triple P m (\<lambda>_ _. True) E"
  by (rule tripleI) (auto dest: raisesD)

text \<open>Until the receipt is stored, a refusal leaves the numbers in custody as they are.\<close>

abbreviation refused :: "ctx \<Rightarrow> spool_state \<Rightarrow> spool_error \<Rightarrow> spool \<Rightarrow> bool" where
  "refused X st0 e s \<equiv> e \<in> refusals \<longrightarrow> on (custody X st0 {}) s"

lemma tail_not_refused:
  "raises (insert InvalidConfig storage_errors) m \<Longrightarrow> triple P m (\<lambda>_ _. True) (refused X st0)"
  by (erule triple_raises) (simp add: storage_not_refused)

lemma raises_storage: "raises storage_errors m \<Longrightarrow> raises (insert InvalidConfig storage_errors) m"
  by (rule raises_mono) auto

lemma raises_receipt_tail: "raises (insert InvalidConfig storage_errors)
    (bindR take_receipt_sequence (\<lambda>n. bindR (store_receipt X (r n)) (\<lambda>_. bindR (complete_receipt X (r n)) (\<lambda>_.
       bindR (prune_receipts X) (\<lambda>_. ok (z n))))))"
  unfolding take_receipt_sequence_def
  by (intro raising raises_storage [OF raises_store_receipt] raises_storage [OF raises_complete_receipt] raises_storage [OF raises_prune]) simp_all

lemma raises_replay: "raises (insert InvalidConfig storage_errors) (bindR (complete_receipt X r) (\<lambda>_. ok z))"
  by (intro raising raises_storage [OF raises_complete_receipt])

lemma safe_refused: "safe X m \<Longrightarrow> base_inv X st0 \<Longrightarrow> collision_free (lib X) st0 \<Longrightarrow>
    triple (on (\<lambda>x. x = st0)) m (\<lambda>_. on (custody X st0 {})) (refused X st0)"
  by (rule triple_conseq [OF safeD [of X m st0 "{}"]]) auto

lemma acknowledge_v2_refused:
  assumes X: "ctx_ok X" and c: "base_inv X st0" "collision_free (lib X) st0"
  shows "triple (on (\<lambda>x. x = st0)) (acknowledge_v2 X a) (\<lambda>_ _. True) (refused X st0)"
proof -
  let ?I = "custody X st0 {}"
  have refl: "?I st0" using c by (simp add: custody_refl)
  have err: "refused X st0 e s" if "on (\<lambda>x. x = st0) s" for e s using that refl by (auto elim: on_mono)
  show ?thesis
    unfolding acknowledge_v2_def
  proof (rule triple_failIf_bind, rule triple_gets_state, hypsubst, goal_cases)
    case 1
    show ?case
    proof (cases "bt_get (receipts st0) (a2_batch_id a)")
      case (Some prior)
      show ?thesis unfolding Some option.case
        by (rule triple_failIf_bind, rule tail_not_refused [OF raises_replay], rule err)
    next
      case None
      show ?thesis unfolding None option.case Let_def
        by (rule triple_bind [OF safe_refused [OF safe_build_batch_v2 [OF X] c]], rule triple_failIf_bind, rule triple_gets_state,
            rule triple_lift_bind, rule tail_not_refused [OF raises_receipt_tail]) (auto simp: on_def)
    qed
  qed (rule err)
qed


lemma acknowledge_v1_refused:
  assumes X: "ctx_ok X" and c: "base_inv X st0" "collision_free (lib X) st0"
  shows "triple (on (\<lambda>x. x = st0)) (acknowledge X a) (\<lambda>_ _. True) (refused X st0)"
proof -
  let ?I = "custody X st0 {}"
  have refl: "?I st0" using c by (simp add: custody_refl)
  have err: "refused X st0 e s" if "on (\<lambda>x. x = st0) s" for e s using that refl by (auto elim: on_mono)
  show ?thesis
    unfolding acknowledge_def
  proof (rule triple_failIf_bind, rule triple_gets_state, hypsubst, goal_cases)
    case 1
    show ?case
    proof (cases "bt_get (receipts st0) (a1_batch_id a)")
      case (Some prior)
      show ?thesis unfolding Some option.case
        by (rule triple_failIf_bind, rule tail_not_refused [OF raises_replay], rule err)
    next
      case None
      show ?thesis unfolding None option.case Let_def
        by (rule triple_failIf_bind, rule triple_bind [OF safe_refused [OF safe_build_batch [OF X] c]], rule triple_failIf_bind, rule triple_gets_state,
            rule triple_lift_bind, rule tail_not_refused [OF raises_receipt_tail]) (auto simp: on_def refl)
    qed
  qed (rule err)
qed

lemmas acknowledge_refused = triple_Inl [OF acknowledge_v1_refused] triple_Inl [OF acknowledge_v2_refused]

section \<open>The errors of the requests\<close>

lemma raises_encrypt_in: "storage_errors \<subseteq> S \<Longrightarrow> raises S (spool_encrypt X p)" "storage_errors \<subseteq> S \<Longrightarrow> raises S (spool_write_atomic X t d b)"
  "storage_errors \<subseteq> S \<Longrightarrow> raises S (persist_sequence_state X n m q c)" "storage_errors \<subseteq> S \<Longrightarrow> raises S (persist_current X)"
  "storage_errors \<subseteq> S \<Longrightarrow> raises S (sync_directory E (d' :: spool_dir))" "storage_errors \<subseteq> S \<Longrightarrow> raises S (remove_admitted_record X a)"
  by (blast intro: raises_mono raising)+

lemma enqueue_raises: "raises (storage_errors \<union> {InvalidConfig, BatchItemTooLarge}) (enqueue X envelope now)"
  unfolding enqueue_def enqueue_new_def Let_def
  by (intro raising raises_encrypt_in) (auto split: sum.splits)

lemma persist_gap_raises: "raises storage_errors (persist_gap_locked X e t r)"
  unfolding persist_gap_locked_def Let_def by (intro raising) simp_all

lemma read_entry_raises: "raises (insert SpoolKeyMismatch storage_errors) (read_entry X e)"
  unfolding read_entry_def spool_decrypt_def
  by (intro raising) (auto simp: map_read_error_def map_crypto_error_def split: sum.splits if_splits crypto_error.splits)

lemma quarantine_raises: "raises storage_errors (quarantine_runtime_entry X e)"
proof -
  have "raises storage_errors (quarantine_file_bounded X p)" for p
    unfolding quarantine_file_bounded_def ensure_quarantine_capacity_def quarantine_file_def
    by (intro raising raises_match [where T = UNIV]) (simp_all add: raises_def [of UNIV])
  then show ?thesis
    unfolding quarantine_runtime_entry_def path_exists_def
    by (intro raising persist_gap_raises raises_match [where T = storage_errors and m = "quarantine_file_bounded X (e_path e)"]
        raises_match [where T = UNIV and m = "fs_metadata (ev X) (e_path e)"]) (simp_all add: raises_def [of UNIV])
qed

lemma expire_due_raises: "raises (insert InvalidConfig storage_errors) (expire_due X now)"
  unfolding expire_due_def expire_entry_def Let_def
  by (intro raising raises_encrypt_in raises_match [OF persist_gap_raises]) auto

abbreviation batch_errors :: "spool_error set" where
  "batch_errors \<equiv> storage_errors \<union> {SpoolKeyMismatch, BatchItemTooLarge}"

lemma candidate_item_raises: "raises batch_errors (candidate_item X counted c)"
proof (cases c)
  case (CandRecord e)
  have q: "raises batch_errors (quarantine_runtime_entry X e)" by (rule raises_mono [OF quarantine_raises]) auto
  have r: "raises batch_errors (read_entry X e)" by (rule raises_mono [OF read_entry_raises]) auto
  show ?thesis unfolding candidate_item_def CandRecord batch_candidate_v2.case
    by (intro raising r q raises_match [OF r])
qed (simp add: candidate_item_def raising)

lemma batch_v2_loop_raises: "raises batch_errors (batch_v2_loop X counted cs a)"
proof (induction cs arbitrary: a)
  case (Cons c cs)
  show ?case unfolding batch_v2_loop.simps by (intro raising candidate_item_raises Cons.IH) simp_all
qed (simp add: raising)

lemma next_batch_v2_raises: "raises (insert InvalidConfig batch_errors) (next_batch_v2 X now)"
  unfolding next_batch_v2_def build_batch_v2_def build_batch_v2_once_def Let_def
  by (intro raising raises_mono [OF batch_v2_loop_raises] raises_mono [OF expire_due_raises]) auto


text \<open>
  The receipt of an acknowledgement that accepted nothing: as long as it is kept, every
  acknowledgement of the same batch that accepts something is refused.
\<close>

lemma empty_receipt_refuses:
  assumes "bt_get (receipts (state_of s)) (a2_batch_id a) = Some prior"
    and "rc_accepted_stable_record_ids (re_receipt prior) = []" "rc_accepted_gap_notice_ids (re_receipt prior) = []"
    and "a2_accepted_record_ids a \<noteq> [] \<or> a2_accepted_gap_notice_ids a \<noteq> []"
  shows "acknowledge_v2 X a s = (Inl InvalidAcknowledgement, s)"
  using assms by (auto simp: acknowledge_v2_def proc_defs same_record_ids_def)

section \<open>Properties\<close>


end
