(* ===== verification/Spool_Ledger.thy ===== *)
theory Spool_Ledger
  imports Spool_Errors
begin

text \<open>
  The spool as a queue. The abstract specification is a ledger of sequence numbers: the
  numbers waiting for delivery, in order, and the next number to give out. The requests on
  the spool refine its steps, and a whole history of the spool is a history of the ledger:
  the numbers acknowledged, in order, followed by those still waiting, are the numbers given
  out.
\<close>

section \<open>The ledger\<close>

record ledger =
  waiting :: "nat list"
  upcoming :: nat

definition issue :: "ledger \<Rightarrow> ledger" where
  "issue L = L\<lparr>waiting := waiting L @ [upcoming L], upcoming := Suc (upcoming L)\<rparr>"

definition release :: "nat \<Rightarrow> ledger \<Rightarrow> ledger" where
  "release n L = L\<lparr>waiting := drop n (waiting L)\<rparr>"

text \<open>A step of the ledger and the numbers it releases.\<close>

inductive ledger_step :: "ledger \<Rightarrow> nat list \<Rightarrow> ledger \<Rightarrow> bool" where
  ledger_stay: "ledger_step L [] L"
| ledger_issue: "ledger_step L [] (issue L)"
| ledger_release: "ledger_step L (take n (waiting L)) (release n L)"

text \<open>Histories of any labelled step relation, with what they release.\<close>

inductive history :: "('s \<Rightarrow> 'o list \<Rightarrow> 's \<Rightarrow> bool) \<Rightarrow> 's \<Rightarrow> 'o list \<Rightarrow> 's \<Rightarrow> bool" for step where
  history_refl: "history step s [] s"
| history_step: "history step s out t \<Longrightarrow> step t out' u \<Longrightarrow> history step s (out @ out') u"

lemma ledger_history:
  assumes "history ledger_step L out L'"
  shows "upcoming L \<le> upcoming L' \<and> out @ waiting L' = waiting L @ [upcoming L ..< upcoming L']"
  using assms
proof (induction rule: history.induct)
  case (history_step L out L' out' L'')
  from history_step.hyps(2) show ?case
  proof (cases rule: ledger_step.cases)
    case (ledger_release n)
    with history_step.IH show ?thesis by (simp add: release_def)
  next
    case ledger_issue
    have "out @ waiting L' @ [upcoming L'] = waiting L @ [upcoming L ..< upcoming L'] @ [upcoming L']"
      using history_step.IH by (metis append_assoc)
    with ledger_issue history_step.IH show ?thesis by (simp add: issue_def)
  qed (use history_step.IH in simp)
qed simp

section \<open>Simulation\<close>

text \<open>
  The interface of a component that refines an abstract one: its steps, from states with
  the invariant, are abstract steps with the same label. Then its histories are abstract ones.
\<close>

locale refines =
  fixes inv :: "'s \<Rightarrow> bool"
    and abs_of :: "'s \<Rightarrow> 'a"
    and step :: "'s \<Rightarrow> 'o list \<Rightarrow> 's \<Rightarrow> bool"
    and spec :: "'a \<Rightarrow> 'o list \<Rightarrow> 'a \<Rightarrow> bool"
  assumes step_inv: "inv s \<Longrightarrow> step s out t \<Longrightarrow> inv t"
    and step_spec: "inv s \<Longrightarrow> step s out t \<Longrightarrow> spec (abs_of s) out (abs_of t)"
begin

lemma history_spec: "history step s out t \<Longrightarrow> inv s \<Longrightarrow> inv t \<and> history spec (abs_of s) out (abs_of t)"
  by (induction rule: history.induct) (auto intro: history.intros step_inv step_spec)

end

section \<open>The spool refines the ledger\<close>

definition ledger_of :: "spool \<Rightarrow> ledger" where
  "ledger_of s = \<lparr>waiting = sorted_list_of_set (live_seqs (state_of s)), upcoming = next_spool_sequence (state_of s)\<rparr>"

text \<open>
  Requests with any outcome, the failed ones too, except for acknowledgements: those that
  were refused, and those that were applied to a batch not acknowledged before. An applied
  acknowledgement releases as many numbers as it accepts records and gap notices.
\<close>

inductive queue_step :: "ctx \<Rightarrow> spool \<Rightarrow> nat list \<Rightarrow> spool \<Rightarrow> bool" for X where
  queue_enqueue: "enqueue_distinct X (state_of s) envelope \<Longrightarrow> queue_step X s [] (snd (enqueue X envelope now s))"
| queue_next_batch: "queue_step X s [] (snd (next_batch X now s))"
| queue_next_batch_v2: "queue_step X s [] (snd (next_batch_v2 X now s))"
| queue_expire_due: "queue_step X s [] (snd (expire_due X now s))"
| queue_sync: "queue_step X s [] (snd (spool_sync X s))"
| queue_refused: "acknowledge X a1 s = (Inl e, t) \<Longrightarrow> e \<in> refusals \<Longrightarrow> queue_step X s [] t"
| queue_refused_v2: "acknowledge_v2 X a s = (Inl e, t) \<Longrightarrow> e \<in> refusals \<Longrightarrow> queue_step X s [] t"
| queue_acknowledge_v2: "acknowledge_v2 X a s = (Inr r, t) \<Longrightarrow> bt_get (receipts (state_of s)) (a2_batch_id a) = None \<Longrightarrow>
     queue_step X s (take (length (a2_accepted_record_ids a) + length (a2_accepted_gap_notice_ids a))
       (sorted_list_of_set (live_seqs (state_of s)))) t"

lemma queue_step_spool_step: "queue_step X s out t \<Longrightarrow> spool_step X s t"
proof (induction rule: queue_step.induct)
  case (queue_acknowledge_v2 a s r t)
  then show ?case using step_acknowledge_v2 [of X s a] by simp
next
  case (queue_refused_v2 a s e t)
  then show ?case using step_acknowledge_v2 [of X s a] by simp
next
  case (queue_refused a s e t)
  then show ?case using step_acknowledge [of X s a] by simp
qed (auto intro: spool_step.intros)

lemma live_finite [simp]: "finite (live_seqs st)"
  by (simp add: live_seqs_def)

lemma sorted_insert_last:
  assumes "finite A" "\<And>x. x \<in> A \<Longrightarrow> x < (n :: nat)"
  shows "sorted_list_of_set (insert n A) = sorted_list_of_set A @ [n]"
proof -
  have "sorted (sorted_list_of_set A @ [n])" "distinct (sorted_list_of_set A @ [n])" "set (sorted_list_of_set A @ [n]) = insert n A"
    using assms by (auto simp: sorted_append less_imp_le)
  then show ?thesis by (metis sorted_list_of_set.idem_if_sorted_distinct)
qed

lemma sorted_drop:
  assumes "finite A"
  shows "sorted_list_of_set (A - set (take n (sorted_list_of_set A))) = drop n (sorted_list_of_set (A :: nat set))"
proof -
  let ?l = "sorted_list_of_set A"
  have "distinct (take n ?l @ drop n ?l)" by simp
  then have "set (take n ?l) \<inter> set (drop n ?l) = {}" by (simp only: distinct_append)
  moreover have "set (take n ?l) \<union> set (drop n ?l) = A" using assms by (simp flip: set_append)
  ultimately have "A - set (take n ?l) = set (drop n ?l)" by blast
  moreover have "sorted (drop n ?l)" "distinct (drop n ?l)" by (simp_all add: sorted_wrt_drop)
  ultimately show ?thesis by (metis sorted_list_of_set.idem_if_sorted_distinct)
qed

lemma ledger_same: "live_seqs (state_of t) = live_seqs (state_of s) \<Longrightarrow>
    next_spool_sequence (state_of t) = next_spool_sequence (state_of s) \<Longrightarrow> ledger_of t = ledger_of s"
  by (simp add: ledger_of_def)

lemma ledger_safe:
  assumes "safe X m" "spool_inv X s"
  shows "ledger_of (snd (m s)) = ledger_of s"
  using safe_step [OF assms] by (intro ledger_same) (auto simp: on_def custody_def)

lemma ledger_refused:
  assumes "spool_inv X s" "acknowledge X a1 s = (Inl e, t) \<or> acknowledge_v2 X a2 s = (Inl e, t)" "e \<in> refusals"
  shows "ledger_of t = ledger_of s"
proof -
  have "ctx_ok X" "base_inv X (state_of s)" "collision_free (lib X) (state_of s)" "on (\<lambda>x. x = state_of s) s"
    using assms(1) by (simp_all add: spool_inv_def state_inv_def on_def)
  with assms(2,3) have "on (custody X (state_of s) {}) t" by (blast dest: acknowledge_refused)
  then show ?thesis by (intro ledger_same) (auto simp: on_def custody_def)
qed

lemma ledger_enqueue:
  assumes "spool_inv X s" "enqueue_distinct X (state_of s) envelope"
  shows "ledger_of (snd (enqueue X envelope now s)) \<in> {ledger_of s, issue (ledger_of s)}"
proof -
  let ?Q = "on (\<lambda>st. st = state_of s \<or> admitted X envelope now (state_of s) st)"
  have "triple (on (\<lambda>x. x = state_of s)) (enqueue X envelope now) (\<lambda>_. ?Q) (\<lambda>_. ?Q)"
    by (rule triple_conseq [OF enqueue_state])
      (use assms in \<open>auto simp: spool_inv_def elim!: on_mono\<close>)
  from triple_snd [OF this, of s] assms(1)
  consider "state_of (snd (enqueue X envelope now s)) = state_of s"
    | "admitted X envelope now (state_of s) (state_of (snd (enqueue X envelope now s)))"
    by (auto simp: on_def spool_inv_def)
  then show ?thesis
  proof cases
    case 2
    then have "live_seqs (state_of (snd (enqueue X envelope now s))) = insert (next_spool_sequence (state_of s)) (live_seqs (state_of s))"
      "next_spool_sequence (state_of (snd (enqueue X envelope now s))) = Suc (next_spool_sequence (state_of s))"
      by (auto simp: admitted_def admit_entry_def new_entry_def)
    moreover have "q < next_spool_sequence (state_of s)" if "q \<in> live_seqs (state_of s)" for q
      using assms(1) that by (simp add: spool_inv_def state_inv_def)
    ultimately show ?thesis using sorted_insert_last [of "live_seqs (state_of s)" "next_spool_sequence (state_of s)"]
      by (simp add: ledger_of_def issue_def del: sorted_list_of_set_insert_remove)
  qed (simp add: ledger_of_def)
qed

lemma queue_step_ledger:
  assumes "spool_inv X s" "queue_step X s out t"
  shows "ledger_step (ledger_of s) out (ledger_of t)"
proof -
  have X: "ctx_ok X" using assms(1) by (simp add: spool_inv_def)
  have stay: "ledger_step (ledger_of s) [] (ledger_of (snd (m s)))" if "safe X m" for m :: "'b spool_proc"
    using ledger_safe [OF that assms(1)] by (simp add: ledger_stay)
  from assms(2) show ?thesis
  proof (cases rule: queue_step.cases)
    case (queue_enqueue envelope now)
    with ledger_enqueue [OF assms(1) queue_enqueue(3), of now] show ?thesis by (auto intro: ledger_stay ledger_issue)
  next
    case (queue_acknowledge_v2 a r)
    let ?n = "length (a2_accepted_record_ids a) + length (a2_accepted_gap_notice_ids a)"
    have "next_spool_sequence (state_of t) = next_spool_sequence (state_of s)"
      using triple_snd [OF acknowledge_v2_custody [OF X], of "state_of s" s a] assms(1) queue_acknowledge_v2(2)
      by (auto simp: spool_inv_def state_inv_def on_def custody_def)
    then have "ledger_of t = release ?n (ledger_of s)"
      using acknowledge_v2_pops [OF assms(1) queue_acknowledge_v2(2,3)] sorted_drop [of "live_seqs (state_of s)" ?n]
      by (simp add: ledger_of_def release_def)
    moreover have "out = take ?n (waiting (ledger_of s))" using queue_acknowledge_v2(1) by (simp add: ledger_of_def)
    ultimately show ?thesis by (simp add: ledger_release)
  next
    case (queue_refused a e)
    then show ?thesis using ledger_refused [OF assms(1), of a e t] by (simp add: ledger_stay)
  next
    case (queue_refused_v2 a e)
    then show ?thesis using ledger_refused [OF assms(1), of _ e t a] by (simp add: ledger_stay)
  qed (auto intro!: stay safe_next_batch safe_next_batch_v2 safe_expire_due safe_spool_sync X)
qed

interpretation queue: refines "spool_inv X" ledger_of "queue_step X" ledger_step for X
  by unfold_locales (blast intro: spool_step_inv queue_step_spool_step, rule queue_step_ledger)

section \<open>Properties\<close>

text \<open>
  C6: a version 2 acknowledgement takes the front of the queue. When an acknowledgement of a
  batch not acknowledged before is applied, the sequence numbers that leave the custody are
  exactly the lowest ones, as many as it accepts records and gap notices; all others stay.
\<close>

theorem acknowledge_v2_takes_front:
  assumes "spool_inv X s" "acknowledge_v2 X a s = (Inr r, t)" "bt_get (receipts (state_of s)) (a2_batch_id a) = None"
  shows "sorted_list_of_set (live_seqs (state_of t)) =
    drop (length (a2_accepted_record_ids a) + length (a2_accepted_gap_notice_ids a)) (sorted_list_of_set (live_seqs (state_of s)))"
  using acknowledge_v2_pops [OF assms] by (simp add: sorted_drop)



end
