(* ===== verification/Spool_Typed.thy ===== *)
theory Spool_Typed
  imports Spool_System
begin

text \<open>
  The integer widths of the state. The model has natural numbers where spool.rs has u64 (and
  usize for lengths); here every reachable state is shown to keep all of them in range, so
  that the unbounded numbers of the model are the machine integers of the source.
\<close>

section \<open>Counters in range\<close>

named_theorems fitting \<open>procedures that keep the counters in range\<close>

definition fits :: "spool_state \<Rightarrow> bool" where
  "fits st \<longleftrightarrow> next_spool_sequence st \<le> u64_max \<and> next_receipt_sequence st \<le> u64_max \<and>
     corrupt_records st \<le> u64_max \<and> expired_records st \<le> u64_max \<and> length (gaps st) \<le> u64_max"

lemma sat_add_fits [simp]: "sat_add_u64 a b \<le> u64_max"
  by (simp add: sat_add_u64_def)

lemma checked_add_fits: "checked_add_u64 a b = Some c \<Longrightarrow> c = a + b \<and> c \<le> u64_max"
  by (auto simp: checked_add_u64_def split: if_splits)

lemma bt_length_bounds: "length (bt_remove k m) \<le> length m" "length (bt_insert k v m) \<le> Suc (length m)"
  using le_SucI [OF length_filter_le]
  by (simp add: bt_remove_def, induction m) (auto simp: bt_remove_def)

lemma fits_updates:
  "fits st \<Longrightarrow> fits (drop_entry e st)" "fits st \<Longrightarrow> fits (uncount q st)" "fits st \<Longrightarrow> fits (remove_gap g k st)"
  "fits st \<Longrightarrow> fits (index_entry e st)" "fits st \<Longrightarrow> fits (index_receipt r p st)"
  "fits st \<Longrightarrow> fits (st\<lparr>corrupt_records := sat_add_u64 a b\<rparr>)" "fits st \<Longrightarrow> fits (st\<lparr>receipts := rs\<rparr>)"
  "fits st \<Longrightarrow> fits (st\<lparr>v1_ack_history_pruned := b'\<rparr>)" "fits st \<Longrightarrow> fits (st\<lparr>counted_pending_expirations := cs\<rparr>)"
  using bt_length_bounds(1) [of k "gaps st"]
  by (simp_all add: fits_def drop_entry_def uncount_def remove_gap_def index_entry_def index_receipt_def)

lemma fits_insert_gap: "fits st \<Longrightarrow> length (gaps st) < u64_max \<Longrightarrow> fits (insert_gap n b p st)"
  using bt_length_bounds(2) [of "gap_notice_id n" "\<lparr>g_notice = n, g_encrypted_bytes = b, g_path = p\<rparr>" "gaps st"]
  by (simp add: fits_def insert_gap_def)

lemma keeps_upd [fitting]:
  "keeps (on fits) (upd_state (drop_entry e))" "keeps (on fits) (upd_state (uncount q))" "keeps (on fits) (upd_state (remove_gap g k))"
  "keeps (on fits) (upd_state (index_entry e))" "keeps (on fits) (upd_state (index_receipt r p))"
  "keeps (on fits) (upd_state (\<lambda>st. st\<lparr>corrupt_records := sat_add_u64 (f st) b\<rparr>))"
  "keeps (on fits) (upd_state (\<lambda>st. st\<lparr>receipts := rs st\<rparr>))" "keeps (on fits) (upd_state (\<lambda>st. st\<lparr>v1_ack_history_pruned := b'\<rparr>))"
  "keeps (on fits) (upd_state (\<lambda>st. st\<lparr>counted_pending_expirations := cs st\<rparr>))"
  by (rule triple_upd_state, erule fits_updates)+

lemma keeps_ok_or_bind: "(\<And>v. x = Some v \<Longrightarrow> keeps I (f v)) \<Longrightarrow> keeps I (bindR (ok_or x e) f)"
  by (rule triple_ok_or_bind) auto

lemma keeps_option: "keeps I m \<Longrightarrow> (\<And>v. keeps I (f v)) \<Longrightarrow> keeps I (case x of None \<Rightarrow> m | Some v \<Rightarrow> f v)"
  by (cases x) simp_all

lemma keeps_prod: "(\<And>a b. keeps I (f a b)) \<Longrightarrow> keeps I (case p of (a, b) \<Rightarrow> f a b)"
  by (cases p) simp

lemma keeps_loop: "keeps I body \<Longrightarrow> keeps I (loopR fuel e body)"
  by (rule triple_loopR [where I = I], erule triple_conseq) (auto split: option.splits)

lemmas keeping = keeps_bind keeps_match keeps_pure keeps_option keeps_prod keeps_loop quiet

section \<open>Requests\<close>

text \<open>Where a gap notice is inserted, the number of notices was below the limit.\<close>

lemma persist_gap_fits [fitting]:
  assumes "ctx_ok X"
  shows "keeps (on fits) (persist_gap_locked X e at reason)"
proof -
  have room: "length (gaps st) < u64_max" if "\<not> max_records (config X) \<le> length (gaps st)" for st
    using assms that by (simp add: ctx_ok_def)
  show ?thesis
    unfolding persist_gap_locked_def Let_def
    by (rule triple_gets_state)
      (intro triple_if triple_failIf_bind triple_ok_or_bind triple_quiet_bind [OF quiet_spool_encrypt]
        triple_quiet_bind [OF quiet_temporary_path] triple_quiet_bind [OF quiet_spool_write_atomic] triple_ok
        triple_bind [OF triple_upd_state [where Q = fits]]; (auto simp: on_def intro!: fits_insert_gap room))
qed

lemma remove_admitted_fits [fitting]: "keeps (on fits) (remove_admitted_record X a)"
  unfolding remove_admitted_record_def Let_def by (intro keeping fitting)

lemma remove_expired_fits [fitting]: "keeps (on fits) (remove_expired_gap_backing X k)"
  unfolding remove_expired_gap_backing_def by (intro keeping fitting)

lemma complete_gap_fits [fitting]: "keeps (on fits) (complete_gap X fl k)"
  unfolding complete_gap_def by (intro keeping fitting)

lemma complete_removals_fits [fitting]: "keeps (on fits) (complete_removals X r fl)"
  unfolding complete_removals_def by (intro keeping fitting)

lemma complete_receipt_fits [fitting]: "keeps (on fits) (complete_receipt X r)"
  unfolding complete_receipt_def by (intro keeping fitting)

lemma quarantine_runtime_fits [fitting]: "ctx_ok X \<Longrightarrow> keeps (on fits) (quarantine_runtime_entry X e)"
  unfolding quarantine_runtime_entry_def by (intro keeping fitting)

lemma expire_entry_fits [fitting]: "ctx_ok X \<Longrightarrow> keeps (on fits) (expire_entry X b e)"
  unfolding expire_entry_def by (intro keeping fitting)

lemma count_total: "x = Some v \<Longrightarrow> x = checked_add_u64 a b \<Longrightarrow> keeps (on fits) (upd_state (\<lambda>st. st\<lparr>expired_records := v, counted_pending_expirations := cs\<rparr>))"
  by (rule triple_upd_state) (auto simp: fits_def dest: checked_add_fits)

lemma expire_due_fits [fitting]:
  assumes "ctx_ok X"
  shows "keeps (on fits) (expire_due X now)"
  unfolding expire_due_def Let_def
  by (intro keeps_ok_or_bind count_total keeping fitting assms; (assumption | rule refl)?)

lemma enqueue_new_fits [fitting]: "keeps (on fits) (enqueue_new X envelope now)"
proof -
  have admit: "keeps (on fits) (upd_state (admit_entry e))" if "checked_add_u64 (e_spool_seq e) 1 = Some v" for e v
    by (rule triple_upd_state) (use checked_add_fits [OF that] in \<open>auto simp: fits_def admit_entry_def\<close>)
  show ?thesis
    unfolding enqueue_new_def Let_def
    by (intro keeps_bind [OF keeps_pure(3)] keeps_ok_or_bind admit keeping fitting) auto
qed

lemma enqueue_fits [fitting]: "keeps (on fits) (enqueue X envelope now)"
  unfolding enqueue_def Let_def by (intro keeping fitting)

lemma batch_v1_loop_fits [fitting]: "ctx_ok X \<Longrightarrow> keeps (on fits) (batch_v1_loop X es rs n)"
  by (induction es arbitrary: rs n) (simp_all only: batch_v1_loop.simps Let_def, (intro keeping fitting | assumption | blast)+)

lemma candidate_item_fits [fitting]: "ctx_ok X \<Longrightarrow> keeps (on fits) (candidate_item X counted c)"
  unfolding candidate_item_def by (cases c) (simp_all only: batch_candidate_v2.case, (intro keeping fitting | assumption)+)

lemma batch_v2_loop_fits [fitting]: "ctx_ok X \<Longrightarrow> keeps (on fits) (batch_v2_loop X counted cs a)"
  by (induction cs arbitrary: a) (simp_all only: batch_v2_loop.simps, (intro keeping fitting | assumption | blast)+)

lemma batches_fit [fitting]:
  assumes "ctx_ok X"
  shows "keeps (on fits) (build_batch X)" "keeps (on fits) (next_batch X now)" "keeps (on fits) (build_batch_v2 X)" "keeps (on fits) (next_batch_v2 X now)"
proof -
  show v1: "keeps (on fits) (build_batch X)" unfolding build_batch_def by (intro keeping fitting assms)
  show v2: "keeps (on fits) (build_batch_v2 X)"
    unfolding build_batch_v2_def build_batch_v2_once_def Let_def by (intro keeping fitting assms)
  show "keeps (on fits) (next_batch X now)" unfolding next_batch_def by (intro v1 keeping fitting assms)
  show "keeps (on fits) (next_batch_v2 X now)" unfolding next_batch_v2_def by (intro v2 keeping fitting assms)
qed

lemma take_receipt_fits [fitting]: "keeps (on fits) take_receipt_sequence"
proof -
  have "keeps (on fits) (upd_state (\<lambda>st. st\<lparr>next_receipt_sequence := v\<rparr>))" if "checked_add_u64 n 1 = Some v" for n v
    by (rule triple_upd_state) (use checked_add_fits [OF that] in \<open>auto simp: fits_def\<close>)
  then show ?thesis unfolding take_receipt_sequence_def by (intro keeps_bind [OF keeps_pure(3)] keeps_ok_or_bind keeping) auto
qed

lemma receipts_fit [fitting]: "keeps (on fits) (store_receipt X r)" "keeps (on fits) (prune_receipts X)" "keeps (on fits) (spool_sync X)"
  unfolding store_receipt_def prune_receipts_def prune_once_def spool_sync_def Let_def by (intro keeping fitting)+

lemma acknowledge_fits [fitting]: "ctx_ok X \<Longrightarrow> keeps (on fits) (acknowledge X a)"
  unfolding acknowledge_def Let_def by (intro keeping fitting)

lemma acknowledge_v2_fits [fitting]: "ctx_ok X \<Longrightarrow> keeps (on fits) (acknowledge_v2 X a)"
  unfolding acknowledge_v2_def Let_def by (intro keeping fitting)

section \<open>Opening\<close>

lemma bump_corrupt_fits [fitting]: "keeps (on fits) bump_corrupt"
  unfolding bump_corrupt_def by (intro fitting)

lemma recover_gap_fits [fitting]:
  assumes "ctx_ok X"
  shows "keeps (on fits) (recover_gap X name)"
proof -
  have room: "length (gaps st) < u64_max" if "\<not> max_records (config X) \<le> length (gaps st)" for st
    using assms that by (simp add: ctx_ok_def)
  have last: "keeps (on fits) (bindR (gets state_of) (\<lambda>st. bindR (failIf (b st) e) (\<lambda>_.
      bindR (failIf (length (gaps st) \<ge> max_records (config X) \<or> c st) e') (\<lambda>_. upd_state (insert_gap n k p)))))" for b c e e' n k p
    by (rule triple_gets_state)
      (intro triple_failIf_bind triple_upd_state; (auto simp: on_def intro!: fits_insert_gap room))
  show ?thesis unfolding recover_gap_def by (intro last keeping)
qed

lemma recover_pending_file_fits [fitting]:
  assumes "ctx_ok X"
  shows "keeps (on fits) (recover_pending_file X now found name)"
proof -
  have q: "keeps (on fits) (quarantine_recovered_pending X name now)"
    unfolding quarantine_recovered_pending_def by (intro keeping fitting assms)
  show ?thesis
    unfolding recover_pending_file_def Let_def
    by (intro keeping q) (auto split: sum.split crypto_error.split option.split intro!: keeping q)
qed

lemma migrate_record_fits [fitting]: "keeps (on fits) (migrate_record X n r)"
  unfolding migrate_record_def Let_def by (intro keeping fitting)

lemma admit_recovered_fits [fitting]: "keeps (on fits) (admit_recovered X n r)"
  unfolding admit_recovered_def Let_def by (intro keeping fitting)

lemma recover_pending_fits [fitting]: "ctx_ok X \<Longrightarrow> keeps (on fits) (recover_pending X now)"
  unfolding recover_pending_def by (intro keeping fitting)

text \<open>What the sequence file holds was read as 64-bit numbers.\<close>

lemma sequence_state_typed:
  "dec_sequence_state C v = Some q \<Longrightarrow> sq_next_spool_sequence q \<le> u64_max \<and> sq_expired_records_total q \<le> u64_max"
  by (auto simp: dec_sequence_state_def field_default_def split: Option.bind_splits option.splits dest!: field_Some dest: dec_u64_le)

lemma recover_sequence_typed:
  "triple (on P) (recover_sequence_state X) (\<lambda>q s. on P s \<and> (\<forall>v. q = Some v \<longrightarrow> sq_next_spool_sequence v \<le> u64_max \<and> sq_expired_records_total v \<le> u64_max))
     (\<lambda>_. on P)"
proof -
  have json: "sq_next_spool_sequence v \<le> u64_max \<and> sq_expired_records_total v \<le> u64_max"
    if "json_from_slice C (dec_sequence_state C) b = Some v" for C b v
    using that by (auto simp: json_from_slice_def split: if_splits option.splits prod.splits Option.bind_splits dest!: sequence_state_typed)
  show ?thesis
    unfolding recover_sequence_state_def
    by (rule triple_match [OF quiet_io(2)])
      (intro triple_failIf_bind triple_quiet_bind [OF quiet_map_err [OF quiet_io(3)]] triple_quiet_bind [OF quiet_spool_decrypt]
        triple_ok_or_bind triple_ok triple_if triple_fail; (auto dest: json)?)+
qed

lemma recover_counters_fits [fitting]: "keeps (on fits) (recover_counters X)"
proof -
  have gaps_le: "expired_gap_count st \<le> length (gaps st)" for st
    unfolding expired_gap_count_def bt_values_def by (metis length_filter_le length_map)
  have upd: "triple (\<lambda>s. on fits s \<and> (\<forall>v. q = Some v \<longrightarrow> sq_next_spool_sequence v \<le> u64_max \<and> sq_expired_records_total v \<le> u64_max))
      (upd_state (apply_sequence_state q a b)) (\<lambda>_. on fits) (\<lambda>_. on fits)"
    if "a \<le> u64_max" "b \<le> u64_max" for q a b
  proof (rule triple_pre)
    fix s assume s: "on fits s \<and> (\<forall>v. q = Some v \<longrightarrow> sq_next_spool_sequence v \<le> u64_max \<and> sq_expired_records_total v \<le> u64_max)"
    then have "fits (apply_sequence_state q a b (state_of s))"
      using that order_trans [OF gaps_le, of "state_of s" u64_max]
      by (cases q) (auto simp: fits_def apply_sequence_state_def on_def u64_max_def)
    with s show "triple (\<lambda>t. t = s) (upd_state (apply_sequence_state q a b)) (\<lambda>_. on fits) (\<lambda>_. on fits)"
      by (simp add: triple_def upd_state_def modify_def on_def disk_ok_def)
  qed
  show ?thesis
    unfolding recover_counters_def
    by (rule triple_bind [OF recover_sequence_typed], rule triple_gets_bind, rule triple_ok_or_bind, rule triple_ok_or_bind,
        rule triple_bind [OF triple_weak [OF upd]]) (intro keeping | auto dest: checked_add_fits)+
qed

lemma recover_receipt_file_fits [fitting]: "keeps (on fits) (recover_receipt_file X name)"
  unfolding recover_receipt_file_def Let_def
  by (intro keeping) (auto split: sum.split crypto_error.split option.split intro!: keeping fitting)

lemma recover_fits [fitting]:
  assumes X: "ctx_ok X"
  shows "keeps (on fits) (recover X now)"
proof -
  have prepare: "keeps (on fits) (recover_prepare X)" unfolding recover_prepare_def by (intro keeping fitting)
  have gaps: "keeps (on fits) (recover_gaps X)" unfolding recover_gaps_def by (intro keeping fitting X)
  have receipts: "keeps (on fits) (recover_receipts X)" unfolding recover_receipts_def by (intro keeping fitting)
  have finish: "keeps (on fits) (recover_finish X now)" unfolding recover_finish_def by (intro keeping fitting X)
  show ?thesis unfolding recover_def by (intro keeps_bind prepare gaps receipts finish fitting X)
qed

lemma spool_open_fits:
  assumes "ctx_ok X"
  shows "triple disk_ok (spool_open X lock_held now) (\<lambda>_. on fits) (\<lambda>_. disk_ok)"
  by (rule spool_open_from [OF _ recover_fits [OF assms]]) (simp add: fits_def default_state_def u64_max_def)

section \<open>Reachable states\<close>

definition typed_inv :: "ctx \<Rightarrow> spool \<Rightarrow> bool" where
  "typed_inv X s \<longleftrightarrow> spool_inv X s \<and> fits (state_of s)"

lemma spool_step_fits:
  assumes "spool_step X s t" "typed_inv X s"
  shows "fits (state_of t)"
proof -
  have X: "ctx_ok X" and s: "on fits s" using assms(2) by (simp_all add: typed_inv_def spool_inv_def on_def)
  have k: "fits (state_of (snd (m s)))" if "keeps (on fits) m" for m :: "'b spool_proc"
    using keepsD [OF that s] by (simp add: on_def)
  from assms(1) show ?thesis
  proof (cases rule: spool_step.cases)
    case (step_reopen lock_held now)
    with triple_Inr [OF spool_open_fits [OF X], of s lock_held now "()" t] s show ?thesis by (simp add: on_def)
  qed (use s in \<open>simp_all add: k fitting X on_def\<close>)
qed

interpretation typed_sys: invariant_system "spool_init X" "spool_step X" "typed_inv X" for X
proof unfold_locales
  show "typed_inv X s" if "spool_init X s" for s
    using that spool_sys.inv_init [OF that] by (simp add: typed_inv_def spool_init_def fits_def default_state_def u64_max_def)
  show "typed_inv X t" if "spool_step X s t" "typed_inv X s" for s t
    using that spool_step_inv [OF that(1)] spool_step_fits [OF that] by (simp add: typed_inv_def)
qed

section \<open>Properties\<close>

text \<open>
  C12: every integer of the state fits its type. In every reachable state, the next sequence
  numbers, the counters of corrupt and expired records and the byte counters fit 64 bits, and
  so do the sequence number and the size of every entry, of every gap notice and the sequence
  of every receipt: the unbounded numbers of the model never leave the range of the machine
  integers of the source.
\<close>

theorem reachable_state_typed:
  assumes "spool_init X s" "(spool_step X)\<^sup>*\<^sup>* s t" "st = state_of t"
  shows "list_all (\<lambda>n. n \<le> u64_max) [next_spool_sequence st, next_receipt_sequence st, corrupt_records st, expired_records st,
      pending_bytes st, pending_gap_bytes st, length (entries st), length (gaps st)] \<and>
    (\<forall>k e. bt_get (entries st) k = Some e \<longrightarrow> e_spool_seq e \<le> u64_max \<and> e_encrypted_bytes e \<le> u64_max) \<and>
    (\<forall>k g. bt_get (gaps st) k = Some g \<longrightarrow> gap_spool_seq (g_notice g) \<le> u64_max \<and> g_encrypted_bytes g \<le> u64_max) \<and>
    (\<forall>k r. bt_get (receipts st) k = Some r \<longrightarrow> rc_sequence (re_receipt r) \<le> u64_max)"
proof -
  have inv: "typed_inv X t" using assms(1,2) by (rule typed_sys.inv_reachable)
  then have X: "ctx_ok X" and f: "fits st" and si: "state_inv X st" and b: "bounds_inv (config X) st" and m: "maps_ok st" and r: "receipts_inv st"
    using assms(3) by (simp_all add: typed_inv_def spool_inv_def state_inv_def base_inv_def)
  have live: "q \<le> u64_max" if "q \<in> live_seqs st" for q using si f that by (auto simp: state_inv_def fits_def)
  have size: "h x \<le> u64_max" if "bt_get n k = Some x" "bt_total h n \<le> max_bytes (config X)" "bt_ok n" for h :: "'v \<Rightarrow> nat" and n :: "(rid, 'v) btree" and k x
    using bt_total_remove [OF that(3,1), of h] that(2) X by (simp add: ctx_ok_def)
  show ?thesis
  proof (intro conjI allI impI, goal_cases)
    case 1
    then show ?case using f b X by (simp add: fits_def bounds_inv_def ctx_ok_def)
  next
    case (2 k e)
    then show ?case using live [of "e_spool_seq e"] live_seqs_iff [OF m] by blast
  next
    case (3 k e)
    then show ?case using size [of "entries st" k e e_encrypted_bytes] b m by (simp add: bounds_inv_def maps_ok_def)
  next
    case (4 k g)
    then show ?case using live [of "gap_spool_seq (g_notice g)"] live_seqs_iff [OF m] by blast
  next
    case (5 k g)
    then show ?case using size [of "gaps st" k g g_encrypted_bytes] b m by (simp add: bounds_inv_def maps_ok_def)
  next
    case (6 k x)
    then show ?case using r f by (fastforce simp: receipts_inv_def fits_def)
  qed
qed

end
