(* ===== verification/Queue_Witnesses.thy ===== *)
theory Queue_Witnesses
  imports Life_Witnesses Spool_Ledger Spool_Typed
begin

text \<open>
  The theorems about batches, acknowledgements and the ledger applied on the concrete spool
  with one admitted record: its batch is built, delivered and acknowledged.
\<close>

section \<open>The batch of one record\<close>

definition one_entry :: entry where
  "one_entry = (case entries (state_of one_spool) of [] \<Rightarrow> undefined | p # _ \<Rightarrow> snd p)"

lemma one_entry_facts:
  "entries (state_of one_spool) = [(record_id toy_crates toy_envelope1, one_entry)]"
  "e_record_id one_entry = record_id toy_crates toy_envelope1" "e_stable_record_id one_entry = stable_record_id toy_crates toy_envelope1"
  "e_spool_seq one_entry = 1" "e_expires_at_ms one_entry = 1700000060000" "e_admitted_at_ms one_entry = toy_now"
  "e_path one_entry = (Pending, pending_file_name 1 (record_id toy_crates toy_envelope1))"
  "counted_pending_expirations (state_of one_spool) = []" "unresolved_integrity (state_of one_spool) = False"
  "next_receipt_sequence (state_of one_spool) = 0" "expired_records (state_of one_spool) = 0"
  "v1_ack_history_pruned (state_of one_spool) = False"
  "stable_index (state_of one_spool) = [(stable_record_id toy_crates toy_envelope1, record_id toy_crates toy_envelope1)]"
  using one_spool_admitted
  by (auto simp: admitted_def admit_entry_def default_state_def new_entry_def one_entry_def toy_config_def sat_add_i64_def
      i64_min_def i64_max_def toy_now_def Let_def)

lemma one_read:
  assumes "look s = look one_spool"
  shows "read_entry toy_ctx one_entry s = (Inr toy_stored, s\<lparr>tick := Suc (Suc (tick s))\<rparr>)"
proof -
  have "next_spool_sequence (state_of empty_spool) = 1" by (simp add: empty_spool_def)
  then have "record_in toy_ctx (store_of one_spool) (stored_for toy_ctx 1 toy_envelope1 toy_now)"
    using enqueue_stored(2) [OF empty_file_inv toy_request_ok one_spool_run] by simp
  moreover have "stored_for toy_ctx 1 toy_envelope1 toy_now = toy_stored"
    by (simp add: stored_for_def toy_stored_def toy_config_def sat_add_i64_def i64_min_def i64_max_def toy_now_def)
  ultimately obtain b p where b: "valid_stored_record toy_crates toy_stored" "look s (e_path one_entry) = Some (Regular b)"
    "length b \<le> MAX_ENCRYPTED_RECORD_BYTES" "decrypt toy_crates (spool_key toy_ctx) b = Inr p"
    "json_from_slice toy_crates dec_stored_record p = Some toy_stored"
    using assms by (auto simp: record_in_def file_holds_def store_in_def toy_stored_def one_entry_facts split: if_splits)
  then show ?thesis
    by (simp add: read_entry_def spool_decrypt_def run_simps one_entry_facts toy_stored_def cong: run_bind_cong)
qed

definition toy_batch :: hub_batch_v2 where
  "toy_batch = \<lparr>bv2_version = 2, bv2_batch_id = batch_id_v2 toy_crates [toy_v2] [], bv2_records = [toy_v2], bv2_gaps = []\<rparr>"

lemma one_batch:
  "\<exists>n. build_batch_v2 toy_ctx one_spool = (Inr toy_batch, one_spool\<lparr>tick := n\<rparr>)"
proof -
  have c: "batch_candidates (state_of one_spool) = [CandRecord one_entry]"
    by (simp add: batch_candidates_def one_entry_facts one_spool_facts bt_values_def)
  have v: "toy_v2 = \<lparr>b2_record_id = e_stable_record_id one_entry, b2_legacy_record_id = e_record_id one_entry,
     b2_spool_seq = e_spool_seq one_entry, b2_received_at_ms = sr_admitted_at_ms toy_stored, b2_envelope = sr_envelope toy_stored\<rparr>"
    by (simp add: toy_v2_def one_entry_facts toy_stored_def)
  have cfg: "batch_max_records toy_config = 4" "batch_max_bytes toy_config = 65536" by (simp_all add: toy_config_def)
  have item: "candidate_item toy_ctx [] (CandRecord one_entry) one_spool =
      (Inr (Some (ItemRecord toy_v2)), one_spool\<lparr>tick := Suc (Suc (tick one_spool))\<rparr>)"
    by (simp add: candidate_item_def run_match one_read bt_contains_def bt_get_def ok_def v)
  have once: "build_batch_v2_once toy_ctx one_spool = (Inr (Some toy_batch), one_spool\<lparr>tick := Suc (Suc (tick one_spool))\<rparr>)"
    using toy_records(2) toy_sizes(2)
    by (simp add: build_batch_v2_once_def c item run_simps one_entry_facts(8,9) sat_add_u64_def u64_max_def cfg toy_batch_def
        cong: run_bind_cong run_match_cong)
  show ?thesis
    by (intro exI [of _ "Suc (Suc (tick one_spool))"]) (simp add: build_batch_v2_def loopR_def one_spool_facts once)
qed

lemma one_next_batch: "\<exists>n. next_batch_v2 toy_ctx toy_now one_spool = (Inr toy_batch, one_spool\<lparr>tick := n\<rparr>)"
proof -
  have "due_entries (state_of one_spool) toy_now = []"
    by (simp add: due_entries_def one_entry_facts bt_values_def bt_contains_def bt_get_def toy_now_def)
  then have "expire_due toy_ctx toy_now one_spool = (Inr 0, one_spool)"
    by (simp add: expire_due_def run_simps)
  with one_batch show ?thesis by (auto simp: next_batch_v2_def run_bind)
qed

section \<open>Its acknowledgement\<close>

definition full_ack :: hub_ack_v2 where
  "full_ack = \<lparr>a2_version = 2, a2_batch_id = bv2_batch_id toy_batch, a2_accepted_record_ids = [stable_record_id toy_crates toy_envelope1],
     a2_accepted_gap_notice_ids = []\<rparr>"

definition full_receipt :: ack_receipt where
  "full_receipt = receipt_v2 full_ack 0 [admission_of one_entry]"

lemma full_ack_facts: "valid_digest (bv2_batch_id toy_batch)" "length (bv2_batch_id toy_batch) = 64" "v2_ack_is_merged_prefix toy_batch full_ack"
  "receipt_admissions_v2 (state_of one_spool) toy_batch full_ack = Inr [admission_of one_entry]"
  by (simp_all add: toy_batch_def batch_id_v2_def hex_valid_digest [OF toy_digest_laws] hex_digest_length [OF toy_digest_laws]
      v2_ack_is_merged_prefix_def full_ack_def batch_items_def toy_v2_def hash_set_len_def sat_add_u64_def u64_max_def
      receipt_admissions_v2_def one_entry_facts bt_get_def admission_of_def)


lemma full_receipt_prints: "json_to_vec toy_crates (enc_receipt full_receipt) = Some (toy_json (enc_receipt full_receipt))"
  "length (toy_json (enc_receipt full_receipt)) \<le> 2000"
proof -
  note d = full_receipt_def receipt_v2_def full_ack_def enc_receipt_def enc_record_ids_def skip_empty_def enc_admission_def admission_of_def
    one_entry_facts
  show "json_to_vec toy_crates (enc_receipt full_receipt) = Some (toy_json (enc_receipt full_receipt))"
    by (rule toy_prints) (simp add: d u64_max_def)
  show "length (toy_json (enc_receipt full_receipt)) \<le> 2000"
    using toy_ids full_ack_facts(2) by (simp add: d enc_u64_def toy_len_def dec_digits.simps)
qed

lemma toy_store_receipt:
  assumes "disk_ok s" "\<not> storage_write_failed s" "\<And>x. look s (Tmp, x) = None" "\<And>x. look s (Receipts, x) = None"
  shows "\<exists>t p b. store_receipt toy_ctx full_receipt s = (Inr (), t) \<and> disk_ok t \<and> \<not> storage_write_failed t \<and>
    state_of t = (state_of s)\<lparr>receipts := bt_insert (bv2_batch_id toy_batch) \<lparr>re_receipt = full_receipt, re_path = (Receipts, p)\<rparr> (receipts (state_of s))\<rparr> \<and>
    look t = (look s)((Receipts, p) \<mapsto> Regular b)"
proof -
  let ?p = "toy_json (enc_receipt full_receipt)"
  let ?dst = "(Receipts, receipt_file_name 0 (bv2_batch_id toy_batch))"
  let ?tmp = "(Tmp, uuid_text toy_crates (fresh_uuid calm_env (Suc (tick s))) @ ''.tmp'')"
  have rc: "rc_sequence full_receipt = 0" "rc_batch_id full_receipt = bv2_batch_id toy_batch"
    by (simp_all add: full_receipt_def receipt_v2_def full_ack_def)
  obtain b where b: "spool_encrypt toy_ctx ?p s = (Inr b, s\<lparr>tick := Suc (tick s)\<rparr>)" "length b = length ?p + 56"
    using toy_encrypt [of ?p s] by blast
  obtain t where t: "spool_write_atomic toy_ctx ?tmp ?dst b (s\<lparr>tick := Suc (Suc (tick s))\<rparr>) = (Inr (), t)"
    "disk_ok t" "\<not> storage_write_failed t" "state_of t = state_of s" "look t = (look s)(?dst \<mapsto> Regular b)"
    using toy_write [of "s\<lparr>tick := Suc (Suc (tick s))\<rparr>" ?tmp ?dst b] assms by auto
  have "store_receipt toy_ctx full_receipt s = (Inr (), t\<lparr>state_of := (state_of s)\<lparr>receipts := bt_insert (bv2_batch_id toy_batch)
      \<lparr>re_receipt = full_receipt, re_path = ?dst\<rparr> (receipts (state_of s))\<rparr>\<rparr>)"
    using full_receipt_prints b t(1,4)
    by (simp add: store_receipt_def rc run_simps Let_def toy_temporary u64_try_from_def u64_max_def MAX_ENCRYPTED_RECEIPT_BYTES_def
        upd_state_def cong: run_bind_cong)
  with t(2,3,5) show ?thesis by (intro exI) auto
qed


lemma toy_complete_receipt:
  assumes "disk_ok s" "\<not> storage_write_failed s" "\<And>x. look s (Tmp, x) = None" "look s (e_path one_entry) = Some (Regular b)"
    and root: "\<And>m. look s (Root, SEQUENCE_STATE_FILE) \<noteq> Some (Special m)"
    and st: "state_of s = (state_of one_spool)\<lparr>next_receipt_sequence := n, receipts := rs\<rparr>"
  shows "\<exists>t. complete_receipt toy_ctx full_receipt s = (Inr (), t) \<and> receipts (state_of t) = rs"
proof -
  have rc: "rc_accepted_admissions full_receipt = [admission_of one_entry]" "rc_accepted_gap_notice_ids full_receipt = []"
    by (simp_all add: full_receipt_def receipt_v2_def full_ack_def)
  have ad: "admitted_entry (state_of s) (admission_of one_entry) = Some one_entry"
    using st by (simp add: admitted_entry_def admission_of_def one_entry_facts bt_get_def)
  define st' where "st' = drop_entry one_entry (state_of s)"
  define d where "d = del_file (e_path one_entry) (s\<lparr>tick := Suc (tick s)\<rparr>)"
  define u where "u = d\<lparr>state_of := st', tick := Suc (Suc (Suc (Suc (tick d))))\<rparr>"
  have u: "disk_ok u" "\<not> storage_write_failed u" "look u (Tmp, x) = None" "look u (Root, SEQUENCE_STATE_FILE) \<noteq> Some (Special m)" for x m
    using assms(1-3) root by (auto simp: u_def d_def look_del)
  have st'_facts: "next_spool_sequence st' = 2" "expired_records st' = 0" "v1_ack_history_pruned st' = False" "counted_pending_expirations st' = []"
    "receipts st' = rs"
    using st by (simp_all add: st'_def drop_entry_def one_entry_facts one_spool_facts)
  obtain t c where t: "persist_sequence_state toy_ctx 2 0 False [] u = (Inr (), t)" "state_of t = state_of u"
    using toy_sequence [OF u(1-4), of 2 0 False] by (auto simp: u64_max_def)
  have "drop_entry one_entry (state_of d) = st'" by (simp add: d_def st'_def)
  moreover have "counted_pending_expirations (state_of s) = []" using st by (simp add: one_entry_facts)
  ultimately have "complete_receipt toy_ctx full_receipt s = (Inr (), t)"
    using t(1) ad assms(1,4) st'_facts
    by (simp add: complete_receipt_def complete_removals_def rc remove_admitted_record_def run_simps Let_def bt_get_def remove_if_present_def
        upd_state_def sync_directory_def persist_current_def u_def d_def [symmetric] st'_def [symmetric] cong: run_bind_cong run_match_cong)
  with t(2) st'_facts(5) show ?thesis by (auto simp: u_def)
qed


lemma full_ack_runs: "\<exists>r t. acknowledge_v2 toy_ctx full_ack one_spool = (Inr r, t)"
proof -
  obtain n where build: "build_batch_v2 toy_ctx one_spool = (Inr toy_batch, one_spool\<lparr>tick := n\<rparr>)" using one_batch by blast
  obtain b c where l: "look one_spool = (\<lambda>_. None)((Pending, pending_file_name 1 (record_id toy_crates toy_envelope1)) \<mapsto> Regular b,
      (Root, SEQUENCE_STATE_FILE) \<mapsto> Regular c)" by (rule one_look)
  define s where "s = one_spool\<lparr>tick := n, state_of := (state_of one_spool)\<lparr>next_receipt_sequence := 1\<rparr>\<rparr>"
  have s: "disk_ok s" "\<not> storage_write_failed s" "look s (Tmp, x) = None" "look s (Receipts, x) = None" for x
    using one_spool_inv one_spool_writes by (simp_all add: s_def spool_inv_def l)
  obtain t p b' where t: "store_receipt toy_ctx full_receipt s = (Inr (), t)" "disk_ok t" "\<not> storage_write_failed t"
    "state_of t = (state_of s)\<lparr>receipts := bt_insert (bv2_batch_id toy_batch) \<lparr>re_receipt = full_receipt, re_path = (Receipts, p)\<rparr> (receipts (state_of s))\<rparr>"
    "look t = (look s)((Receipts, p) \<mapsto> Regular b')"
    using toy_store_receipt [OF s] by blast
  let ?rs = "bt_insert (bv2_batch_id toy_batch) \<lparr>re_receipt = full_receipt, re_path = (Receipts, p)\<rparr> (receipts (state_of s))"
  obtain u where u: "complete_receipt toy_ctx full_receipt t = (Inr (), u)" "receipts (state_of u) = ?rs"
    using toy_complete_receipt [OF t(2,3), where b = b and n = 1 and rs = ?rs] t(4,5) by (auto simp: s_def l one_entry_facts)
  have prune: "prune_receipts toy_ctx u = (Inr (), u)"
    by (simp add: prune_receipts_def loopR_def prune_once_def run_simps u(2) s_def one_spool_facts MAX_ACK_RECEIPTS_def)
  have ids: "set (map b2_record_id (bv2_records toy_batch)) = {stable_record_id toy_crates toy_envelope1}"
    by (simp add: toy_batch_def toy_v2_def)
  have "acknowledge_v2 toy_ctx full_ack one_spool = (Inr (ack_result_v2 full_receipt), u)"
    using full_ack_facts(1,3,4) ids t(1) u(1) prune build one_spool_facts(1)
    by (simp add: acknowledge_v2_def run_simps full_ack_def [simplified] hash_set_len_def bt_get_def take_receipt_sequence_def upd_state_def
        checked_add_u64_def u64_max_def one_entry_facts s_def full_receipt_def receipt_v2_def Let_def cong: run_bind_cong)
  then show ?thesis by blast
qed


definition acked_spool :: spool where
  "acked_spool = snd (acknowledge_v2 toy_ctx full_ack one_spool)"

definition ack_answer :: hub_ack_result_v2 where
  "ack_answer = projr (fst (acknowledge_v2 toy_ctx full_ack one_spool))"

lemma acked_spool_run: "acknowledge_v2 toy_ctx full_ack one_spool = (Inr ack_answer, acked_spool)"
  using full_ack_runs by (auto simp: acked_spool_def ack_answer_def)

lemma full_ack_new: "bt_get (receipts (state_of one_spool)) (a2_batch_id full_ack) = None"
  by (simp add: one_spool_facts bt_get_def)

section \<open>The theorems applied\<close>

theorem batch_v2_is_lowest_prefix_witness:
  "map fst (batch_items (bv2_records toy_batch) (bv2_gaps toy_batch)) = [1] \<and> length (bv2_records toy_batch) = 1"
proof -
  obtain n where n: "next_batch_v2 toy_ctx toy_now one_spool = (Inr toy_batch, one_spool\<lparr>tick := n\<rparr>)" using one_next_batch by blast
  have "validate_config (config toy_ctx) = Inr ()" by (simp add: toy_validate)
  from batch_v2_is_lowest_prefix [OF one_spool_inv this n] show ?thesis by (simp add: toy_batch_def one_spool_facts)
qed

theorem batch_v2_delivers_admitted_witness:
  "b2_record_id toy_v2 = stable_record_id toy_crates (b2_envelope toy_v2) \<and> validate (b2_envelope toy_v2) = Inr () \<and>
    (\<exists>e. bt_get (entries (state_of one_spool)) (b2_legacy_record_id toy_v2) = Some e \<and> e_spool_seq e = b2_spool_seq toy_v2)"
proof -
  obtain n where n: "next_batch_v2 toy_ctx toy_now one_spool = (Inr toy_batch, one_spool\<lparr>tick := n\<rparr>)" using one_next_batch by blast
  from batch_v2_delivers_admitted [OF one_spool_inv n] show ?thesis by (auto simp: toy_batch_def)
qed

theorem acknowledge_v2_takes_front_witness:
  "sorted_list_of_set (live_seqs (state_of one_spool)) = [1] \<and> sorted_list_of_set (live_seqs (state_of acked_spool)) = []"
  using acknowledge_v2_takes_front [OF one_spool_inv acked_spool_run full_ack_new] one_spool_facts by (simp add: full_ack_def)

lemma toy_history: "history (queue_step toy_ctx) empty_spool [1] acked_spool"
proof -
  have first: "queue_step toy_ctx empty_spool [] one_spool" unfolding one_spool_def by (rule queue_enqueue [OF empty_distinct])
  have second: "queue_step toy_ctx one_spool [1] acked_spool"
    using queue_acknowledge_v2 [OF acked_spool_run full_ack_new] one_spool_facts by (simp add: full_ack_def)
  note add = history_step [where step = "queue_step toy_ctx"]
  from add [OF add [OF history_refl first] second] show ?thesis by simp
qed



theorem reachable_state_typed_witness:
  "next_spool_sequence (state_of one_spool) \<le> u64_max \<and> e_encrypted_bytes one_entry \<le> u64_max"
  using reachable_state_typed [OF empty_spool_init(1) r_into_rtranclp [of "spool_step toy_ctx", OF one_spool_step] refl]
  by (simp add: one_entry_facts bt_get_def)

end
