(* ===== verification/Edge_Http.thy ===== *)
theory Edge_Http
  imports Services Spool_Ledger
begin

text \<open>
  The two services as HTTP services: the construction of their states, the clock, and the
  routes of admission.rs and delivery.rs with their body limits, over any request. What the
  web framework answers where no handler runs is a parameter. On top of the spool's theorems,
  what any request can do: only an authenticated acknowledgement releases anything, a refused
  request releases nothing, and an accepted record is in custody.
\<close>

section \<open>Requests and routes\<close>

datatype http_method = Get | Head | Post | OtherMethod string

record http_request =
  rq_method :: http_method
  rq_path :: string
  rq_authorization :: auth_header
  rq_body :: bytes

text \<open>
  The framework's own answers: no such path, no such method on it, a body over the limit, and
  a GET handler's answer to a HEAD request.
\<close>

record framework =
  not_found :: response
  method_not_allowed :: response
  body_too_large :: response
  head_answer :: "response \<Rightarrow> response"

text \<open>
  \<open>SystemClock::now_ms\<close> and \<open>now_ms\<close> of main.rs, from the milliseconds since the
  epoch (\<open>None\<close> for a clock before it).
\<close>

definition system_now_ms :: "nat option \<Rightarrow> int" where
  "system_now_ms elapsed = (case elapsed of None \<Rightarrow> 0 | Some ms \<Rightarrow> if int ms \<le> i64_max then int ms else i64_max)"

definition default_metrics :: metrics where
  "default_metrics = \<lparr>m_admitted = 0, m_duplicates = 0, m_rejected_auth = 0, m_rejected_invalid = 0,
     m_rejected_capacity = 0, m_rejected_storage = 0, m_rejected_internal = 0\<rparr>"

definition admission_service :: "spool \<Rightarrow> admission_state" where
  "admission_service s = (s, default_metrics)"

definition on_method :: "framework \<Rightarrow> http_method \<Rightarrow> http_request \<Rightarrow> ('s \<Rightarrow> response \<times> 's) \<Rightarrow> 's \<Rightarrow> response \<times> 's" where
  "on_method F m rq handler st =
     (if rq_method rq = m then handler st
      else if m = Get \<and> rq_method rq = Head then (case handler st of (r, st') \<Rightarrow> (head_answer F r, st'))
      else (method_not_allowed F, st))"

text \<open>The body is only read, and its limit only checked, where the handler takes it.\<close>

definition with_body :: "framework \<Rightarrow> nat \<Rightarrow> http_request \<Rightarrow> (bytes \<Rightarrow> 's \<Rightarrow> response \<times> 's) \<Rightarrow> 's \<Rightarrow> response \<times> 's" where
  "with_body F limit rq handler st = (if length (rq_body rq) > limit then (body_too_large F, st) else handler (rq_body rq) st)"

definition admission_router ::
  "framework \<Rightarrow> ctx \<Rightarrow> string \<Rightarrow> nat \<Rightarrow> int \<Rightarrow> http_request \<Rightarrow> admission_state \<Rightarrow> response \<times> admission_state" where
  "admission_router F X bearer in_flight now_ms rq =
     (if rq_path rq = ''/v1/internal/fleet-telemetry'' then
        on_method F Post rq (with_body F MAX_RECEIVER_BODY_BYTES rq
          (admit_receiver_envelope X bearer in_flight now_ms (rq_authorization rq)))
      else if rq_path rq = ''/healthz'' then on_method F Get rq (\<lambda>st. (liveness X now_ms st, st))
      else if rq_path rq = ''/readyz'' then on_method F Get rq (\<lambda>st. (readiness X now_ms st, st))
      else if rq_path rq = ''/metrics'' then on_method F Get rq (\<lambda>st. (metrics_page X now_ms st, st))
      else (\<lambda>st. (not_found F, st)))"

definition delivery_router ::
  "framework \<Rightarrow> ctx \<Rightarrow> credential_store \<Rightarrow> int \<Rightarrow> http_request \<Rightarrow> delivery_state \<Rightarrow> response \<times> delivery_state" where
  "delivery_router F X K now_ms rq =
     (if rq_path rq = ''/v1/hub/batches/next'' then
        on_method F Get rq (hub_next_batch X K now_ms (rq_authorization rq))
      else if rq_path rq = ''/v1/hub/acks'' then
        on_method F Post rq (with_body F MAX_HUB_ACK_BODY_BYTES rq (hub_acknowledge X K now_ms (rq_authorization rq)))
      else if rq_path rq = ''/v2/hub/batches/next'' then
        on_method F Get rq (hub_next_batch_v2 X K now_ms (rq_authorization rq))
      else if rq_path rq = ''/v2/hub/acks'' then
        on_method F Post rq (with_body F MAX_HUB_ACK_BODY_BYTES rq (hub_acknowledge_v2 X K now_ms (rq_authorization rq)))
      else (\<lambda>st. (not_found F, st)))"

section \<open>The Hub's requests\<close>

definition has_token :: "credential_store \<Rightarrow> int \<Rightarrow> auth_header \<Rightarrow> unit world \<Rightarrow> bool" where
  "has_token K now_ms h w \<longleftrightarrow> (\<exists>token. bearer_from_headers h = Some token \<and> fst (verify K token now_ms w) = Inr True)"

lemma authorized_cases:
  assumes "authorized K now h handler (s, w) = (r, (t, w'))"
  shows "has_token K now h w \<and> handler s = (r, t) \<or> \<not> has_token K now h w \<and> t = s \<and> status r \<in> {401, 503}"
proof (cases "authorize K now h w")
  case (Pair x v)
  have tok: "x = Inr () \<longleftrightarrow> has_token K now h w"
    using Pair by (auto simp: authorize_def has_token_def split: option.splits prod.splits sum.splits bool.splits)
  show ?thesis
  proof (cases x)
    case (Inl failure)
    then have "t = s" "r = authorization_error failure" "\<not> has_token K now h w"
      using assms Pair tok by (auto simp: authorized_def)
    then show ?thesis by (cases failure) (simp_all add: error_response_def)
  next
    case (Inr u)
    then show ?thesis using assms Pair tok by (auto simp: authorized_def split: prod.splits)
  qed
qed

lemma hub_next_batch_cases:
  assumes "hub_next_batch X K now h (s, w) = (r, (t, w'))"
  shows "\<not> has_token K now h w \<and> t = s \<and> status r \<in> {401, 503} \<or> has_token K now h w \<and> t = snd (next_batch X now s) \<and>
    status r = (case fst (next_batch X now s) of Inr _ \<Rightarrow> 200 | Inl ProtocolUpgradeRequired \<Rightarrow> 409 | Inl _ \<Rightarrow> 503)"
  using authorized_cases [OF assms [unfolded hub_next_batch_def]]
  by (cases "next_batch X now s") (auto simp: json_ok_def error_response_def split: sum.splits spool_error.splits)

lemma hub_next_batch_v2_cases:
  assumes "hub_next_batch_v2 X K now h (s, w) = (r, (t, w'))"
  shows "\<not> has_token K now h w \<and> t = s \<and> status r \<in> {401, 503} \<or> has_token K now h w \<and> t = snd (next_batch_v2 X now s) \<and>
    status r = (case fst (next_batch_v2 X now s) of Inr _ \<Rightarrow> 200 | Inl _ \<Rightarrow> 503)"
  using authorized_cases [OF assms [unfolded hub_next_batch_v2_def]]
  by (cases "next_batch_v2 X now s") (auto simp: json_ok_def error_response_def split: sum.splits)

lemma hub_acknowledge_cases:
  assumes "hub_acknowledge X K now h b (s, w) = (r, (t, w'))"
  shows "\<not> has_token K now h w \<and> t = s \<and> status r \<in> {401, 503} \<or> has_token K now h w \<and>
    (case parse_ack_v1 (lib X) b of Inl _ \<Rightarrow> t = s \<and> status r = 400
     | Inr a \<Rightarrow> t = snd (acknowledge X a s) \<and>
         status r = (case fst (acknowledge X a s) of Inr _ \<Rightarrow> 200 | Inl e \<Rightarrow> status (acknowledgement_error e)))"
  using authorized_cases [OF assms [unfolded hub_acknowledge_def]]
  by (auto simp: json_ok_def error_response_def split: sum.splits prod.splits)

lemma hub_acknowledge_v2_cases:
  assumes "hub_acknowledge_v2 X K now h b (s, w) = (r, (t, w'))"
  shows "\<not> has_token K now h w \<and> t = s \<and> status r \<in> {401, 503} \<or> has_token K now h w \<and>
    (case parse_ack_v2 (lib X) b of Inl _ \<Rightarrow> t = s \<and> status r = 400
     | Inr a \<Rightarrow> t = snd (acknowledge_v2 X a s) \<and>
         status r = (case fst (acknowledge_v2 X a s) of Inr _ \<Rightarrow> 200 | Inl InvalidAcknowledgement \<Rightarrow> 400 | Inl _ \<Rightarrow> 503))"
proof (cases "parse_ack_v2 (lib X) b")
  case (Inr a)
  obtain x u where x: "acknowledge_v2 X a s = (x, u)" by fastforce
  note auth = authorized_cases [OF assms [unfolded hub_acknowledge_v2_def]]
  show ?thesis
  proof (cases x)
    case (Inl e)
    with auth x show ?thesis by (cases e) (auto simp: \<open>parse_ack_v2 (lib X) b = Inr a\<close> error_response_def)
  qed (use auth x in \<open>auto simp: \<open>parse_ack_v2 (lib X) b = Inr a\<close> json_ok_def\<close>)
qed (use authorized_cases [OF assms [unfolded hub_acknowledge_v2_def]] in \<open>auto simp: error_response_def\<close>)

lemmas hub_cases = hub_next_batch_cases hub_next_batch_v2_cases hub_acknowledge_cases hub_acknowledge_v2_cases

text \<open>The answers of the framework have the statuses it documents; a HEAD answer keeps its status.\<close>

definition framework_laws :: "framework \<Rightarrow> bool" where
  "framework_laws F \<longleftrightarrow> status (not_found F) = 404 \<and> status (method_not_allowed F) = 405 \<and> status (body_too_large F) = 413 \<and>
     (\<forall>r. status (head_answer F r) = status r)"

lemma delivery_router_cases:
  assumes "delivery_router F X K now rq (s, w) = (r, (t, w'))"
  obtains (framework) "t = s" "r \<in> {not_found F, method_not_allowed F, body_too_large F}"
    | (refused) "\<not> has_token K now (rq_authorization rq) w" "t = s" "framework_laws F \<Longrightarrow> status r \<in> {401, 503}"
    | (batch) "has_token K now (rq_authorization rq) w" "t = snd (next_batch X now s)"
    | (batch_v2) "has_token K now (rq_authorization rq) w" "t = snd (next_batch_v2 X now s)"
    | (bad) "has_token K now (rq_authorization rq) w" "t = s"
    | (ack) a where "has_token K now (rq_authorization rq) w" "parse_ack_v1 (lib X) (rq_body rq) = Inr a" "t = snd (acknowledge X a s)"
        "status r = (case fst (acknowledge X a s) of Inr _ \<Rightarrow> 200 | Inl e \<Rightarrow> status (acknowledgement_error e))"
    | (ack_v2) a where "has_token K now (rq_authorization rq) w" "parse_ack_v2 (lib X) (rq_body rq) = Inr a" "t = snd (acknowledge_v2 X a s)"
        "status r = (case fst (acknowledge_v2 X a s) of Inr _ \<Rightarrow> 200 | Inl InvalidAcknowledgement \<Rightarrow> 400 | Inl _ \<Rightarrow> 503)"
proof -
  let ?head = "\<lambda>r0. r = r0 \<or> r = head_answer F r0"
  consider "t = s" "r \<in> {not_found F, method_not_allowed F, body_too_large F}"
    | r0 where "?head r0" "hub_next_batch X K now (rq_authorization rq) (s, w) = (r0, (t, w'))"
    | r0 where "?head r0" "hub_next_batch_v2 X K now (rq_authorization rq) (s, w) = (r0, (t, w'))"
    | "hub_acknowledge X K now (rq_authorization rq) (rq_body rq) (s, w) = (r, (t, w'))"
    | "hub_acknowledge_v2 X K now (rq_authorization rq) (rq_body rq) (s, w) = (r, (t, w'))"
    using assms by (auto simp: delivery_router_def on_method_def with_body_def split: if_splits prod.splits)
  then show thesis
  proof cases
    case (2 r0)
    then have "framework_laws F \<Longrightarrow> status r = status r0" by (auto simp: framework_laws_def)
    with hub_next_batch_cases [OF 2(2)] show thesis using refused batch by metis
  next
    case (3 r0)
    then have "framework_laws F \<Longrightarrow> status r = status r0" by (auto simp: framework_laws_def)
    with hub_next_batch_v2_cases [OF 3(2)] show thesis using refused batch_v2 by metis
  next
    case 4
    from hub_acknowledge_cases [OF this] show thesis using refused bad ack by (auto split: sum.splits)
  next
    case 5
    from hub_acknowledge_v2_cases [OF this] show thesis using refused bad ack_v2 by (auto split: sum.splits)
  qed (rule framework)
qed

lemma ledger_live: "ledger_of t = ledger_of s \<Longrightarrow> live_seqs (state_of t) = live_seqs (state_of s)"
  unfolding ledger_of_def by (metis ledger.ext_inject live_finite sorted_list_of_set.set_sorted_key_list_of_set)

section \<open>The receiver's requests\<close>

lemma admit_cases:
  assumes "admit_receiver_envelope X bearer in_flight now h b (s, m) = (r, (t, m'))"
  obtains (auth) "t = s" "status r = 401" "m' = count_rejected_auth m"
    | (busy) "t = s" "status r = 503" "m' = count_rejected_internal m"
    | (invalid) "t = s" "status r \<in> {400, 413}" "m' = count_rejected_invalid m"
    | (enqueued) envelope outcome where "bearer_from_headers h = Some bearer" "in_flight < 32" "parse_at (lib X) b now = Inr envelope"
        "enqueue X envelope now s = (outcome, t)" "r = fst (enqueue_response outcome)" "m' = snd (enqueue_response outcome) m"
proof (cases "bearer_from_headers h = Some bearer")
  case False
  then show thesis
    using assms by (intro auth) (auto simp: admit_receiver_envelope_def reply_def error_response_def bearer_matches_def split: option.splits)
next
  case True
  note run = assms [unfolded admit_receiver_envelope_def True option.case bearer_matches_def]
  show thesis
  proof (cases "MAX_CONCURRENT_ADMISSIONS \<le> in_flight")
    case True
    with run show thesis by (intro busy) (auto simp: reply_def error_response_def)
  next
    case few: False
    show thesis
    proof (cases "parse_at (lib X) b now")
      case (Inl e)
      with run few show thesis by (intro invalid; cases e) (auto simp: reply_def error_response_def)
    next
      case (Inr envelope)
      with run few True show thesis
        by (intro enqueued [of envelope "fst (enqueue X envelope now s)"])
          (simp_all add: MAX_CONCURRENT_ADMISSIONS_def split: prod.splits)
    qed
  qed
qed

lemma enqueue_response_cases: "(status (fst (enqueue_response out)), snd (enqueue_response out)) \<in>
    {(204, count_admitted), (204, count_duplicate), (507, count_rejected_capacity), (507, count_rejected_storage),
     (413, count_rejected_invalid), (503, count_rejected_internal)}"
  "status (fst (enqueue_response out)) = 204 \<longleftrightarrow> (\<exists>v. out = Inr v)"
proof -
  show "(status (fst (enqueue_response out)), snd (enqueue_response out)) \<in>
    {(204, count_admitted), (204, count_duplicate), (507, count_rejected_capacity), (507, count_rejected_storage),
     (413, count_rejected_invalid), (503, count_rejected_internal)}"
    by (auto simp: enqueue_response_def error_response_def split: sum.splits spool_error.splits enqueue_outcome.splits)
  show "status (fst (enqueue_response out)) = 204 \<longleftrightarrow> (\<exists>v. out = Inr v)"
    by (auto simp: enqueue_response_def error_response_def split: sum.splits spool_error.splits enqueue_outcome.splits)
qed

lemma indexed_entry:
  assumes "base_inv X st" "bt_get (stable_index st) i = Some k"
  obtains e where "bt_get (entries st) k = Some e" "e_stable_record_id e = i" "e_spool_seq e \<in> live_seqs st"
proof -
  have "entries_inv st" "maps_ok st" using assms(1) by (simp_all add: base_inv_def)
  then obtain e where e: "bt_get (entries st) k = Some e" "e_stable_record_id e = i"
    using assms(2) unfolding entries_inv_def entry_ok_def by blast
  then have "e_spool_seq e \<in> live_seqs st" using \<open>maps_ok st\<close> by (auto simp: live_seqs_iff)
  with e that show thesis by blast
qed

lemma enqueue_indexes:
  assumes "spool_inv X s" "enqueue_distinct X (state_of s) envelope" "enqueue X envelope now s = (Inr v, t)"
  shows "\<exists>k. bt_get (stable_index (state_of t)) (stable_record_id (lib X) envelope) = Some k" "base_inv X (state_of t)"
proof -
  have X: "ctx_ok X" "state_inv X (state_of s)" "collision_free (lib X) (state_of s)" "on (\<lambda>x. x = state_of s) s"
    using assms(1) by (simp_all add: spool_inv_def on_def)
  have ok: "bt_ok (stable_index (state_of s))" using X(2) by (simp add: state_inv_def base_inv_def maps_ok_def)
  from triple_Inr [OF enqueue_state [OF X(1-3) assms(2)] X(4) assms(3)] X(2) ok
  show "\<exists>k. bt_get (stable_index (state_of t)) (stable_record_id (lib X) envelope) = Some k" "base_inv X (state_of t)"
    by (auto simp: on_def admitted_def admit_entry_def new_entry_def state_inv_def bt_get_insert)
qed

section \<open>Properties\<close>

text \<open>
  C7: only an authenticated acknowledgement releases anything. Whatever request reaches the
  Hub listener, with any path, method, header and body, if a sequence number is no longer in
  custody after it, then the request carried a token that verifies, its body is a valid
  acknowledgement, and the number belongs to what that acknowledgement (or the receipt stored
  for its batch) names.
\<close>

theorem hub_releases_only_acknowledged:
  assumes "spool_inv X s" "delivery_router F X K now rq (s, w) = (r, (t, w'))"
    and "q \<in> live_seqs (state_of s)" "q \<notin> live_seqs (state_of t)"
  shows "(\<exists>token. bearer_from_headers (rq_authorization rq) = Some token \<and> fst (verify K token now w) = Inr True) \<and>
    ((\<exists>a. parse_ack_v1 (lib X) (rq_body rq) = Inr a \<and> q \<in> acked_v1 X (state_of s) a) \<or>
     (\<exists>a. parse_ack_v2 (lib X) (rq_body rq) = Inr a \<and> q \<in> acked_v2 X (state_of s) a))"
proof -
  have X: "ctx_ok X" "base_inv X (state_of s)" "collision_free (lib X) (state_of s)" "on (\<lambda>x. x = state_of s) s"
    using assms(1) by (simp_all add: spool_inv_def state_inv_def on_def)
  have safe: "\<not> t = snd (m s)" if "safe X m" for m :: "'b spool_proc"
    using ledger_live [OF ledger_safe [OF that assms(1)]] assms(3,4) by metis
  from assms(2) show ?thesis
  proof (cases rule: delivery_router_cases)
    case (ack a)
    then have "on (custody X (state_of s) (acked_v1 X (state_of s) a)) t"
      using triple_snd [OF acknowledge_v1_custody [OF X(1-3)] X(4)] by simp
    with ack assms(3,4) show ?thesis by (auto simp: on_def custody_def has_token_def)
  next
    case (ack_v2 a)
    then have "on (custody X (state_of s) (acked_v2 X (state_of s) a)) t"
      using triple_snd [OF acknowledge_v2_custody [OF X(1-3)] X(4)] by simp
    with ack_v2 assms(3,4) show ?thesis by (auto simp: on_def custody_def has_token_def)
  qed (use assms(3,4) safe [OF safe_next_batch [OF X(1)]] safe [OF safe_next_batch_v2 [OF X(1)]] in auto)
qed

text \<open>
  C17: a refused request of the Hub releases nothing. A request that is answered with a client
  error (400, 401, 404, 405, 409 or 413) leaves the ledger of the spool, the numbers in custody
  and the next number, as it was.
\<close>

theorem hub_refusal_releases_nothing:
  assumes "framework_laws F" "spool_inv X s" "delivery_router F X K now rq (s, w) = (r, (t, w'))"
    and "status r \<in> {400, 401, 404, 405, 409, 413}"
  shows "ledger_of t = ledger_of s"
proof -
  have X: "ctx_ok X" using assms(2) by (simp add: spool_inv_def)
  from assms(3) show ?thesis
  proof (cases rule: delivery_router_cases)
    case (ack a)
    obtain x where x: "acknowledge X a s = (x, t)" using ack(3) by (metis prod.collapse)
    with ack(4) assms(4) obtain e where e: "x = Inl e" "status (acknowledgement_error e) \<noteq> 503"
      by (cases x) auto
    then have "e \<in> refusals" by (cases e) (simp_all add: refusals_def error_response_def)
    with ledger_refused [OF assms(2), of a e t] x e(1) show ?thesis by simp
  next
    case (ack_v2 a)
    obtain x where x: "acknowledge_v2 X a s = (x, t)" using ack_v2(3) by (metis prod.collapse)
    with ack_v2(4) assms(4) have "x = Inl InvalidAcknowledgement" by (auto split: sum.splits spool_error.splits)
    with ledger_refused [OF assms(2), of _ InvalidAcknowledgement t a] x show ?thesis by (simp add: refusals_def)
  qed (simp_all add: ledger_safe [OF safe_next_batch [OF X] assms(2)] ledger_safe [OF safe_next_batch_v2 [OF X] assms(2)])
qed

text \<open>
  C34: a revoked credential is shut out of the service. After a successful revocation, no
  request with a token of that credential, to any path and with any body, changes the spool or
  is answered with a batch or a result.
\<close>

theorem revoked_credential_shut_out:
  assumes "json_laws (cr_lib K)" "token_laws (cr_lib K)" "disk_ok w0" "time_typed now" "framework_laws F"
    and "revoke K cid now w0 = (Inr (), w)" "uuid_parse (cr_lib K) cid = Some i"
    and "bearer_from_headers (rq_authorization rq) = Some token" "parse_token (cr_lib K) token = Some (i, secret)" "now \<le> later"
    and "delivery_router F X K later rq (s, w) = (r, (t, w'))"
  shows "t = s \<and> status r \<in> {401, 404, 405, 413, 503}"
proof -
  obtain f c where f: "find (\<lambda>c. sc_id c = i) (cf_credentials f) = Some c"
    "store_reads K (f\<lparr>cf_credentials := update_first (\<lambda>c. sc_id c = i) (revoked_at now) (cf_credentials f)\<rparr>) w"
    by (rule revoke_reads [OF assms(1-4,6,7)])
  have "\<not> has_token K later (rq_authorization rq) w"
    using revoked_dead [OF f(2,1) assms(9,10)] assms(8) by (simp add: has_token_def)
  with assms(11) show ?thesis
    by (cases rule: delivery_router_cases) (use assms(5) in \<open>auto simp: framework_laws_def\<close>)
qed


text \<open>
  C8: an accepted record is in custody. When a request to the receiver's listener is answered
  with 204, it carried the bearer, fewer than 32 admissions were running, its body is a valid
  envelope, and the spool holds an entry for exactly that envelope's stable identifier, whose
  number is in custody; the request was counted once, as admitted or as a duplicate.
\<close>

theorem accepted_record_in_custody:
  assumes "framework_laws F" "spool_inv X s" "admission_router F X bearer in_flight now rq (s, m) = (r, (t, m'))" "status r = 204"
    and "\<And>envelope. parse_at (lib X) (rq_body rq) now = Inr envelope \<Longrightarrow> enqueue_distinct X (state_of s) envelope"
  shows "bearer_from_headers (rq_authorization rq) = Some bearer \<and> in_flight < 32 \<and> m' \<in> {count_admitted m, count_duplicate m} \<and>
    (\<exists>envelope k e. parse_at (lib X) (rq_body rq) now = Inr envelope \<and>
      bt_get (stable_index (state_of t)) (stable_record_id (lib X) envelope) = Some k \<and>
      bt_get (entries (state_of t)) k = Some e \<and> e_stable_record_id e = stable_record_id (lib X) envelope \<and>
      e_spool_seq e \<in> live_seqs (state_of t))"
proof -
  let ?run = "admit_receiver_envelope X bearer in_flight now (rq_authorization rq) (rq_body rq) (s, m) = (r, (t, m'))"
  consider ?run | "status r \<in> {200, 404, 405, 413, 503}"
    using assms(1,3) by (auto simp: admission_router_def on_method_def with_body_def framework_laws_def liveness_def readiness_def
        metrics_page_def Let_def split: if_splits)
  then have ?run using assms(4) by auto
  then show ?thesis
  proof (cases rule: admit_cases)
    case (enqueued envelope outcome)
    obtain v where v: "outcome = Inr v" using enqueue_response_cases(2) [of outcome] enqueued(5) assms(4) by auto
    have m: "m' \<in> {count_admitted m, count_duplicate m}"
      using enqueued(6) v by (cases v) (simp_all add: enqueue_response_def)
    note i = enqueue_indexes [OF assms(2) assms(5) [OF enqueued(3)] enqueued(4) [unfolded v]]
    then obtain k where k: "bt_get (stable_index (state_of t)) (stable_record_id (lib X) envelope) = Some k" by blast
    obtain e where "bt_get (entries (state_of t)) k = Some e" "e_stable_record_id e = stable_record_id (lib X) envelope"
      "e_spool_seq e \<in> live_seqs (state_of t)" by (rule indexed_entry [OF i(2) k])
    with enqueued(1-3) k m show ?thesis by blast
  qed (use assms(4) in auto)
qed


end
