(* ===== verification/Edge_Init.thy ===== *)
theory Edge_Init
  imports Edge_Runtime
begin

text \<open>
  config.rs, the two functions that write: \<open>initialize\<close>, which creates the state
  directory, the receiver bearer, the spool key and the credential store, and
  \<open>rotate_receiver_token\<close>. The file tree is the view of \<open>Edge_Config\<close>, now as a
  state, by path: a path stands for the node it names, and other names of a node over trusted
  links are not followed. The directory of the credential store is the disk of
  \<open>Credentials\<close>; the file that opening the store creates there is not a node of the view.
\<close>

unbundle bit_operations_syntax

section \<open>A file tree that can be written\<close>

record home = "unit world" +
  view :: fs_view

type_synonym ('e, 'a) home_proc = "(home, 'e, 'a) proc"

text \<open>The user of the process: owner of new nodes, and the mask of their modes.\<close>

record fs_user =
  fu_uid :: nat
  fu_umask :: nat

definition masked :: "nat \<Rightarrow> nat \<Rightarrow> nat" where
  "masked mode umask = mode - (mode AND umask)"

definition set_node :: "component list \<Rightarrow> metadata lookup \<Rightarrow> bytes option \<Rightarrow> fs_view \<Rightarrow> fs_view" where
  "set_node p m b V = V\<lparr>symlink_metadata := (symlink_metadata V)(p := m), follow_metadata := (follow_metadata V)(p := m),
     file_bytes := (file_bytes V)(p := b)\<rparr>"

definition upd_view :: "(fs_view \<Rightarrow> fs_view) \<Rightarrow> ('e, unit) home_proc" where
  "upd_view f = modify (\<lambda>s. s\<lparr>view := f (view s)\<rparr>)"

text \<open>\<open>Path::exists\<close>, \<open>is_dir\<close> and \<open>is_file\<close>: any error counts as no.\<close>

definition exists_at :: "fs_view \<Rightarrow> component list \<Rightarrow> bool" where
  "exists_at V p \<longleftrightarrow> (case follow_metadata V p of Found _ \<Rightarrow> True | _ \<Rightarrow> False)"

definition kind_at :: "file_kind \<Rightarrow> fs_view \<Rightarrow> component list \<Rightarrow> bool" where
  "kind_at k V p \<longleftrightarrow> (case follow_metadata V p of Found m \<Rightarrow> md_kind m = k | _ \<Rightarrow> False)"

definition parent_is_dir :: "fs_view \<Rightarrow> component list \<Rightarrow> bool" where
  "parent_is_dir V p \<longleftrightarrow> (case parent_of p of None \<Rightarrow> False | Some q \<Rightarrow> kind_at Directory V q)"

text \<open>Creating a node: the name must be free and the parent a directory.\<close>

definition create_node :: "env \<Rightarrow> component list \<Rightarrow> metadata \<Rightarrow> bytes option \<Rightarrow> (io_error, unit) home_proc" where
  "create_node E p m b =
     bindR (os_call E) (\<lambda>_. bindR (gets view) (\<lambda>V.
     case symlink_metadata V p of
       Found _ \<Rightarrow> fail AlreadyExists
     | Failed \<Rightarrow> fail (OsError 5)
     | Absent \<Rightarrow> if parent_is_dir V p then upd_view (set_node p (Found m) b) else fail NotFound))"

definition create_dir :: "env \<Rightarrow> fs_user \<Rightarrow> component list \<Rightarrow> (io_error, unit) home_proc" where
  "create_dir E U p = create_node E p
     \<lparr>md_kind = Directory, md_uid = fu_uid U, md_mode = masked 511 (fu_umask U), md_len = 0\<rparr> None"

definition dir_or_fail :: "component list \<Rightarrow> io_error \<Rightarrow> (io_error, unit) home_proc" where
  "dir_or_fail p e = bindR (gets view) (\<lambda>V. if kind_at Directory V p then ok () else fail e)"

text \<open>\<open>fs::create_dir_all\<close> of the standard library.\<close>

function create_dir_all :: "env \<Rightarrow> fs_user \<Rightarrow> component list \<Rightarrow> (io_error, unit) home_proc" where
  "create_dir_all E U p =
     (if p = [] then ok ()
      else matchR (create_dir E U p) (\<lambda>_. ok ()) (\<lambda>e.
        if e = NotFound then
          (case parent_of p of
             None \<Rightarrow> fail (OsError 2)
           | Some q \<Rightarrow> bindR (create_dir_all E U q) (\<lambda>_.
               matchR (create_dir E U p) (\<lambda>_. ok ()) (dir_or_fail p)))
        else dir_or_fail p e))"
  by pat_completeness auto
termination
  by (relation "measure (\<lambda>(E, U, p). length p)") (auto simp: parent_of_def split: if_splits)

declare create_dir_all.simps [simp del]

definition set_mode :: "nat \<Rightarrow> metadata lookup \<Rightarrow> metadata lookup" where
  "set_mode mode l = (case l of Found m \<Rightarrow> if md_kind m = Symlink then l else Found (m\<lparr>md_mode := mode\<rparr>) | _ \<Rightarrow> l)"

definition set_permissions :: "env \<Rightarrow> component list \<Rightarrow> nat \<Rightarrow> (io_error, unit) home_proc" where
  "set_permissions E p mode = bindR (os_call E) (\<lambda>_. bindR (gets view) (\<lambda>V.
     if \<not> exists_at V p then fail NotFound
     else upd_view (\<lambda>V. V\<lparr>symlink_metadata := (symlink_metadata V)(p := set_mode mode (symlink_metadata V p)),
            follow_metadata := (follow_metadata V)(p := set_mode mode (follow_metadata V p))\<rparr>)))"

text \<open>A failed write may leave a part of the bytes.\<close>

definition set_len :: "nat \<Rightarrow> metadata lookup \<Rightarrow> metadata lookup" where
  "set_len n l = (case l of Found m \<Rightarrow> Found (m\<lparr>md_len := n\<rparr>) | _ \<Rightarrow> l)"

definition set_bytes :: "component list \<Rightarrow> bytes \<Rightarrow> fs_view \<Rightarrow> fs_view" where
  "set_bytes p b V = V\<lparr>symlink_metadata := (symlink_metadata V)(p := set_len (length b) (symlink_metadata V p)),
     follow_metadata := (follow_metadata V)(p := set_len (length b) (follow_metadata V p)),
     file_bytes := (file_bytes V)(p := Some b)\<rparr>"

definition write_view :: "env \<Rightarrow> component list \<Rightarrow> bytes \<Rightarrow> (io_error, unit) home_proc" where
  "write_view E p b = bindR (gets tick) (\<lambda>n. matchR (os_call E)
     (\<lambda>_. upd_view (set_bytes p b))
     (\<lambda>e. bindR (upd_view (set_bytes p (take (torn_write E n) b))) (\<lambda>_. fail e)))"

definition sync_dir :: "env \<Rightarrow> (io_error, unit) home_proc" where
  "sync_dir E = bindR (os_call E) (\<lambda>_. os_call E)"

definition rename_view :: "env \<Rightarrow> component list \<Rightarrow> component list \<Rightarrow> (io_error, unit) home_proc" where
  "rename_view E p q = bindR (os_call E) (\<lambda>_. bindR (gets view) (\<lambda>V.
     case symlink_metadata V p of
       Found m \<Rightarrow> if kind_at Directory V q then fail (OsError 21)
                  else upd_view (\<lambda>V. set_node p Absent None (set_node q (Found m) (file_bytes V p) V))
     | _ \<Rightarrow> fail NotFound))"

definition remove_view :: "env \<Rightarrow> component list \<Rightarrow> (io_error, unit) home_proc" where
  "remove_view E p = bindR (os_call E) (\<lambda>_. bindR (gets view) (\<lambda>V.
     case symlink_metadata V p of
       Found m \<Rightarrow> if md_kind m = Directory then fail (OsError 21) else upd_view (set_node p Absent None)
     | _ \<Rightarrow> fail NotFound))"

text \<open>A call of the credential store on its directory.\<close>

definition with_store :: "(unit world, 'e, 'a) proc \<Rightarrow> ('e, 'a) home_proc" where
  "with_store m = (\<lambda>s. case m \<lparr>files = files s, tick = tick s\<rparr> of (r, w) \<Rightarrow> (r, s\<lparr>files := files w, tick := tick w\<rparr>))"

section \<open>Private files and directories\<close>

definition write_new_private :: "env \<Rightarrow> fs_user \<Rightarrow> component list \<Rightarrow> bytes \<Rightarrow> (config_error, unit) home_proc" where
  "write_new_private E U p bs =
     bindR (map_err (\<lambda>e. if e = AlreadyExists then AlreadyInitialized else ConfIo)
        (create_node E p \<lparr>md_kind = RegularFile, md_uid = fu_uid U, md_mode = masked 384 (fu_umask U), md_len = 0\<rparr> (Some []))) (\<lambda>_.
     bindR (map_err (\<lambda>_. ConfIo) (write_view E p bs)) (\<lambda>_.
     bindR (map_err (\<lambda>_. ConfIo) (os_call E)) (\<lambda>_.
     case parent_of p of
       None \<Rightarrow> ok ()
     | Some parent \<Rightarrow> map_err (\<lambda>_. ConfIo) (sync_dir E))))"

definition create_private_directory :: "env \<Rightarrow> fs_user \<Rightarrow> component list \<Rightarrow> (config_error, unit) home_proc" where
  "create_private_directory E U p =
     bindR (gets view) (\<lambda>V.
     bindR (lift_result (symlink_loop V [] p)) (\<lambda>linked.
     bindR (failIf linked ConfInvalidPath) (\<lambda>_.
     case symlink_metadata V p of
       Found m \<Rightarrow> bindR (failIf (md_kind m \<noteq> Directory) ConfInvalidPath) (\<lambda>_.
                  failIf (md_mode m AND 63 \<noteq> 0) UnsafePermissions)
     | Failed \<Rightarrow> fail ConfIo
     | Absent \<Rightarrow> bindR (map_err (\<lambda>_. ConfIo) (create_dir_all E U p)) (\<lambda>_.
                 map_err (\<lambda>_. ConfIo) (set_permissions E p 448)))))"

definition new_secret :: "env \<Rightarrow> ('e, bytes) home_proc" where
  "new_secret E = (\<lambda>s. (Inr (fresh_secret E (tick s)), s\<lparr>tick := Suc (tick s)\<rparr>))"

section \<open>Initialization and rotation\<close>

definition secret_paths :: "edge_config \<Rightarrow> string list" where
  "secret_paths c = [receiver_bearer_path c, spool_key_path c, credential_store_path c]"

definition initialize :: "crates \<Rightarrow> env \<Rightarrow> fs_user \<Rightarrow> credential_store \<Rightarrow> edge_config \<Rightarrow> (config_error, unit) home_proc" where
  "initialize C E U K c =
     bindR (lift_result (validate_shape c)) (\<lambda>_.
     bindR (for_each (secret_paths c) (\<lambda>p.
        bindR (gets view) (\<lambda>V.
        if exists_at V (components p) then fail AlreadyInitialized
        else bindR (lift_result (path_contains_symlink V p)) (\<lambda>linked.
             failIf linked AlreadyInitialized)))) (\<lambda>_.
     bindR (create_private_directory E U (components (state_directory c))) (\<lambda>_.
     bindR (for_each (secret_paths c) (\<lambda>p.
        bindR (ok_or (parent_of (components p)) ConfInvalidPath) (\<lambda>parent.
        bindR (gets view) (\<lambda>V.
        if exists_at V parent then ok () else create_private_directory E U parent)))) (\<lambda>_.
     bindR (new_secret E) (\<lambda>receiver_secret.
     bindR (write_new_private E U (components (receiver_bearer_path c)) (b64_encode C receiver_secret)) (\<lambda>_.
     bindR (new_secret E) (\<lambda>spool_key.
     bindR (write_new_private E U (components (spool_key_path c)) spool_key) (\<lambda>_.
     map_err (\<lambda>_. ConfIo) (with_store (store_open K))))))))))"

definition rotate_receiver_token :: "crates \<Rightarrow> env \<Rightarrow> fs_user \<Rightarrow> edge_config \<Rightarrow> (config_error, string) home_proc" where
  "rotate_receiver_token C E U c =
     bindR (gets view) (\<lambda>V.
     let destination = components (receiver_bearer_path c) in
     bindR (lift_result (path_contains_symlink V (receiver_bearer_path c))) (\<lambda>linked.
     bindR (failIf (linked \<or> \<not> kind_at RegularFile V destination) MissingFile) (\<lambda>_.
     bindR (ok_or (parent_of destination) ConfInvalidPath) (\<lambda>parent.
     bindR (new_uuid C E) (\<lambda>u.
     let temporary = parent @ [Normal (''.receiver-token.'' @ u @ ''.tmp'')] in
     bindR (new_secret E) (\<lambda>secret.
     let token = b64_encode C secret in
     bindR (write_new_private E U temporary token) (\<lambda>_.
     bindR (matchR (rename_view E temporary destination)
        (\<lambda>_. ok ())
        (\<lambda>_. matchR (remove_view E temporary) (\<lambda>_. fail ConfIo) (\<lambda>_. fail ConfIo))) (\<lambda>_.
     bindR (map_err (\<lambda>_. ConfIo) (sync_dir E)) (\<lambda>_.
     ok token)))))))))"


section \<open>Only new nodes are written\<close>

text \<open>A path without a node of its own leads nowhere.\<close>

definition view_ok :: "fs_view \<Rightarrow> bool" where
  "view_ok V \<longleftrightarrow> (\<forall>p. symlink_metadata V p = Absent \<longrightarrow> follow_metadata V p = Absent)"

text \<open>From \<open>V0\<close> on, no node that was there has changed, and no link was made.\<close>

definition grows :: "fs_view \<Rightarrow> fs_view \<Rightarrow> bool" where
  "grows V0 V \<longleftrightarrow> view_ok V0 \<and> view_ok V \<and>
     (\<forall>p. symlink_metadata V0 p \<noteq> Absent \<longrightarrow> symlink_metadata V p = symlink_metadata V0 p \<and>
        follow_metadata V p = follow_metadata V0 p \<and> file_bytes V p = file_bytes V0 p) \<and>
     (\<forall>p. symlink_metadata V0 p = Absent \<longrightarrow> symlink_metadata V p = Absent \<or>
        (\<exists>m. symlink_metadata V p = Found m \<and> md_kind m \<noteq> Symlink))"

lemma grows_refl: "view_ok V \<Longrightarrow> grows V V"
  by (simp add: grows_def)

lemma grows_absent: "grows V0 V \<Longrightarrow> symlink_metadata V p = Absent \<Longrightarrow> symlink_metadata V0 p = Absent"
  unfolding grows_def by metis

lemma grows_set_node:
  assumes "grows V0 V" "symlink_metadata V0 p = Absent" "md_kind m \<noteq> Symlink"
  shows "grows V0 (set_node p (Found m) b V)"
  using assms by (auto simp: grows_def view_ok_def set_node_def)

lemma grows_set_bytes:
  assumes "grows V0 V" "symlink_metadata V0 p = Absent"
  shows "grows V0 (set_bytes p b V)"
  using assms by (auto simp: grows_def view_ok_def set_bytes_def set_len_def split: lookup.splits)

lemma grows_mode:
  assumes "grows V0 V" "symlink_metadata V0 p = Absent"
  shows "grows V0 (V\<lparr>symlink_metadata := (symlink_metadata V)(p := set_mode mode (symlink_metadata V p)),
     follow_metadata := (follow_metadata V)(p := set_mode mode (follow_metadata V p))\<rparr>)"
  using assms by (auto simp: grows_def view_ok_def set_mode_def split: lookup.splits if_splits)

lemma grows_loop:
  assumes "grows V0 V" "symlink_loop V0 cur cs = Inr False"
  shows "symlink_loop V cur cs = Inr False"
  using assms(2)
proof (induction cs arbitrary: cur)
  case (Cons c cs)
  have c: "c \<noteq> ParentDir" using Cons.prems by auto
  show ?case
  proof (cases "symlink_metadata V0 (cur @ [c])")
    case (Found m)
    then have "symlink_metadata V (cur @ [c]) = Found m" using assms(1) by (simp add: grows_def)
    moreover have "follow_metadata V q = Found pm" if "follow_metadata V0 q = Found pm" for q pm
      using assms(1) that unfolding grows_def view_ok_def by (metis lookup.distinct(1))
    ultimately show ?thesis using Cons c Found by (auto simp: Let_def split: if_splits option.splits lookup.splits)
  next
    case Absent
    then have "symlink_loop V0 (cur @ [c]) cs = Inr False" using Cons.prems c by simp
    then have rest: "symlink_loop V (cur @ [c]) cs = Inr False" by (rule Cons.IH)
    consider "symlink_metadata V (cur @ [c]) = Absent" | m where "symlink_metadata V (cur @ [c]) = Found m" "md_kind m \<noteq> Symlink"
      using assms(1) Absent unfolding grows_def by blast
    then show ?thesis using c rest by cases (simp_all add: Let_def)
  next
    case Failed
    then show ?thesis using Cons.prems c by simp
  qed
qed simp


section \<open>The procedures\<close>

named_theorems tree \<open>procedures that keep every predicate on the file tree\<close>

lemma tree_calls [tree]: "keeps (\<lambda>s. P (view s)) (os_call E)" "keeps (\<lambda>s. P (view s)) (new_uuid C E)"
  by (auto simp: os_call_def new_uuid_def Let_def intro!: keepsI split: option.split)

lemma tree_secret [tree]: "keeps (\<lambda>s. P (view s)) (new_secret E)"
  by (auto simp: new_secret_def intro!: keepsI)

lemma tree_store [tree]: "keeps (\<lambda>s. P (view s)) (with_store m)"
  by (auto simp: with_store_def intro!: keepsI split: prod.split)

lemma tree_map_err [tree]: "keeps P m \<Longrightarrow> keeps P (map_err g m)"
  by (rule triple_map_err)

lemma tree_sync [tree]: "keeps (\<lambda>s. P (view s)) (sync_dir E)"
  unfolding sync_dir_def by (intro keeps_bind tree)

lemma triple_upd_view: "(\<And>V. P V \<Longrightarrow> Q (f V)) \<Longrightarrow> triple (\<lambda>s. P (view s)) (upd_view f) (\<lambda>_ s. Q (view s)) F"
  by (simp add: upd_view_def triple_def modify_def)

lemma triple_view: "(\<And>V. P V \<Longrightarrow> triple (\<lambda>s. view s = V) (f V) Q F) \<Longrightarrow> triple (\<lambda>s. P (view s)) (bindR (gets view) f) Q F"
  by (auto simp: triple_def bindR_def gets_def)

lemma triple_at_view: "triple (\<lambda>s. P (view s)) m Q F \<Longrightarrow> P V \<Longrightarrow> triple (\<lambda>s. view s = V) m Q F"
  by (erule triple_conseq) auto

lemma create_node_grows:
  assumes "md_kind m \<noteq> Symlink"
  shows "triple (\<lambda>s. grows V0 (view s)) (create_node E p m b)
    (\<lambda>_ s. grows V0 (view s) \<and> symlink_metadata V0 p = Absent \<and> symlink_metadata (view s) p = Found m \<and>
       follow_metadata (view s) p = Found m \<and> file_bytes (view s) p = b) (\<lambda>_ s. grows V0 (view s))"
  unfolding create_node_def
proof (rule triple_bind [OF tree_calls(1) triple_view], goal_cases)
  case (1 _ V)
  show ?case
  proof (cases "symlink_metadata V p")
    case Absent
    have "triple (\<lambda>s. view s = V) (upd_view (set_node p (Found m) b))
      (\<lambda>_ s. grows V0 (view s) \<and> symlink_metadata V0 p = Absent \<and> symlink_metadata (view s) p = Found m \<and>
       follow_metadata (view s) p = Found m \<and> file_bytes (view s) p = b) (\<lambda>_ s. grows V0 (view s))"
      using grows_set_node [OF 1 grows_absent [OF 1 Absent] assms] grows_absent [OF 1 Absent]
      by (auto simp: upd_view_def triple_def modify_def) (auto simp: set_node_def)
    then show ?thesis unfolding Absent lookup.case using 1 by (auto intro!: triple_if triple_fail)
  qed (use 1 in \<open>auto intro: triple_fail\<close>)
qed

lemma create_dir_grows: "keeps (\<lambda>s. grows V0 (view s)) (create_dir E U p)"
  unfolding create_dir_def by (rule triple_conseq [OF create_node_grows]) auto

lemma dir_or_fail_grows: "keeps (\<lambda>s. P (view s)) (dir_or_fail p e)"
  unfolding dir_or_fail_def by (intro keeps_bind keeps_pure triple_if)

lemma create_dir_all_grows: "keeps (\<lambda>s. grows V0 (view s)) (create_dir_all E U p)"
proof (induction E U p rule: create_dir_all.induct)
  case (1 E U p)
  have two: "keeps (\<lambda>s. grows V0 (view s)) (matchR (create_dir E U p) (\<lambda>_. ok ()) (dir_or_fail p))"
    by (intro keeps_match create_dir_grows keeps_pure dir_or_fail_grows)
  show ?case
  proof (cases "p = []")
    case False
    have IH: "keeps (\<lambda>s. grows V0 (view s)) (create_dir_all E U q)" if "parent_of p = Some q" for q
      using 1 [OF False _ that, of NotFound] by simp
    show ?thesis
      by (subst create_dir_all.simps, intro triple_if keeps_match create_dir_grows keeps_pure dir_or_fail_grows)
        (cases "parent_of p", simp_all only: option.case, rule keeps_pure, rule keeps_bind [OF IH two])
  qed (simp add: create_dir_all.simps)
qed

lemma create_private_directory_grows: "keeps (\<lambda>s. grows V0 (view s)) (create_private_directory E U p)"
  unfolding create_private_directory_def
proof (rule triple_view, goal_cases)
  case (1 V)
  have set: "keeps (\<lambda>s. grows V0 (view s)) (set_permissions E p mode)" if "symlink_metadata V0 p = Absent" for mode
    unfolding set_permissions_def
    by (rule keeps_bind [OF tree_calls(1) triple_view])
      (auto intro!: triple_if triple_fail triple_at_view [OF triple_upd_view [where P = "grows V0"]] grows_mode that)
  show ?case
  proof (rule triple_at_view [where P = "grows V0", OF _ 1], cases "symlink_metadata V p")
    case Absent
    show "keeps (\<lambda>s. grows V0 (view s)) (bindR (lift_result (symlink_loop V [] p)) (\<lambda>linked. bindR (failIf linked ConfInvalidPath) (\<lambda>_.
      case symlink_metadata V p of Found m \<Rightarrow> bindR (failIf (md_kind m \<noteq> Directory) ConfInvalidPath) (\<lambda>_. failIf (md_mode m AND 63 \<noteq> 0) UnsafePermissions)
      | Absent \<Rightarrow> bindR (map_err (\<lambda>_. ConfIo) (create_dir_all E U p)) (\<lambda>_. map_err (\<lambda>_. ConfIo) (set_permissions E p 448)) | Failed \<Rightarrow> fail ConfIo)))"
      unfolding Absent lookup.case
      by (intro keeps_bind keeps_pure tree_map_err create_dir_all_grows set grows_absent [OF 1 Absent])
  qed (auto intro!: keeps_bind keeps_pure)
qed


lemma write_new_private_grows:
  "triple (\<lambda>s. grows V0 (view s)) (write_new_private E U p b)
     (\<lambda>_ s. grows V0 (view s) \<and> symlink_metadata V0 p = Absent \<and> file_bytes (view s) p = Some b \<and>
        (\<exists>m. follow_metadata (view s) p = Found m \<and> symlink_metadata (view s) p = Found m \<and> md_kind m = RegularFile \<and> md_mode m = masked 384 (fu_umask U)))
     (\<lambda>_ s. grows V0 (view s))"
proof -
  let ?m = "\<lparr>md_kind = RegularFile, md_uid = fu_uid U, md_mode = masked 384 (fu_umask U), md_len = 0\<rparr>"
  let ?new = "\<lambda>V. grows V0 V \<and> symlink_metadata V0 p = Absent \<and> symlink_metadata V p = Found ?m \<and> follow_metadata V p = Found ?m \<and> file_bytes V p = Some []"
  let ?Q = "\<lambda>V. grows V0 V \<and> symlink_metadata V0 p = Absent \<and> file_bytes V p = Some b \<and>
        (\<exists>m. follow_metadata V p = Found m \<and> symlink_metadata V p = Found m \<and> md_kind m = RegularFile \<and> md_mode m = masked 384 (fu_umask U))"
  have fresh: "triple (\<lambda>s. grows V0 (view s)) (map_err g (create_node E p ?m (Some []))) (\<lambda>_ s. ?new (view s)) (\<lambda>_ s. grows V0 (view s))"
    for g :: "io_error \<Rightarrow> config_error"
    by (rule triple_map_err, rule triple_conseq [OF create_node_grows]) auto
  have torn: "grows V0 (set_bytes p c V)" if "?new V" for V c using that grows_set_bytes by blast
  have whole: "?Q (set_bytes p b V)" if "?new V" for V
    using that torn [OF that, of b] by (simp add: set_bytes_def set_len_def)
  have wr: "triple (\<lambda>s. ?new (view s)) (map_err g (write_view E p b)) (\<lambda>_ s. ?Q (view s)) (\<lambda>_ s. grows V0 (view s))"
    for g :: "io_error \<Rightarrow> config_error"
    unfolding write_view_def
    by (intro triple_map_err triple_bind [where R = "\<lambda>_ s. ?new (view s)"] triple_gets triple_match [OF tree_calls(1)]
        triple_bind [where R = "\<lambda>_ s. grows V0 (view s)"] triple_upd_view [where P = ?new] whole torn) (auto intro: triple_fail)
  have still: "triple (\<lambda>s. ?Q (view s)) m (\<lambda>_ s. ?Q (view s)) (\<lambda>_ s. grows V0 (view s))"
    if "keeps (\<lambda>s. ?Q (view s)) m" for m :: "(config_error, unit) home_proc"
    by (rule triple_conseq [OF that]) auto
  show ?thesis
    unfolding write_new_private_def
  proof (rule triple_bind [OF fresh], rule triple_bind [OF wr], rule triple_bind, rule still, rule tree_map_err, rule tree_calls(1))
    show "triple (\<lambda>s. ?Q (view s)) (case parent_of p of None \<Rightarrow> ok () | Some parent \<Rightarrow> map_err (\<lambda>_. ConfIo) (sync_dir E))
        (\<lambda>_ s. ?Q (view s)) (\<lambda>_ s. grows V0 (view s))"
      by (cases "parent_of p") (auto intro!: still keeps_pure tree_map_err tree_sync)
  qed
qed

lemma keeps_for_each: "(\<And>x. x \<in> set xs \<Longrightarrow> keeps I (body x)) \<Longrightarrow> keeps I (for_each xs body)"
  by (rule triple_for_each)

lemma initialize_grows: "keeps (\<lambda>s. grows V0 (view s)) (initialize C E U K c)"
proof -
  have w: "keeps (\<lambda>s. grows V0 (view s)) (write_new_private E U p b)" for p b
    by (rule triple_conseq [OF write_new_private_grows]) auto
  show ?thesis
    unfolding initialize_def
    by (intro keeps_bind keeps_pure keeps_for_each triple_if create_private_directory_grows w tree)
qed


section \<open>What initialization leaves\<close>

definition private_file :: "fs_user \<Rightarrow> fs_view \<Rightarrow> component list \<Rightarrow> bytes \<Rightarrow> bool" where
  "private_file U V p b \<longleftrightarrow> file_bytes V p = Some b \<and>
     (\<exists>m. follow_metadata V p = Found m \<and> symlink_metadata V p = Found m \<and> md_kind m = RegularFile \<and> md_mode m = masked 384 (fu_umask U))"

lemma grows_private: "grows V0 V \<Longrightarrow> private_file U V0 p b \<Longrightarrow> private_file U V p b"
  unfolding grows_def private_file_def by (metis lookup.distinct(1))

lemma checked_paths:
  "for_each ps (\<lambda>p. bindR (gets view) (\<lambda>V. if exists_at V (components p) then fail AlreadyInitialized
      else bindR (lift_result (path_contains_symlink V p)) (\<lambda>linked. failIf linked AlreadyInitialized))) s = (Inr (), t) \<Longrightarrow>
   t = s \<and> (\<forall>p \<in> set ps. \<not> exists_at (view s) (components p) \<and> path_contains_symlink (view s) p = Inr False)"
proof (induction ps)
  case (Cons p ps)
  then show ?case
    by (auto simp: bindR_eq_Inr gets_def fail_def failIf_def ok_def lift_result_def split: if_splits)
qed (simp add: ok_def)

lemma push_bit_and_drop: "push_bit n x AND u = push_bit n (x AND drop_bit n (u :: nat))"
  by (rule bit_eqI) (auto simp: bit_and_iff bit_push_bit_iff bit_drop_bit_eq)

lemma masked_private: "masked 384 u AND 63 = 0"
proof -
  define k where "k = drop_bit 7 u mod 4"
  have "384 AND u = push_bit 7 3 AND u" by simp
  also have "\<dots> = push_bit 7 (3 AND drop_bit 7 u)"
    by (rule push_bit_and_drop)
  also have "3 AND drop_bit 7 u = k"
    using take_bit_eq_mask [of 2 "drop_bit 7 u"] by (simp add: k_def take_bit_eq_mod and.commute mask_eq_exp_minus_1)
  finally have "masked 384 u = 384 - 128 * k" by (simp add: masked_def push_bit_eq_mult)
  moreover have "k < 4" by (simp add: k_def)
  then have "k \<in> {0, 1, 2, 3}" by auto
  ultimately show ?thesis by auto
qed

lemma initialize_files:
  assumes ok: "view_ok (view s)" and run: "initialize C E U K c s = (Inr (), t)"
  obtains n m where "private_file U (view t) (components (receiver_bearer_path c)) (b64_encode C (fresh_secret E n))"
    "private_file U (view t) (components (spool_key_path c)) (fresh_secret E m)"
    "\<And>p. p \<in> set (secret_paths c) \<Longrightarrow> path_contains_symlink (view t) p = Inr False"
proof -
  let ?b = "components (receiver_bearer_path c)" and ?k = "components (spool_key_path c)"
  obtain s1 s2 s3 s4 s5 s6 where chk: "for_each (secret_paths c) (\<lambda>p. bindR (gets view) (\<lambda>V. if exists_at V (components p) then fail AlreadyInitialized
      else bindR (lift_result (path_contains_symlink V p)) (\<lambda>linked. failIf linked AlreadyInitialized))) s = (Inr (), s1)"
    and dirs: "create_private_directory E U (components (state_directory c)) s1 = (Inr (), s2)"
    and parents: "for_each (secret_paths c) (\<lambda>p. bindR (ok_or (parent_of (components p)) ConfInvalidPath) (\<lambda>parent.
        bindR (gets view) (\<lambda>V. if exists_at V parent then ok () else create_private_directory E U parent))) s2 = (Inr (), s3)"
    and bearer: "write_new_private E U ?b (b64_encode C (fresh_secret E (tick s3))) (s3\<lparr>tick := Suc (tick s3)\<rparr>) = (Inr (), s4)"
    and key: "write_new_private E U ?k (fresh_secret E (tick s4)) (s4\<lparr>tick := Suc (tick s4)\<rparr>) = (Inr (), s5)"
    and store: "map_err (\<lambda>_. ConfIo) (with_store (store_open K)) s5 = (Inr (), t)"
    using run unfolding initialize_def bindR_eq_Inr new_secret_def lift_result_def by auto
  note c = checked_paths [OF chk]
  have g1: "grows (view s) (view s1)" using c grows_refl [OF ok] by simp
  have g2: "grows (view s) (view s2)" using triple_Inr [OF create_private_directory_grows g1 dirs] .
  have "keeps (\<lambda>x. grows (view s) (view x)) (for_each (secret_paths c) (\<lambda>p. bindR (ok_or (parent_of (components p)) ConfInvalidPath) (\<lambda>parent.
        bindR (gets view) (\<lambda>V. if exists_at V parent then ok () else create_private_directory E U parent))))"
    by (intro keeps_for_each keeps_bind keeps_pure triple_if create_private_directory_grows)
  from triple_Inr [OF this g2 parents] have g3: "grows (view s) (view (s3\<lparr>tick := Suc (tick s3)\<rparr>))" by simp
  note w = write_new_private_grows [where E = E and U = U]
  have b4: "grows (view s) (view s4)" "private_file U (view s4) ?b (b64_encode C (fresh_secret E (tick s3)))"
    using triple_Inr [OF w g3 bearer] by (auto simp: private_file_def)
  have g4: "grows (view s) (view (s4\<lparr>tick := Suc (tick s4)\<rparr>))" using b4(1) by simp
  have self: "grows (view s4) (view (s4\<lparr>tick := Suc (tick s4)\<rparr>))" using b4(1) grows_refl [of "view s4"] by (simp add: grows_def)
  have b5: "grows (view s) (view s5)" "private_file U (view s5) ?k (fresh_secret E (tick s4))"
    using triple_Inr [OF w g4 key] by (auto simp: private_file_def)
  have "grows (view s4) (view s5)" using triple_Inr [OF w self key] by blast
  from grows_private [OF this b4(2)] have pb: "private_file U (view s5) ?b (b64_encode C (fresh_secret E (tick s3)))" .
  have t: "view t = view s5"
    using triple_Inr [OF tree_map_err [OF tree_store [where P = "\<lambda>V. V = view s5"]] _ store] by simp
  have "path_contains_symlink (view t) p = Inr False" if "p \<in> set (secret_paths c)" for p
    using grows_loop [OF b5(1), of "[]" "components p"] c that by (simp add: path_contains_symlink_def t)
  with pb b5(2) show thesis by (intro that) (simp_all add: t)
qed


section \<open>The receiver bearer\<close>

text \<open>Base64 text is visible ASCII, at most twice as long as the bytes.\<close>

definition b64_laws :: "crates \<Rightarrow> bool" where
  "b64_laws C \<longleftrightarrow> (\<forall>b. length b \<le> length (b64_encode C b) \<and> length (b64_encode C b) \<le> 2 * length b \<and>
     list_all is_visible_ascii (b64_encode C b))"

lemma visible_utf8: "list_all is_visible_ascii t \<Longrightarrow> utf8_valid t"
  by (induction t) (auto simp: is_visible_ascii_def)

lemma token_reads:
  assumes "env_laws E" "b64_laws C" "file_bytes V (components (receiver_bearer_path c)) = Some (b64_encode C (fresh_secret E n))"
  shows "read_bearer V c = Inr (b64_encode C (fresh_secret E n))"
proof -
  let ?t = "b64_encode C (fresh_secret E n)"
  have "length (fresh_secret E n) = 32" using assms(1) by (simp add: env_laws_def)
  then have "32 \<le> length ?t" "length ?t \<le> 64" "list_all is_visible_ascii ?t"
    using assms(2) unfolding b64_laws_def by (metis, metis mult_2 numeral_Bit0, metis)
  then show ?thesis
    using assms(3) visible_utf8 [of ?t] by (auto simp: read_bearer_def read_bounded_def receiver_bearer_def MAX_SECRET_BYTES_def)
qed

lemma private_valid:
  "private_file U V (components p) b \<Longrightarrow> path_contains_symlink V p = Inr False \<Longrightarrow> validate_regular_file V True p = Inr ()"
  by (auto simp: private_file_def validate_regular_file_def masked_private)

text \<open>The node at a path is as before.\<close>

definition same_node :: "fs_view \<Rightarrow> component list \<Rightarrow> fs_view \<Rightarrow> bool" where
  "same_node V0 p V \<longleftrightarrow> symlink_metadata V p = symlink_metadata V0 p \<and> follow_metadata V p = follow_metadata V0 p \<and>
     file_bytes V p = file_bytes V0 p"

lemma grows_same: "grows V0 V \<Longrightarrow> symlink_metadata V0 p \<noteq> Absent \<Longrightarrow> same_node V0 p V"
  by (simp add: grows_def same_node_def)

lemma rename_token:
  assumes "p \<noteq> q" "\<not> kind_at Directory V0 q" "private_file U V p b" "same_node V0 q V"
  shows "triple (\<lambda>s. view s = V) (rename_view E p q) (\<lambda>_ s. private_file U (view s) q b) (\<lambda>_ s. same_node V0 q (view s))"
proof -
  obtain m where m: "symlink_metadata V p = Found m" "md_kind m = RegularFile" "md_mode m = masked 384 (fu_umask U)" "file_bytes V p = Some b"
    using assms(3) by (auto simp: private_file_def)
  have dir: "\<not> kind_at Directory V q" using assms(2,4) by (simp add: kind_at_def same_node_def)
  have "private_file U (set_node p Absent None (set_node q (Found m) (Some b) V)) q b"
    using assms(1) m by (simp add: set_node_def private_file_def)
  then have mv: "triple (\<lambda>s. view s = V) (upd_view (\<lambda>V. set_node p Absent None (set_node q (Found m) (file_bytes V p) V)))
      (\<lambda>_ s. private_file U (view s) q b) (\<lambda>_ s. same_node V0 q (view s))"
    using m(4) by (simp add: triple_def upd_view_def modify_def)
  have "triple (\<lambda>s. view s = V) (os_call E) (\<lambda>_ s. view s = V) (\<lambda>_ s. same_node V0 q (view s))"
    by (rule triple_conseq [OF tree_calls(1) [where P = "\<lambda>x. x = V"]]) (use assms(4) in auto)
  moreover have "triple (\<lambda>s. view s = V) (bindR (gets view) (\<lambda>V. case symlink_metadata V p of
       Found m \<Rightarrow> if kind_at Directory V q then fail (OsError 21)
                  else upd_view (\<lambda>V. set_node p Absent None (set_node q (Found m) (file_bytes V p) V))
     | _ \<Rightarrow> fail NotFound)) (\<lambda>_ s. private_file U (view s) q b) (\<lambda>_ s. same_node V0 q (view s))"
    by (rule triple_view [where P = "\<lambda>x. x = V"]) (use m(1) dir mv in auto)
  ultimately show ?thesis unfolding rename_view_def by (rule triple_bind)
qed

lemma remove_keeps: "p \<noteq> q \<Longrightarrow> keeps (\<lambda>s. same_node V0 q (view s)) (remove_view E p)"
  unfolding remove_view_def
  by (intro keeps_bind [OF tree_calls(1)] keeps_bind keeps_pure)
    (auto split: lookup.split intro!: triple_if triple_fail triple_upd_view simp: same_node_def set_node_def)


text \<open>After a rotation that failed, the file is as before or holds a complete new token.\<close>

definition rotated_or_same :: "crates \<Rightarrow> env \<Rightarrow> fs_user \<Rightarrow> fs_view \<Rightarrow> component list \<Rightarrow> fs_view \<Rightarrow> bool" where
  "rotated_or_same C E U V0 q V \<longleftrightarrow> same_node V0 q V \<or> (\<exists>n. private_file U V q (b64_encode C (fresh_secret E n)))"

lemma rotate_work:
  assumes ok: "view_ok V0" and reg: "kind_at RegularFile V0 q" and x: "x = fresh_secret E n"
  shows "triple (\<lambda>s. view s = V0) (bindR (write_new_private E U p (b64_encode C x)) (\<lambda>_.
       bindR (matchR (rename_view E p q) (\<lambda>_. ok ())
          (\<lambda>_. matchR (remove_view E p) (\<lambda>_. fail ConfIo) (\<lambda>_. fail ConfIo))) (\<lambda>_.
       bindR (map_err (\<lambda>_. ConfIo) (sync_dir E)) (\<lambda>_. ok (b64_encode C x)))))
    (\<lambda>token s. private_file U (view s) q token \<and> (\<exists>n. token = b64_encode C (fresh_secret E n)))
    (\<lambda>_ s. rotated_or_same C E U V0 q (view s))" (is "triple _ _ ?Q ?F")
proof -
  have dir: "\<not> kind_at Directory V0 q" and here: "symlink_metadata V0 q \<noteq> Absent"
    using reg ok by (auto simp: kind_at_def view_ok_def split: lookup.splits)
  let ?b = "b64_encode C x"
  have w: "triple (\<lambda>s. view s = V0) (write_new_private E U p ?b)
      (\<lambda>_ s. p \<noteq> q \<and> private_file U (view s) p ?b \<and> same_node V0 q (view s)) ?F"
    by (rule triple_conseq [OF write_new_private_grows [of V0]])
      (use here grows_refl [OF ok] grows_same [OF _ here] in \<open>auto simp: private_file_def rotated_or_same_def\<close>)
  have mv: "triple (\<lambda>s. p \<noteq> q \<and> private_file U (view s) p ?b \<and> same_node V0 q (view s))
      (matchR (rename_view E p q) (\<lambda>_. ok ()) (\<lambda>_. matchR (remove_view E p) (\<lambda>_. fail ConfIo) (\<lambda>_. fail ConfIo)))
      (\<lambda>_ s. private_file U (view s) q ?b) ?F"
  proof (rule triple_pre, goal_cases)
    case (1 s)
    then have "triple (\<lambda>t. t = s) (rename_view E p q) (\<lambda>_ s. private_file U (view s) q ?b) (\<lambda>_ s. same_node V0 q (view s))"
      by (intro triple_conseq [OF rename_token [OF _ dir, where V = "view s"]]) auto
    then show ?case
    proof (rule triple_match)
      show "triple (\<lambda>s. same_node V0 q (view s)) (matchR (remove_view E p) (\<lambda>_. fail ConfIo) (\<lambda>_. fail ConfIo))
          (\<lambda>_ s. private_file U (view s) q ?b) ?F"
        using 1 by (intro triple_match [OF remove_keeps] triple_fail) (auto simp: rotated_or_same_def)
    qed (auto intro: triple_ok)
  qed
  have sy: "triple (\<lambda>s. private_file U (view s) q ?b) (map_err (\<lambda>_. ConfIo) (sync_dir E)) (\<lambda>_ s. private_file U (view s) q ?b) ?F"
    by (rule triple_conseq [OF tree_map_err [OF tree_sync [where P = "\<lambda>V. private_file U V q ?b"]]]) (use x in \<open>auto simp: rotated_or_same_def\<close>)
  show ?thesis by (rule triple_bind [OF w triple_bind [OF mv triple_bind [OF sy triple_ok]]]) (use x in auto)
qed

lemma rotate_run:
  assumes ok: "view_ok V0" and q: "q = components (receiver_bearer_path c)"
  shows "triple (\<lambda>s. view s = V0) (rotate_receiver_token C E U c)
    (\<lambda>token s. private_file U (view s) q token \<and> (\<exists>n. token = b64_encode C (fresh_secret E n)))
    (\<lambda>_ s. rotated_or_same C E U V0 q (view s))" (is "triple ?P _ ?Q ?F")
proof -
  have same: "?F e s" if "view s = V0" for e s using that by (simp add: rotated_or_same_def same_node_def)
  show ?thesis
    unfolding rotate_receiver_token_def Let_def q [symmetric]
  proof (rule triple_view [where P = "\<lambda>x. x = V0"], hypsubst, rule triple_lift_bind, rule triple_failIf_bind, rule triple_ok_or_bind,
      rule triple_bind [where R = "\<lambda>_ s. view s = V0"], goal_cases)
    case 1
    show ?case by (rule triple_conseq [OF tree_calls(2) [where P = "\<lambda>x. x = V0"]]) (use same in auto)
  next
    case (2 linked _ parent u)
    then have reg: "kind_at RegularFile V0 q" by simp
    have sec: "triple (\<lambda>s. view s = V0) (new_secret E) (\<lambda>x s. view s = V0 \<and> (\<exists>n. x = fresh_secret E n)) ?F"
      by (auto simp: new_secret_def triple_def)
    show ?case
      by (rule triple_bind [OF sec], rule triple_pre, elim conjE exE, rule triple_conseq, rule rotate_work [OF ok reg], assumption, simp_all)
  qed (use same in auto)
qed


section \<open>Properties\<close>

text \<open>
  C35: initialization never touches what exists. Whatever it returns and whichever call fails,
  every node of the file tree that was there before has the same metadata and the same
  content afterwards: an existing bearer, key or directory is neither replaced nor changed.
\<close>

theorem initialize_keeps_existing:
  assumes "view_ok (view s)" "initialize C E U K c s = (r, t)" "symlink_metadata (view s) p = Found m"
  shows "symlink_metadata (view t) p = Found m \<and> follow_metadata (view t) p = follow_metadata (view s) p \<and>
    file_bytes (view t) p = file_bytes (view s) p"
  using keepsD [OF initialize_grows grows_refl [OF assms(1)], of C E U K c] assms(2,3) by (simp add: grows_def)

text \<open>
  C36: a successful initialization is what the start of the service needs. The bearer and the
  key are private regular files that pass the check of the runtime files, the key has 32
  bytes and the bearer is a bearer that the admission service accepts.
\<close>

theorem initialize_then_readable:
  assumes "env_laws E" "b64_laws C" "view_ok (view s)" "initialize C E U K c s = (Inr (), t)"
  shows "validate_regular_file (view t) True (receiver_bearer_path c) = Inr () \<and>
    validate_regular_file (view t) True (spool_key_path c) = Inr () \<and>
    (\<exists>key. read_key (view t) c = Inr key \<and> length key = 32) \<and>
    (\<exists>bearer. read_bearer (view t) c = Inr bearer \<and> receiver_bearer bearer = Some bearer)"
proof -
  obtain n m where b: "private_file U (view t) (components (receiver_bearer_path c)) (b64_encode C (fresh_secret E n))"
    and k: "private_file U (view t) (components (spool_key_path c)) (fresh_secret E m)"
    and links: "\<And>p. p \<in> set (secret_paths c) \<Longrightarrow> path_contains_symlink (view t) p = Inr False"
    by (rule initialize_files [OF assms(3,4)]) blast
  have "length (fresh_secret E m) = 32" using assms(1) by (simp add: env_laws_def)
  then have key: "read_key (view t) c = Inr (fresh_secret E m)"
    using k by (auto simp: private_file_def read_key_def read_bounded_def MAX_SECRET_BYTES_def)
  have bearer: "read_bearer (view t) c = Inr (b64_encode C (fresh_secret E n))"
    by (rule token_reads [OF assms(1,2)]) (use b in \<open>simp add: private_file_def\<close>)
  moreover have "receiver_bearer (b64_encode C (fresh_secret E n)) = Some (b64_encode C (fresh_secret E n))"
    using bearer by (auto simp: read_bearer_def receiver_bearer_def split: sum.splits if_splits option.splits)
  ultimately show ?thesis
    using private_valid [OF b links] private_valid [OF k links] key \<open>length _ = 32\<close> by (simp add: secret_paths_def)
qed

text \<open>
  C37: the rotation of the receiver bearer is atomic. When it succeeds, the bearer file is a
  private regular file with exactly the token it returns, and the service reads that token;
  when it fails, the file is as before or holds a complete new token.
\<close>

theorem rotate_receiver_token_atomic:
  assumes "env_laws E" "b64_laws C" "view_ok (view s)" "rotate_receiver_token C E U c s = (r, t)"
  shows "(case r of
      Inr token \<Rightarrow> read_bearer (view t) c = Inr token \<and>
        (\<exists>m. follow_metadata (view t) (components (receiver_bearer_path c)) = Found m \<and> md_kind m = RegularFile \<and> md_mode m AND 63 = 0)
    | Inl _ \<Rightarrow> read_bearer (view t) c = read_bearer (view s) c \<or> (\<exists>n. read_bearer (view t) c = Inr (b64_encode C (fresh_secret E n))))"
proof -
  note run = rotate_run [OF assms(3) refl, where C = C and E = E and U = U and c = c]
  have tok: "read_bearer (view t) c = Inr (b64_encode C (fresh_secret E n))"
    if "private_file U (view t) (components (receiver_bearer_path c)) (b64_encode C (fresh_secret E n))" for n
    by (rule token_reads [OF assms(1,2)]) (use that in \<open>simp add: private_file_def\<close>)
  show ?thesis
  proof (cases r)
    case (Inl e)
    with triple_Inl [OF run refl assms(4) [unfolded Inl]] tok show ?thesis
      by (auto simp: rotated_or_same_def same_node_def read_bearer_def read_bounded_def)
  next
    case (Inr token)
    with triple_Inr [OF run refl assms(4) [unfolded Inr]] tok show ?thesis
      by (auto simp: private_file_def masked_private)
  qed
qed

end
