(* ===== verification/Edge_Tls.thy ===== *)
theory Edge_Tls
  imports Edge_Runtime
begin

text \<open>
  tls.rs: the server configuration from the PEM files, over the functions of rustls and
  rustls_pemfile that it calls, which are parameters.
\<close>

record ('cert, 'key, 'roots, 'verifier, 'config) tls_lib =
  pem_certs :: "bytes \<Rightarrow> 'cert list option"
  pem_private_key :: "bytes \<Rightarrow> 'key option option"
  empty_roots :: 'roots
  add_root :: "'cert \<Rightarrow> 'roots \<Rightarrow> 'roots option"
  client_verifier :: "'roots \<Rightarrow> 'verifier option"
  safe_versions :: bool
  single_cert :: "'verifier \<Rightarrow> 'cert list \<Rightarrow> 'key \<Rightarrow> 'config option"

record 'config server_config =
  sc_config :: 'config
  alpn_protocols :: "string list"

text \<open>The loop over the authorities.\<close>

fun add_roots :: "('cert, 'key, 'roots, 'verifier, 'config) tls_lib \<Rightarrow> 'cert list \<Rightarrow> 'roots \<Rightarrow> tls_error + 'roots" where
  "add_roots L [] roots = Inr roots"
| "add_roots L (a # as) roots =
     (case add_root L a roots of None \<Rightarrow> Inl InvalidClientAuthority | Some roots' \<Rightarrow> add_roots L as roots')"

definition mtls_server_config_from_pem ::
  "('cert, 'key, 'roots, 'verifier, 'config) tls_lib \<Rightarrow> bytes \<Rightarrow> bytes \<Rightarrow> bytes \<Rightarrow> tls_error + 'config server_config" where
  "mtls_server_config_from_pem L server_certificate_pem server_private_key_pem hub_client_ca_pem =
     (case pem_certs L server_certificate_pem of
        None \<Rightarrow> Inl InvalidServerCertificate
      | Some server_certificates \<Rightarrow>
          if server_certificates = [] then Inl InvalidServerCertificate
          else (case pem_private_key L server_private_key_pem of
             None \<Rightarrow> Inl InvalidServerPrivateKey
           | Some None \<Rightarrow> Inl InvalidServerPrivateKey
           | Some (Some server_private_key) \<Rightarrow>
               (case pem_certs L hub_client_ca_pem of
                  None \<Rightarrow> Inl InvalidClientAuthority
                | Some client_authorities \<Rightarrow>
                    if client_authorities = [] then Inl InvalidClientAuthority
                    else (case add_roots L client_authorities (empty_roots L) of
                       Inl e \<Rightarrow> Inl e
                     | Inr roots \<Rightarrow>
                         (case client_verifier L roots of
                            None \<Rightarrow> Inl InvalidConfiguration
                          | Some verifier \<Rightarrow>
                              if \<not> safe_versions L then Inl InvalidConfiguration
                              else (case single_cert L verifier server_certificates server_private_key of
                                 None \<Rightarrow> Inl InvalidConfiguration
                               | Some built \<Rightarrow> Inr \<lparr>sc_config = built, alpn_protocols = [''h2'', ''http/1.1'']\<rparr>))))))"

text \<open>As the check of the runtime: whether there is a configuration.\<close>

definition mtls_of :: "('cert, 'key, 'roots, 'verifier, 'config) tls_lib \<Rightarrow> mtls" where
  "mtls_of L certificate key ca = (case mtls_server_config_from_pem L certificate key ca of Inl e \<Rightarrow> Inl e | Inr _ \<Rightarrow> Inr ())"

lemma add_roots_Inr: "add_roots L as roots = Inr r \<Longrightarrow> fold (\<lambda>a x. Option.bind x (add_root L a)) as (Some roots) = Some r"
  by (induction L as roots rule: add_roots.induct) (auto split: option.splits)

section \<open>The listener authenticates its clients\<close>

text \<open>
  A configuration is only built from a
  certificate file with at least one certificate, a private key, and a client authority file
  with at least one certificate, every one of which was accepted as a root; its verifier of
  client certificates is the one built from exactly these roots.
\<close>

lemma tls_requires_client_authorities:
  assumes "mtls_server_config_from_pem L certificate key ca = Inr cfg"
  shows "\<exists>chain k authorities roots verifier. pem_certs L certificate = Some chain \<and> chain \<noteq> [] \<and>
    pem_private_key L key = Some (Some k) \<and> pem_certs L ca = Some authorities \<and> authorities \<noteq> [] \<and>
    fold (\<lambda>a x. Option.bind x (add_root L a)) authorities (Some (empty_roots L)) = Some roots \<and>
    client_verifier L roots = Some verifier \<and> single_cert L verifier chain k = Some (sc_config cfg) \<and>
    alpn_protocols cfg = [''h2'', ''http/1.1'']"
  using assms
  by (auto simp: mtls_server_config_from_pem_def dest!: add_roots_Inr split: option.splits if_splits sum.splits)

end
