(* ===== verification/Edge_Main.thy ===== *)
theory Edge_Main
  imports Edge_Init Edge_Tls
begin

text \<open>
  runtime.rs and main.rs put together: \<open>run_until_shutdown\<close> from the start over the
  listeners to the final sync, and the commands of the program. What the two listeners do
  until the shutdown is a parameter, a function on the spool and the credential store that
  also returns how the tasks ended. Parsing the command line is third-party code: the model
  starts from the parsed command.
\<close>

section \<open>Serving\<close>

type_synonym service_state = "spool \<times> unit world"

type_synonym listeners = "ctx \<Rightarrow> string \<Rightarrow> service_state \<Rightarrow> join option \<times> join list option \<times> service_state"

definition run_until_shutdown ::
  "mtls \<Rightarrow> fs_view \<Rightarrow> crates \<Rightarrow> env \<Rightarrow> credential_store \<Rightarrow> edge_config \<Rightarrow> bool \<Rightarrow> int \<Rightarrow> bool \<Rightarrow> listeners \<Rightarrow>
     service_state \<Rightarrow> (runtime_error + unit) \<times> service_state" where
  "run_until_shutdown mtls_server_config V C E K c lock_held now_ms bound serve st =
     (case start mtls_server_config V C E K c lock_held now_ms st of
        (Inl e, st1) \<Rightarrow> (Inl e, st1)
      | (Inr (X, bearer), st1) \<Rightarrow>
          if \<not> bound then (Inl RtBind, st1)
          else (case serve X bearer st1 of (early_exit, remaining, s2, w2) \<Rightarrow>
            (case finish X early_exit remaining s2 of (r, s3) \<Rightarrow> (r, s3, w2))))"

section \<open>Commands\<close>

datatype command =
    StorageFormat
  | Init
  | Doctor
  | Serve
  | CredentialCmd credential_command
  | ReceiverTokenRotate

datatype main_error = MainConfig config_error | MainRuntime runtime_error | MainCommand command_error

datatype printed = Line string | PrintedCredential command_output | PrintedToken string | Nothing

text \<open>The parameters of a process: the libraries, its environment, its user and the files it opens.\<close>

record process =
  pr_toml :: "string \<Rightarrow> edge_config option"
  pr_crates :: crates
  pr_env :: env
  pr_user :: fs_user
  pr_tls :: mtls
  pr_store :: credential_store
  pr_now :: int
  pr_lock_held :: bool
  pr_bound :: bool
  pr_listeners :: listeners

type_synonym machine = "home \<times> spool"

definition store_of_home :: "home \<Rightarrow> unit world" where
  "store_of_home h = \<lparr>files = files h, tick = tick h\<rparr>"

definition put_store :: "unit world \<Rightarrow> home \<Rightarrow> home" where
  "put_store w h = h\<lparr>files := files w, tick := tick w\<rparr>"

text \<open>The inner branch for \<open>StorageFormat\<close> is never reached.\<close>

definition run :: "process \<Rightarrow> string \<Rightarrow> command \<Rightarrow> machine \<Rightarrow> (main_error + printed) \<times> machine" where
  "run P config_path command = (\<lambda>(h, s).
     if command = StorageFormat then (Inr (Line (dec_digits SPOOL_FORMAT_VERSION)), (h, s))
     else (case load_config (pr_toml P) (view h) config_path of
        Inl e \<Rightarrow> (Inl (MainConfig e), (h, s))
      | Inr c \<Rightarrow>
          (case command of
             StorageFormat \<Rightarrow> (Inr Nothing, (h, s))
           | Init \<Rightarrow>
               (case initialize (pr_crates P) (pr_env P) (pr_user P) (pr_store P) c h of
                  (Inl e, h') \<Rightarrow> (Inl (MainConfig e), (h', s))
                | (Inr _, h') \<Rightarrow> (Inr (Line ''initialized''), (h', s)))
           | Doctor \<Rightarrow>
               (case doctor (pr_tls P) (view h) (pr_store P) c (store_of_home h) of
                  (Inl e, w) \<Rightarrow> (Inl (MainRuntime e), (put_store w h, s))
                | (Inr _, w) \<Rightarrow> (Inr (Line ''ok''), (put_store w h, s)))
           | Serve \<Rightarrow>
               (case run_until_shutdown (pr_tls P) (view h) (pr_crates P) (pr_env P) (pr_store P) c (pr_lock_held P)
                     (pr_now P) (pr_bound P) (pr_listeners P) (s, store_of_home h) of
                  (Inl e, s', w) \<Rightarrow> (Inl (MainRuntime e), (put_store w h, s'))
                | (Inr _, s', w) \<Rightarrow> (Inr Nothing, (put_store w h, s')))
           | CredentialCmd cc \<Rightarrow>
               (case validate_runtime_files (view h) c of
                  Inl e \<Rightarrow> (Inl (MainConfig e), (h, s))
                | Inr _ \<Rightarrow>
                    (case manage_credential (pr_store P) (pr_now P) cc (store_of_home h) of
                       (Inl e, w) \<Rightarrow> (Inl (MainCommand e), (put_store w h, s))
                     | (Inr out, w) \<Rightarrow> (Inr (PrintedCredential out), (put_store w h, s))))
           | ReceiverTokenRotate \<Rightarrow>
               (case rotate_receiver_token (pr_crates P) (pr_env P) (pr_user P) c h of
                  (Inl e, h') \<Rightarrow> (Inl (MainConfig e), (h', s))
                | (Inr token, h') \<Rightarrow> (Inr (PrintedToken token), (h', s))))))"

end
