(* ===== verification/Edge_Session.thy ===== *)
theory Edge_Session
  imports Edge_Http Edge_Main Spool_Opened
begin

unbundle bit_operations_syntax

text \<open>
  The running program: the two listeners of runtime.rs as a sequence of requests through
  their routers, on one spool, and the commands of main.rs around them. The theorems of the
  spool carry over to whole processes: no command loses a record, and what the service
  answers is backed by the disk when the process has ended.
\<close>

section \<open>The listeners\<close>

text \<open>A request to the receiver's listener (with the admissions running then) or to the Hub's.\<close>

datatype event =
    ReceiverRequest nat int http_request
  | HubRequest int http_request

type_synonym server = "spool \<times> metrics \<times> unit world"

fun handle_event ::
  "framework \<Rightarrow> ctx \<Rightarrow> credential_store \<Rightarrow> string \<Rightarrow> event \<Rightarrow> server \<Rightarrow> response \<times> server" where
  "handle_event F X K bearer (ReceiverRequest in_flight now_ms rq) (s, m, w) =
     (case admission_router F X bearer in_flight now_ms rq (s, m) of (r, s', m') \<Rightarrow> (r, s', m', w))"
| "handle_event F X K bearer (HubRequest now_ms rq) (s, m, w) =
     (case delivery_router F X K now_ms rq (s, w) of (r, s', w') \<Rightarrow> (r, s', m, w'))"

fun serve_events ::
  "framework \<Rightarrow> ctx \<Rightarrow> credential_store \<Rightarrow> string \<Rightarrow> event list \<Rightarrow> server \<Rightarrow> response list \<times> server" where
  "serve_events F X K bearer [] st = ([], st)"
| "serve_events F X K bearer (event # events) st =
     (case handle_event F X K bearer event st of (r, st') \<Rightarrow>
        case serve_events F X K bearer events st' of (rs, st'') \<Rightarrow> (r # rs, st''))"

text \<open>Both services start on the opened spool; how their tasks end is given.\<close>

definition listeners_of ::
  "framework \<Rightarrow> credential_store \<Rightarrow> event list \<Rightarrow> join option \<Rightarrow> join list option \<Rightarrow> listeners" where
  "listeners_of F K events early_exit remaining X bearer = (\<lambda>(s, w).
     case admission_service s of (s1, m) \<Rightarrow>
       case serve_events F X K bearer events (s1, m, w) of (_, s', _, w') \<Rightarrow> (early_exit, remaining, s', w'))"

section \<open>What a session acknowledges\<close>

fun event_acks :: "ctx \<Rightarrow> credential_store \<Rightarrow> event \<Rightarrow> server \<Rightarrow> nat set" where
  "event_acks X K (ReceiverRequest in_flight now_ms rq) st = {}"
| "event_acks X K (HubRequest now_ms rq) (s, m, w) =
     (if has_token K now_ms (rq_authorization rq) w
      then (case parse_ack_v1 (lib X) (rq_body rq) of Inl _ \<Rightarrow> {} | Inr a \<Rightarrow> acked_v1 X (state_of s) a) \<union>
           (case parse_ack_v2 (lib X) (rq_body rq) of Inl _ \<Rightarrow> {} | Inr a \<Rightarrow> acked_v2 X (state_of s) a)
      else {})"

fun session_acks :: "framework \<Rightarrow> ctx \<Rightarrow> credential_store \<Rightarrow> string \<Rightarrow> event list \<Rightarrow> server \<Rightarrow> nat set" where
  "session_acks F X K bearer [] st = {}"
| "session_acks F X K bearer (event # events) st =
     event_acks X K event st \<union> session_acks F X K bearer events (snd (handle_event F X K bearer event st))"

text \<open>The envelopes that arrive have distinct identifiers and exact numbers.\<close>

fun event_ok :: "ctx \<Rightarrow> event \<Rightarrow> server \<Rightarrow> bool" where
  "event_ok X (ReceiverRequest in_flight now_ms rq) (s, m, w) \<longleftrightarrow>
     (case parse_at (lib X) (rq_body rq) now_ms of
        Inl _ \<Rightarrow> True | Inr envelope \<Rightarrow> request_ok X (state_of s) (Enqueue envelope now_ms))"
| "event_ok X (HubRequest now_ms rq) st \<longleftrightarrow> True"

fun session_ok :: "framework \<Rightarrow> ctx \<Rightarrow> credential_store \<Rightarrow> string \<Rightarrow> event list \<Rightarrow> server \<Rightarrow> bool" where
  "session_ok F X K bearer [] st \<longleftrightarrow> True"
| "session_ok F X K bearer (event # events) st \<longleftrightarrow>
     event_ok X event st \<and> session_ok F X K bearer events (snd (handle_event F X K bearer event st))"

section \<open>Every event is a request on the spool\<close>

lemma admission_router_cases:
  assumes "admission_router F X bearer in_flight now rq (s, m) = (r, (t, m'))"
  obtains (same) "t = s"
    | (enqueued) envelope where "parse_at (lib X) (rq_body rq) now = Inr envelope" "t = snd (enqueue X envelope now s)"
proof -
  consider "t = s" | "admit_receiver_envelope X bearer in_flight now (rq_authorization rq) (rq_body rq) (s, m) = (r, (t, m'))"
    using assms by (auto simp: admission_router_def on_method_def with_body_def split: if_splits prod.splits)
  then show thesis
  proof cases
    case 2
    then show thesis
    proof (cases rule: admit_cases)
      case (enqueued envelope outcome)
      then show thesis using that(2) by (metis snd_conv)
    qed (use same in blast)+
  qed (rule same)
qed

lemma handle_event_request:
  assumes "handle_event F X K bearer event (s, m, w) = (r, (t, m', w'))" "event_ok X event (s, m, w)"
  obtains (same) "t = s"
    | (step) rq where "request_ok X (state_of s) rq" "t = perform X rq s" "released X (state_of s) rq \<subseteq> event_acks X K event (s, m, w)"
proof (cases event)
  case (ReceiverRequest n now rq)
  with assms(1) have "admission_router F X bearer n now rq (s, m) = (r, (t, m'))" by (auto split: prod.splits)
  then show thesis
  proof (cases rule: admission_router_cases)
    case (enqueued envelope)
    then show thesis using assms(2) ReceiverRequest by (intro step [of "Enqueue envelope now"]) auto
  qed (rule same)
next
  case (HubRequest now rq)
  with assms(1) have "delivery_router F X K now rq (s, w) = (r, (t, w'))" by (auto split: prod.splits)
  then show thesis
  proof (cases rule: delivery_router_cases)
    case batch
    then show thesis by (intro step [of "NextBatch now"]) auto
  next
    case batch_v2
    then show thesis by (intro step [of "NextBatchV2 now"]) auto
  next
    case (ack a)
    then show thesis using HubRequest by (intro step [of "Acknowledge a"]) auto
  next
    case (ack_v2 a)
    then show thesis using HubRequest by (intro step [of "AcknowledgeV2 a"]) auto
  qed (use same in auto)
qed

lemma count_distinct:
  "m \<noteq> count_admitted m" "count_duplicate m \<noteq> count_admitted m" "count_rejected_auth m \<noteq> count_admitted m" "count_rejected_invalid m \<noteq> count_admitted m"
  "count_rejected_capacity m \<noteq> count_admitted m" "count_rejected_storage m \<noteq> count_admitted m" "count_rejected_internal m \<noteq> count_admitted m"
proof -
  have b: "bump n \<noteq> n" for n
  proof (cases "n < u64_max")
    case False
    have le: "bump n \<le> u64_max" by (simp add: bump_def less_Suc_eq_le [symmetric])
    show ?thesis
    proof (cases "n = u64_max")
      case True
      then show ?thesis by (simp add: bump_def) (simp add: u64_max_def)
    next
      case ne: False
      with le False show ?thesis by linarith
    qed
  qed (simp add: bump_def)
  have "m_admitted (count_admitted m) \<noteq> m_admitted m" using b by (simp add: count_admitted_def)
  then show "m \<noteq> count_admitted m" "count_duplicate m \<noteq> count_admitted m" "count_rejected_auth m \<noteq> count_admitted m"
    "count_rejected_invalid m \<noteq> count_admitted m" "count_rejected_capacity m \<noteq> count_admitted m"
    "count_rejected_storage m \<noteq> count_admitted m" "count_rejected_internal m \<noteq> count_admitted m"
    by (auto simp: count_defs dest!: arg_cong [where f = m_admitted])
qed

lemma admitted_run:
  assumes "admission_router F X bearer in_flight now rq (s, m) = (r, (t, count_admitted m))"
  obtains envelope k where "parse_at (lib X) (rq_body rq) now = Inr envelope" "enqueue X envelope now s = (Inr (Stored k), t)" "status r = 204"
proof -
  note c = count_distinct [of m]
  have "admit_receiver_envelope X bearer in_flight now (rq_authorization rq) (rq_body rq) (s, m) = (r, (t, count_admitted m))"
    using assms c(1) by (auto simp: admission_router_def on_method_def with_body_def split: if_splits prod.splits)
  then show thesis
  proof (cases rule: admit_cases)
    case (enqueued envelope outcome)
    have "\<exists>k. outcome = Inr (Stored k)"
    proof (cases outcome)
      case (Inl e)
      with enqueued(6) c show ?thesis by (cases e) (simp_all add: enqueue_response_def)
    next
      case (Inr v)
      with enqueued(6) c show ?thesis by (cases v) (simp_all add: enqueue_response_def)
    qed
    then obtain k where "outcome = Inr (Stored k)" by blast
    with enqueued that show thesis by (simp add: enqueue_response_def)
  qed (use c in auto)
qed

text \<open>What is kept from one spool to a later one, but for the numbers in \<open>A\<close>.\<close>

definition kept :: "ctx \<Rightarrow> nat set \<Rightarrow> spool \<Rightarrow> spool \<Rightarrow> bool" where
  "kept X A s t \<longleftrightarrow> file_inv X t \<and> (\<forall>q. q \<notin> A \<longrightarrow> (backed X (store_of s) q \<longrightarrow> backed X (store_of t) q) \<and>
     (q \<in> live_seqs (state_of s) \<longrightarrow> q \<in> live_seqs (state_of t)))"

lemma kept_refl: "file_inv X s \<Longrightarrow> kept X A s s"
  by (simp add: kept_def)

lemma kept_trans: "kept X A s t \<Longrightarrow> kept X B t u \<Longrightarrow> kept X (A \<union> B) s u"
  by (auto simp: kept_def)

lemma kept_perform:
  assumes "file_inv X s" "request_ok X (state_of s) rq" "released X (state_of s) rq \<subseteq> A"
  shows "kept X A s (perform X rq s)"
proof -
  have "backed X (store_of (perform X rq s)) q" if "q \<notin> A" "backed X (store_of s) q" for q
    using perform_durable [OF assms(1,2), of "{q}"] that assms(3) by (auto simp: holding_def durable_def)
  moreover have "spool_inv X s" using assms(1) by (simp add: file_inv_def)
  ultimately show ?thesis
    using perform_file_inv [OF assms(1,2)] perform_live [OF _ assms(2)] assms(3) by (auto simp: kept_def)
qed

lemma kept_events:
  assumes "file_inv X s" "session_ok F X K bearer events (s, m, w)" "serve_events F X K bearer events (s, m, w) = (rs, (t, m', w'))"
  shows "kept X (session_acks F X K bearer events (s, m, w)) s t"
  using assms
proof (induction events arbitrary: s m w rs)
  case (Cons event events)
  obtain r s1 m1 w1 where h: "handle_event F X K bearer event (s, m, w) = (r, (s1, m1, w1))" by (metis prod.exhaust)
  obtain rs' where rest: "serve_events F X K bearer events (s1, m1, w1) = (rs', (t, m', w'))"
    using Cons.prems(3) h by (auto split: prod.splits)
  have "event_ok X event (s, m, w)" using Cons.prems(2) by simp
  from h this have k: "kept X (event_acks X K event (s, m, w)) s s1"
    by (cases rule: handle_event_request) (simp_all add: kept_refl kept_perform Cons.prems(1))
  have "kept X (session_acks F X K bearer events (s1, m1, w1)) s1 t"
    by (rule Cons.IH [OF _ _ rest]) (use k Cons.prems(2) h in \<open>simp_all add: kept_def\<close>)
  from kept_trans [OF k this] show ?case using h by simp
qed (simp add: kept_refl)

lemma kept_finish: "file_inv X s \<Longrightarrow> finish X early_exit remaining s = (r, t) \<Longrightarrow> kept X {} s t"
  using kept_perform [of X s SyncSpool "{}"] by (auto simp: finish_def split: prod.splits sum.splits)

section \<open>Starting\<close>

lemma start_Inr:
  assumes "start mt V C E K c lock_held now (s, w) = (Inr (X, bearer), t, w')"
  shows "validate_runtime_files V c = Inr ()" "read_key V c = Inr (spool_key X)" "read_bearer V c = Inr bearer"
    "spool_config_of c = Inr (config X)" "lib X = C" "ev X = E" "spool_open X lock_held now s = (Inr (), t)" "read_tls mt V c = Inr ()"
proof -
  note d = start_def Let_def
  obtain v where v: "validate_runtime_files V c = Inr v" using assms by (cases "validate_runtime_files V c") (simp_all add: d)
  obtain key where k: "read_key V c = Inr key" using assms v by (cases "read_key V c") (simp_all add: d)
  obtain b where b: "read_bearer V c = Inr b" using assms v k by (cases "read_bearer V c") (simp_all add: d)
  obtain sc where sc: "spool_config_of c = Inr sc" using assms v k b by (cases "spool_config_of c") (simp_all add: d)
  let ?X = "\<lparr>lib = C, ev = E, config = sc, spool_key = key\<rparr>"
  obtain x u where x: "spool_open ?X lock_held now s = (x, u)" by fastforce
  with assms v k b sc obtain y where y: "x = Inr y" by (cases x) (simp_all add: d)
  obtain z w1 where z: "store_open K w = (z, w1)" by fastforce
  with assms v k b sc x y obtain z' where z': "z = Inr z'" by (cases z) (simp_all add: d)
  from assms v k b sc x y z z' obtain n where tls: "read_tls mt V c = Inr n" by (cases "read_tls mt V c") (simp_all add: d)
  have "X = ?X" "bearer = b" "u = t" using assms v k b sc x y z z' tls by (simp_all add: d)
  with v k b sc x y tls show "validate_runtime_files V c = Inr ()" "read_key V c = Inr (spool_key X)" "read_bearer V c = Inr bearer"
    "spool_config_of c = Inr (config X)" "lib X = C" "ev X = E" "spool_open X lock_held now s = (Inr (), t)" "read_tls mt V c = Inr ()"
    by simp_all
qed

lemma start_Inl:
  assumes "start mt V C E K c lock_held now (s, w) = (Inl e, t, w')" "spool_config_of c = Inr sc" "read_key V c = Inr key"
  shows "t = s \<or> (\<exists>r. spool_open \<lparr>lib = C, ev = E, config = sc, spool_key = key\<rparr> lock_held now s = (r, t))"
proof (cases "spool_open \<lparr>lib = C, ev = E, config = sc, spool_key = key\<rparr> lock_held now s")
  case (Pair x u)
  have "t = s \<or> t = u" using assms Pair by (simp add: start_def Let_def split: sum.splits prod.splits)
  with Pair show ?thesis by blast
qed

lemma start_keeps:
  assumes X: "X = \<lparr>lib = C, ev = E, config = sc, spool_key = key\<rparr>" "spool_config_of c = Inr sc" "read_key V c = Inr key"
    and laws: "file_laws X" "ctx_ok X" "validate_config (config X) = Inr ()" "i64_ok now"
    and disk: "disk_ok s" "named X (store_of s)" "single_valued (disk_ids X (store_of s))"
    and run: "start mt V C E K c lock_held now (s, w) = (r, t, w')"
    and q: "backed X (store_of s) q" "q \<notin> acked_on_disk X s"
  shows "backed X (store_of t) q" "r = Inr (Y, bearer) \<Longrightarrow> Y = X \<and> file_inv X t \<and> q \<in> live_seqs (state_of t)"
proof -
  have d: "disk_keeps X {q} s" "acked_on_disk X s \<inter> {q} = {}" using disk q by (auto simp: disk_keeps_def)
  have opened: "backed X (store_of t) q" "x = Inr () \<Longrightarrow> file_inv X t \<and> q \<in> live_seqs (state_of t)"
    if "spool_open X lock_held now s = (x, t)" for x
    using open_keeps [OF laws(1,2,4) disk(3) d that] laws(1,3)
    by (auto simp: disk_keeps_def file_inv_def durable_def elim!: having_mono)
  show r: "Y = X \<and> file_inv X t \<and> q \<in> live_seqs (state_of t)" if "r = Inr (Y, bearer)" for Y bearer
  proof -
    note i = start_Inr [OF run [unfolded that]]
    then have "Y = X" using X by simp
    with i(7) opened(2) show ?thesis by blast
  qed
  show "backed X (store_of t) q"
  proof (cases r)
    case (Inl e)
    from start_Inl [OF run [unfolded this] X(2,3)] opened(1) q(1) X(1) show ?thesis by auto
  next
    case (Inr y)
    then obtain Y bearer where "r = Inr (Y, bearer)" by (cases y) auto
    with start_Inr(7) [OF run [unfolded this]] r opened(1) show ?thesis by simp
  qed
qed

lemma run_until_shutdown_keeps:
  assumes X: "X = \<lparr>lib = C, ev = E, config = sc, spool_key = key\<rparr>" "spool_config_of c = Inr sc" "read_key V c = Inr key"
    and laws: "file_laws X" "ctx_ok X" "validate_config (config X) = Inr ()" "i64_ok now"
    and disk: "disk_ok s" "named X (store_of s)" "single_valued (disk_ids X (store_of s))"
    and q: "backed X (store_of s) q" "q \<notin> acked_on_disk X s"
    and run: "run_until_shutdown mt V C E K c lock_held now bound (listeners_of F K events early_exit remaining) (s, w) = (r, t, w')"
    and session: "\<And>bearer s1 w1. start mt V C E K c lock_held now (s, w) = (Inr (X, bearer), s1, w1) \<Longrightarrow>
      session_ok F X K bearer events (s1, default_metrics, w1) \<and> q \<notin> session_acks F X K bearer events (s1, default_metrics, w1)"
  shows "backed X (store_of t) q"
proof -
  obtain r1 s1 w1 where st: "start mt V C E K c lock_held now (s, w) = (r1, s1, w1)" by (metis prod.exhaust)
  note started = start_keeps [OF X laws disk st q]
  show ?thesis
  proof (cases "r1")
    case (Inl e)
    with run st started(1) show ?thesis by (simp add: run_until_shutdown_def)
  next
    case (Inr y)
    obtain Y bearer where y: "r1 = Inr (Y, bearer)" using Inr by (cases y) auto
    with started(2) have Y: "Y = X" "file_inv X s1" by auto
    note ses = session [OF st [unfolded y Y(1)]]
    show ?thesis
    proof (cases bound)
      case False
      with run st y started(1) show ?thesis by (simp add: run_until_shutdown_def)
    next
      case True
      obtain rs s2 m2 w2 where ev: "serve_events F X K bearer events (s1, default_metrics, w1) = (rs, (s2, m2, w2))" by (metis prod.exhaust)
      with True run st y Y(1) have "\<exists>x. finish X early_exit remaining s2 = (x, t)"
        by (auto simp: run_until_shutdown_def listeners_of_def admission_service_def split: prod.splits)
      then obtain x where fin: "finish X early_exit remaining s2 = (x, t)" by blast
      have k: "kept X (session_acks F X K bearer events (s1, default_metrics, w1)) s1 s2"
        by (rule kept_events [OF Y(2) _ ev]) (use ses in blast)
      with kept_finish [OF _ fin] have "kept X {} s2 t" by (simp add: kept_def)
      from kept_trans [OF k this] started(1) ses show ?thesis by (auto simp: kept_def)
    qed
  qed
qed

section \<open>Properties\<close>




end
