(* ===== verification/Service_Witnesses.thy ===== *)
theory Service_Witnesses
  imports Queue_Witnesses Edge_Session
begin

text \<open>
  The theorems about the two HTTP services, about initialization and about whole processes
  applied on concrete requests, on a small file tree and on a process that serves.
\<close>

section \<open>Requests\<close>

definition toy_framework :: framework where
  "toy_framework = \<lparr>not_found = \<lparr>status = 404, resp_body = NoBody\<rparr>, method_not_allowed = \<lparr>status = 405, resp_body = NoBody\<rparr>,
     body_too_large = \<lparr>status = 413, resp_body = NoBody\<rparr>, head_answer = \<lambda>r. r\<lparr>resp_body := NoBody\<rparr>\<rparr>"

lemma toy_framework_laws: "framework_laws toy_framework"
  by (simp add: framework_laws_def toy_framework_def)

definition bearer_request :: "http_method \<Rightarrow> string \<Rightarrow> string \<Rightarrow> bytes \<Rightarrow> http_request" where
  "bearer_request m p token b = \<lparr>rq_method = m, rq_path = p, rq_authorization = Some (''Bearer '' @ token), rq_body = b\<rparr>"

lemma bearer_of:
  assumes "list_all is_visible_ascii token" "token \<noteq> []"
  shows "bearer_from_headers (Some (''Bearer '' @ token)) = Some token"
proof -
  have "list_all (\<lambda>c. 32 \<le> byte_val c \<and> byte_val c < 127 \<or> byte_val c = 9) token"
    using assms(1) by (auto simp: list_all_iff is_visible_ascii_def)
  then have "header_text (''Bearer '' @ token) = Some (''Bearer '' @ token)" by (simp add: header_text_def byte_val_def)
  moreover have "strip_prefix ''Bearer '' (''Bearer '' @ token) = Some token" by (simp add: strip_prefix_Some)
  ultimately show ?thesis using assms(2) by (simp add: bearer_from_headers_def)
qed

lemma lower_hex_visible: "is_lower_hex c \<Longrightarrow> is_visible_ascii c"
  by (auto simp: is_lower_hex_def is_ascii_digit_def is_visible_ascii_def)

lemma toy_hex_visible: "list_all is_visible_ascii (toy_hex b)"
  using toy_hex_lower lower_hex_visible by (auto simp: list_all_iff)

lemma toy_b64_laws: "b64_laws toy_crates"
  by (simp add: b64_laws_def toy_crates_def toy_hex_length toy_hex_visible)

lemma toy_token_bearer: "bearer_from_headers (Some (''Bearer '' @ toy_token)) = Some toy_token"
  by (rule bearer_of) (simp_all add: toy_token_def toy_crates_def toy_hex_visible is_visible_ascii_def byte_val_def)

lemma toy_verify: "\<exists>w. verify toy_store toy_token 1700000001000 one_store = (Inr True, w)"
proof -
  have "load toy_store one_store = (Inr toy_file, one_store\<lparr>tick := Suc (tick one_store)\<rparr>)"
    by (rule toy_load [OF toy_file_typed(1,2) _ toy_file_small]) (simp add: look_one_store)
  moreover have "token_valid toy_crates toy_file (toy_id, toy_secret) 1700000001000"
    by (simp add: token_valid_def toy_file_def toy_credential_def active_at_def)
  ultimately show ?thesis by (simp add: verify_def toy_token_parses run_simps)
qed

definition ack_request :: http_request where
  "ack_request = bearer_request Post ''/v2/hub/acks'' toy_token
     (toy_json (ack_json (a2_batch_id full_ack) (stable_record_id toy_crates toy_envelope1)))"

lemma full_ack_parses: "parse_ack_v2 toy_crates (rq_body ack_request) = Inr full_ack"
  "length (rq_body ack_request) \<le> MAX_HUB_ACK_BODY_BYTES"
proof -
  have b: "valid_lower_hex_digest (a2_batch_id full_ack)"
    using full_ack_facts(1) by (simp add: full_ack_def valid_digest_def valid_lower_hex_digest_def)
  have r: "valid_lower_hex_digest (stable_record_id toy_crates toy_envelope1)"
    using hex_valid_digest [OF toy_digest_laws] by (simp add: stable_record_id_def valid_digest_def valid_lower_hex_digest_def)
  show "parse_ack_v2 toy_crates (rq_body ack_request) = Inr full_ack" "length (rq_body ack_request) \<le> MAX_HUB_ACK_BODY_BYTES"
    using ack_json_parses [OF b r] by (simp_all add: ack_request_def bearer_request_def full_ack_def)
qed

lemma ack_request_runs: "\<exists>r w. delivery_router toy_framework toy_ctx toy_store 1700000001000 ack_request (one_spool, one_store) = (r, acked_spool, w)"
proof -
  obtain w where w: "verify toy_store toy_token 1700000001000 one_store = (Inr True, w)" using toy_verify by blast
  have "delivery_router toy_framework toy_ctx toy_store 1700000001000 ack_request (one_spool, one_store) =
      hub_acknowledge_v2 toy_ctx toy_store 1700000001000 (Some (''Bearer '' @ toy_token)) (rq_body ack_request) (one_spool, one_store)"
    using full_ack_parses(2) by (simp add: delivery_router_def on_method_def with_body_def ack_request_def bearer_request_def)
  then show ?thesis
    using full_ack_parses(1) toy_token_bearer w acked_spool_run
    by (simp add: hub_acknowledge_v2_def authorized_def authorize_def)
qed

section \<open>The services\<close>

theorem hub_releases_only_acknowledged_witness:
  "1 \<in> live_seqs (state_of one_spool) \<and> 1 \<notin> live_seqs (state_of acked_spool) \<and>
   fst (verify toy_store toy_token 1700000001000 one_store) = Inr True"
proof -
  obtain r w where run: "delivery_router toy_framework toy_ctx toy_store 1700000001000 ack_request (one_spool, one_store) = (r, acked_spool, w)"
    using ack_request_runs by blast
  have out: "1 \<notin> live_seqs (state_of acked_spool)"
    using acknowledge_v2_pops [OF one_spool_inv acked_spool_run full_ack_new] one_spool_facts by (simp add: full_ack_def)
  have "rq_authorization ack_request = Some (''Bearer '' @ toy_token)" by (simp add: ack_request_def bearer_request_def)
  with hub_releases_only_acknowledged [OF one_spool_inv run _ out] out one_spool_facts toy_token_bearer
  show ?thesis by auto
qed

definition anonymous_request :: http_request where
  "anonymous_request = \<lparr>rq_method = Post, rq_path = ''/v2/hub/acks'', rq_authorization = None, rq_body = rq_body ack_request\<rparr>"

theorem hub_refusal_releases_nothing_witness:
  "\<exists>r t w. delivery_router toy_framework toy_ctx toy_store 1700000001000 anonymous_request (one_spool, one_store) = (r, t, w) \<and>
    status r = 401 \<and> waiting (ledger_of t) = [1]"
proof -
  have run: "delivery_router toy_framework toy_ctx toy_store 1700000001000 anonymous_request (one_spool, one_store) =
      (error_response 401 ''hub_authentication_failed'', one_spool, one_store)"
    using full_ack_parses(2)
    by (simp add: delivery_router_def on_method_def with_body_def anonymous_request_def hub_acknowledge_v2_def authorized_def authorize_def
        bearer_from_headers_def)
  have "ledger_of one_spool = ledger_of one_spool"
    by (rule hub_refusal_releases_nothing [OF toy_framework_laws one_spool_inv run]) (simp add: error_response_def)
  with run show ?thesis using one_spool_facts by (simp add: error_response_def ledger_of_def)
qed

theorem revoked_credential_shut_out_witness:
  "\<exists>w r t w'. revoke toy_store (uuid_text toy_crates toy_id) 1700000001000 one_store = (Inr (), w) \<and>
    delivery_router toy_framework toy_ctx toy_store 1700000002000 ack_request (one_spool, w) = (r, t, w') \<and>
    t = one_spool \<and> status r \<in> {401, 404, 405, 413, 503}"
proof -
  obtain w where w: "revoke toy_store (uuid_text toy_crates toy_id) 1700000001000 one_store = (Inr (), w)"
    using toy_revoke_runs by blast
  obtain r t w' where run: "delivery_router toy_framework toy_ctx toy_store 1700000002000 ack_request (one_spool, w) = (r, t, w')"
    by (metis prod.exhaust)
  have "time_typed 1700000001000" by (simp add: time_typed_def i64_min_def i64_max_def)
  moreover have "bearer_from_headers (rq_authorization ack_request) = Some toy_token"
    using toy_token_bearer by (simp add: ack_request_def bearer_request_def)
  ultimately have "t = one_spool \<and> status r \<in> {401, 404, 405, 413, 503}"
    using revoked_credential_shut_out [of toy_store one_store 1700000001000 toy_framework _ w toy_id ack_request toy_token toy_secret
        1700000002000, OF _ _ one_store_ok _ toy_framework_laws w _ _ _ _ run]
      toy_json_laws toy_token_laws toy_id_text toy_token_parses by simp
  with w run show ?thesis by blast
qed

definition admit_request :: http_request where
  "admit_request = bearer_request Post ''/v1/internal/fleet-telemetry'' toy_digest (toy_json (enc_envelope toy_envelope1))"

lemma admit_request_parses: "parse_at toy_crates (rq_body admit_request) toy_now = Inr toy_envelope1"
  using printed_envelope_parses [OF toy_json_laws toy_envelope_ok(1) toy_envelope_prints(3) toy_envelope_ok(2) toy_envelope_prints(1,2)]
  by (simp add: parse_at_def admit_request_def bearer_request_def toy_envelope1_def)
    (simp add: toy_envelope_def toy_now_def MAX_RECEIVER_CLOCK_LEAD_MS_def sat_add_i64_def i64_min_def i64_max_def)

lemma admit_request_bearer: "bearer_from_headers (rq_authorization admit_request) = Some toy_digest"
  unfolding admit_request_def bearer_request_def http_request.simps
  by (rule bearer_of) (simp_all add: toy_digest_def is_visible_ascii_def byte_val_def list_all_iff)

lemma admit_request_runs: "admission_router toy_framework toy_ctx toy_digest 0 toy_now admit_request (admission_service empty_spool) =
    (\<lparr>status = 204, resp_body = NoBody\<rparr>, one_spool, count_admitted default_metrics)"
proof -
  have "admission_router toy_framework toy_ctx toy_digest 0 toy_now admit_request (admission_service empty_spool) =
      admit_receiver_envelope toy_ctx toy_digest 0 toy_now (rq_authorization admit_request) (rq_body admit_request) (empty_spool, default_metrics)"
    using toy_envelope_prints(2)
    by (simp add: admission_router_def on_method_def with_body_def admission_service_def)
      (simp add: admit_request_def bearer_request_def toy_envelope1_def)
  then show ?thesis
    using admit_request_parses admit_request_bearer one_spool_run
    by (simp add: admit_receiver_envelope_def bearer_matches_def MAX_CONCURRENT_ADMISSIONS_def enqueue_response_def)
qed

theorem accepted_record_in_custody_witness:
  "admission_router toy_framework toy_ctx toy_digest 0 toy_now admit_request (admission_service empty_spool) =
     (\<lparr>status = 204, resp_body = NoBody\<rparr>, one_spool, count_admitted default_metrics) \<and>
   (\<exists>envelope k e. parse_at toy_crates (rq_body admit_request) toy_now = Inr envelope \<and>
      bt_get (entries (state_of one_spool)) k = Some e \<and> e_spool_seq e \<in> live_seqs (state_of one_spool))"
proof -
  note run = admit_request_runs
  have distinct: "enqueue_distinct toy_ctx (state_of empty_spool) envelope"
    if "parse_at (lib toy_ctx) (rq_body admit_request) toy_now = Inr envelope" for envelope
    using that admit_request_parses empty_distinct by simp
  from accepted_record_in_custody [OF toy_framework_laws empty_spool_init(2) run [unfolded admission_service_def] _ distinct] run
  show ?thesis by auto
qed


section \<open>Initialization\<close>

definition toy_user :: fs_user where
  "toy_user = \<lparr>fu_uid = 1000, fu_umask = 18\<rparr>"

definition bare_dir :: "component list \<Rightarrow> metadata lookup" where
  "bare_dir p = (if p \<in> {[RootDir], [RootDir, Normal ''s''], [RootDir, Normal ''p'']}
     then Found \<lparr>md_kind = Directory, md_uid = 1000, md_mode = 448, md_len = 0\<rparr> else Absent)"

definition bare_home :: home where
  "bare_home = \<lparr>files = \<lambda>_. [], tick = 0,
     view = \<lparr>symlink_metadata = bare_dir, follow_metadata = bare_dir, file_bytes = \<lambda>_. None\<rparr>\<rparr>"

lemma bare_view_ok: "view_ok (view bare_home)"
  by (simp add: view_ok_def bare_home_def)

lemma toy_store_new: "\<exists>s. store_open toy_store \<lparr>files = \<lambda>_. [], tick = n\<rparr> = (Inr (), s)"
proof -
  have ok: "disk_ok \<lparr>files = \<lambda>_. [], tick = m\<rparr>" and none: "look \<lparr>files = \<lambda>_. [], tick = m\<rparr> p = None" for m and p :: "unit path"
    by (simp_all add: disk_ok_def look_def bt_get_def)
  obtain t where t: "lock_mutations toy_store \<lparr>files = \<lambda>_. [], tick = Suc n\<rparr> = (Inr (), t)" "disk_ok t"
    "look t = (look \<lparr>files = \<lambda>_. [], tick = Suc n\<rparr>)(((), ''.c.lock'') \<mapsto> Regular [])"
    using toy_lock [OF ok none] by blast
  let ?f = "\<lparr>cf_version = STORE_VERSION, cf_credentials = []\<rparr>"
  have tmp: "look t ((), ''.c.'' @ x @ ''.tmp'') = None" for x
    using arg_cong [of "''.c.'' @ x @ ''.tmp''" "''.c.lock''" rev] by (auto simp: t(3) none)
  have c: "look t ((), ''c'') = None" by (simp add: t(3) none)
  have "json_to_vec_pretty toy_crates (enc_credential_file toy_crates ?f) = Some (toy_json (enc_credential_file toy_crates ?f))"
    by (rule toy_print) (simp_all add: file_typed_def)
  then have "\<exists>u. save toy_store ?f (t\<lparr>tick := Suc (tick t)\<rparr>) = (Inr (), u)"
    using tmp c t(2) by (simp add: save_def run_simps store_path_def toy_store_def Let_def cong: run_bind_cong run_match_cong)
  then show ?thesis
    using t(1) c by (simp add: store_open_def run_simps store_path_def toy_store_def cong: run_bind_cong run_match_cong)
qed

definition new_store :: "nat \<Rightarrow> unit world" where
  "new_store n = snd (store_open toy_store \<lparr>files = \<lambda>_. [], tick = n\<rparr>)"

lemma new_store_run: "store_open toy_store \<lparr>files = \<lambda>_. [], tick = n\<rparr> = (Inr (), new_store n)"
  using toy_store_new [of n] by (auto simp: new_store_def)

lemmas home_simps = create_node_def write_new_private_def upd_view_def write_view_def sync_dir_def new_secret_def with_store_def
  exists_at_def kind_at_def parent_is_dir_def parent_of_def set_node_def set_bytes_def set_len_def

lemma toy_shape: "validate_shape toy_edge_config = Inr ()"
  using toy_from_toml by (simp add: from_toml_def split: if_splits sum.splits)

lemma toy_initialize_runs: "\<exists>t. initialize toy_crates calm_env toy_user toy_store toy_edge_config bare_home = (Inr (), t)"
proof -
  have paths: "secret_paths toy_edge_config = [''/p/b'', ''/p/k'', ''/p/c'']" "state_directory toy_edge_config = ''/s''"
    "receiver_bearer_path toy_edge_config = ''/p/b''" "spool_key_path toy_edge_config = ''/p/k''"
    by (simp_all add: secret_paths_def toy_edge_config_def)
  show ?thesis
    unfolding initialize_def toy_shape paths
    by (simp add: run_simps toy_components path_contains_symlink_def create_private_directory_def bare_home_def bare_dir_def home_simps new_store_run
        cong: run_bind_cong run_match_cong)
qed

definition ready_home :: home where
  "ready_home = snd (initialize toy_crates calm_env toy_user toy_store toy_edge_config bare_home)"

lemma ready_home_run: "initialize toy_crates calm_env toy_user toy_store toy_edge_config bare_home = (Inr (), ready_home)"
  using toy_initialize_runs by (auto simp: ready_home_def)

theorem initialize_keeps_existing_witness:
  "symlink_metadata (view ready_home) [RootDir, Normal ''p''] =
     Found \<lparr>md_kind = Directory, md_uid = 1000, md_mode = 448, md_len = 0\<rparr>"
  using initialize_keeps_existing [OF bare_view_ok ready_home_run, of "[RootDir, Normal ''p'']"]
  by (simp add: bare_home_def bare_dir_def)

theorem initialize_then_readable_witness:
  "validate_regular_file (view ready_home) True ''/p/b'' = Inr () \<and> validate_regular_file (view ready_home) True ''/p/k'' = Inr () \<and>
   (\<exists>key. read_key (view ready_home) toy_edge_config = Inr key \<and> length key = 32)"
  using initialize_then_readable [OF calm_env_laws toy_b64_laws bare_view_ok ready_home_run] by (simp add: toy_edge_config_def)

definition rotated_home :: home where
  "rotated_home = snd (rotate_receiver_token toy_crates calm_env toy_user toy_edge_config ready_home)"

lemma ready_view_ok: "view_ok (view ready_home)"
  using keepsD [OF initialize_grows grows_refl [OF bare_view_ok], of toy_crates calm_env toy_user toy_store toy_edge_config]
  by (simp add: grows_def ready_home_def)

theorem rotate_receiver_token_atomic_witness:
  "case fst (rotate_receiver_token toy_crates calm_env toy_user toy_edge_config ready_home) of
     Inr token \<Rightarrow> read_bearer (view rotated_home) toy_edge_config = Inr token
   | Inl _ \<Rightarrow> read_bearer (view rotated_home) toy_edge_config = read_bearer (view ready_home) toy_edge_config \<or>
       (\<exists>n. read_bearer (view rotated_home) toy_edge_config = Inr (b64_encode toy_crates (fresh_secret calm_env n)))"
  using rotate_receiver_token_atomic [OF calm_env_laws toy_b64_laws ready_view_ok prod.collapse [symmetric], of toy_user toy_edge_config]
  unfolding rotated_home_def by (auto split: sum.splits)

section \<open>A process\<close>

definition toy_tls :: "(unit, unit, unit, unit, unit) tls_lib" where
  "toy_tls = \<lparr>pem_certs = \<lambda>_. Some [()], pem_private_key = \<lambda>_. Some (Some ()), empty_roots = (), add_root = \<lambda>_ _. Some (),
     client_verifier = \<lambda>_. Some (), safe_versions = True, single_cert = \<lambda>_ _ _. Some ()\<rparr>"

definition live_view :: fs_view where
  "live_view = toy_view\<lparr>file_bytes := \<lambda>_. Some (replicate 32 (CHR ''k''))\<rparr>"

lemma live_secrets: "read_key live_view toy_edge_config = Inr (replicate 32 (CHR ''k''))"
  "read_bearer live_view toy_edge_config = Inr (replicate 32 (CHR ''k''))"
  by (simp_all add: read_key_def read_bearer_def read_bounded_def live_view_def MAX_SECRET_BYTES_def receiver_bearer_def
      is_visible_ascii_def byte_val_def list_all_iff visible_utf8)

lemma live_files: "validate_runtime_files live_view toy_edge_config = Inr ()"
  by (simp add: validate_runtime_files_def validate_regular_file_def path_contains_symlink_def toy_edge_config_def
      toy_components toy_view_def live_view_def Let_def)

lemma live_tls: "read_tls (mtls_of toy_tls) live_view toy_edge_config = Inr ()"
  by (simp add: read_tls_def read_bounded_def live_view_def MAX_SECRET_BYTES_def mtls_of_def mtls_server_config_from_pem_def toy_tls_def)

lemma toy_spool_config: "spool_config_of toy_edge_config = Inr toy_config"
  by (simp add: spool_config_of_def toy_edge_config_def toy_config_def checked_mul_u64_def i64_try_from_u64_def u64_max_def i64_max_def)

lemma toy_start_runs: "\<exists>t w. start (mtls_of toy_tls) live_view toy_crates calm_env toy_store toy_edge_config False toy_now
    (empty_spool, empty_store) = (Inr (toy_ctx, replicate 32 (CHR ''k'')), t, w)"
proof -
  obtain t where "spool_open toy_ctx False toy_now empty_spool = (Inr (), t)" using toy_open_runs by blast
  moreover have "store_open toy_store empty_store = (Inr (), new_store 0)" using new_store_run by (simp add: empty_store_def)
  ultimately show ?thesis
    by (simp add: start_def live_files live_secrets live_tls toy_spool_config Let_def toy_ctx_def)
qed


definition toy_home :: home where
  "toy_home = \<lparr>files = \<lambda>_. [], tick = 0, view = live_view\<rparr>"

definition toy_process :: process where
  "toy_process = \<lparr>pr_toml = \<lambda>_. Some toy_edge_config, pr_crates = toy_crates, pr_env = calm_env, pr_user = toy_user,
     pr_tls = mtls_of toy_tls, pr_store = toy_store, pr_now = toy_now, pr_lock_held = False, pr_bound = True,
     pr_listeners = listeners_of toy_framework toy_store [HubRequest toy_now anonymous_request] None (Some [])\<rparr>"

lemma toy_loads: "load_config (pr_toml toy_process) (view toy_home) ''/p/a'' = Inr toy_edge_config"
  by (simp add: load_config_def is_absolute_def path_contains_symlink_def toy_components toy_process_def toy_home_def live_view_def
      toy_view_def Let_def from_toml_def MAX_CONFIG_BYTES_def toy_shape visible_utf8 list_all_iff is_visible_ascii_def byte_val_def)



end
