(* ===== verification/Spec2Isabelle.thy ===== *)
theory Spec2Isabelle
  imports Service_Witnesses
begin

text \<open>
  Teslatlas Edge: a verification of its Rust sources (src/src).

  The program. A receiver on the same host posts decoded vehicle telemetry to the
  admission service (admission.rs), which parses and validates the envelope (protocol.rs)
  and admits it to the spool (spool.rs), an encrypted (crypto.rs), bounded store of one
  file per record. A home Hub with a bearer credential (credentials.rs) over mutual TLS
  pulls batches and acknowledges them (delivery.rs). Records that expire or are damaged are
  replaced by gap notices, so that the Hub learns of every sequence number. health.rs and
  metrics.rs report the state; config.rs checks the configuration and the files it names;
  runtime.rs and main.rs put the parts together.

  The theories, bottom up.

  \<^item> \<open>Edge_Prelude\<close>: integers of the sources (saturating and checked
    operations, bounds of u64 and i64), decimal digits, ASCII classes, splitting of names.
  \<^item> \<open>Edge_Maps\<close>: the ordered maps of the sources, the interface of a map as a
    locale and its interpretation on sorted association lists.
  \<^item> \<open>Edge_Proc\<close>: procedures with state and errors, the rules for Hoare triples
    over them, loops with fuel and the locale of a loop with a decreasing measure, and the
    locale of a step relation with an invariant.
  \<^item> \<open>Edge_Json\<close>: serde_json values, the duplicate-rejecting visitor of
    protocol.rs, structural encoders and decoders.
  \<^item> \<open>Edge_Crates\<close>: third-party functions as a record of parameters (SHA-256,
    the cipher, JSON text, base64, hex, UUID) with what is documented of them as named laws.
  \<^item> \<open>Edge_Crypto\<close>: crypto.rs. \<open>Edge_Protocol\<close>: protocol.rs.
  \<^item> \<open>Edge_Disk\<close>: directories, calls that may fail at any point, and the file
    helpers of spool.rs (\<open>write_atomic\<close>, \<open>quarantine_file\<close>). A failed call
    may leave part of a write; an environment in which every call fails from some point on
    is a crash at that point, so every theorem, being for all environments, covers crashes.
  \<^item> \<open>Spool_Data\<close>, \<open>Spool_Ops\<close>, \<open>Spool_Batch\<close>,
    \<open>Spool_Recovery\<close>: spool.rs, its data, its operations, its batches and
    acknowledgements, and \<open>Spool::open\<close>. The record \<open>spool\<close> is the handle
    (disk, in-memory state, latch of failed writes); \<open>ctx\<close> holds the configuration,
    the key and the parameters.
  \<^item> \<open>Spool_Inv\<close>, \<open>Spool_Custody\<close>, \<open>Spool_Safety\<close>,
    \<open>Spool_Reopen\<close>, \<open>Spool_System\<close>: the invariant of the state, the custody
    relation (which sequence numbers may leave it and by which operation), what opening
    establishes from an arbitrary disk, and the step relation of a spool in use.
    \<open>Spool_Typed\<close>: every integer of a reachable state fits its type.
  \<^item> \<open>Spool_Files\<close>, \<open>Spool_Durable\<close>, \<open>Spool_Requests\<close>: what
    a file of the spool holds (it decrypts and decodes to a valid record or gap notice under
    its own name), that every operation keeps a number that is backed by such a file backed
    until it is acknowledged, and the same over any sequence of requests.
  \<^item> \<open>Spool_Recovered\<close>, \<open>Spool_Opened\<close>: the same for
    \<open>Spool::open\<close>, whose scan finds every record and notice on the disk, and for a
    whole life of a spool with requests, failed attempts to open and reopenings.
  \<^item> \<open>Spool_Delivery\<close>, \<open>Spool_Progress\<close>: what a version 2 batch holds
    (the lowest numbers in custody, each with its record or a gap notice), and what an
    acknowledgement that is applied removes.
  \<^item> \<open>Spool_Errors\<close>: the errors each request can return, and that a refused
    acknowledgement releases nothing.
  \<^item> \<open>Spool_Ledger\<close>: the abstract specification of the spool as a queue (a ledger of
    sequence numbers with \<open>issue\<close> and \<open>release\<close>), the locale \<open>refines\<close>
    of a simulation with its lemma on histories, and its interpretation on the requests.
  \<^item> \<open>Credentials\<close>: credentials.rs. \<open>Edge_Config\<close>, \<open>Edge_Init\<close>:
    config.rs, the checks on a view of the file tree, and the functions that write to it
    (\<open>initialize\<close>, \<open>rotate_receiver_token\<close>). \<open>Edge_Tls\<close>: tls.rs over the
    functions of rustls as parameters.
  \<^item> \<open>Services\<close>: the handlers of admission.rs and delivery.rs, health.rs and
    metrics.rs. \<open>Edge_Http\<close>: their routes with the body limits and the answers of the
    web framework (a parameter), and what any request can and cannot do.
  \<^item> \<open>Edge_Runtime\<close>, \<open>Edge_Main\<close>: runtime.rs and main.rs, the checks and the
    order of opening, the results of the listener tasks, and the commands.
  \<^item> \<open>Edge_Session\<close>: the running program, the two listeners as any sequence of requests
    through their routers inside \<open>run_until_shutdown\<close>; the theorems of the spool carried
    over to whole processes.
  \<^item> \<open>Edge_Instance\<close>, \<open>Edge_Witnesses\<close>, \<open>Spool_Witnesses\<close>,
    \<open>Life_Witnesses\<close>, \<open>Queue_Witnesses\<close>, \<open>Service_Witnesses\<close>: a concrete instance of the parameters that
    satisfies their laws, and the theorems applied on it.

  Assumptions of the theorems on files. \<open>file_laws\<close>: the laws of the parameters
  (decryption inverts encryption, the JSON reader reads back what the writer wrote, listing
  a directory names its files). \<open>named\<close>: every valid pending record is under the name
  that admission gives it (a spool of an earlier format, whose files have other names, is
  outside these theorems). \<open>single_valued (disk_ids ..)\<close> and \<open>collision_free\<close>:
  the notice identifiers of the numbers at hand, SHA-256 values, do not collide.

  Loops and fuel. The two loops that are not over a list (\<open>build_batch_v2\<close>, which
  starts over after a quarantine, and the pruning of receipts) run with fuel one more than
  the number of entries or receipts; \<open>Spool_System\<close> proves that this is enough and that
  the loop satisfies its recursive equation.

  Not modelled: the TOML, HTTP and TLS libraries (what the sources call of them is a
  parameter), tokio's scheduling (requests are steps that do not interleave, as the locks of
  the sources make them for the spool), clap, signals, the printing of JSON by the commands,
  wiping of secrets from memory, poisoned mutexes, and text encodings other than UTF-8 in
  file names. The file tree of \<open>Edge_Init\<close> is by path: other names of a node over
  trusted links are not followed.
\<close>

end
